(* ===== verification/Js_Prelude.thy ===== *)
theory Js_Prelude
  imports Complex_Main "HOL-Library.AList"
begin

text \<open>
  The prelude of the development: what the TypeScript sources use of the language and of
  its standard library, and the generic lemmas the components share.

  \<^item> a \<open>Map\<close> of the program is an association list in insertion order
    (\<open>jsmap\<close>): \<open>Map.set\<close> of a present key keeps its position, of a fresh key appends;
  \<^item> time stamps (\<open>Date.now()\<close>, \<open>toISOString()\<close>) are milliseconds since the epoch, an
    \<open>int\<close>; the ISO rendering of a stamp is an order preserving presentation of it and is
    not modelled;
  \<^item> fractional numbers (rates, tokens, latencies) are exact rationals;
  \<^item> \<open>Number.prototype.toString(radix)\<close> is \<open>render_nat\<close>.
\<close>

named_theorems js_simps

type_synonym timestamp = int
type_synonym ('k, 'v) jsmap = "('k \<times> 'v) list"

text \<open>A value parsed from JSON; \<open>undefined\<close> is the absence of a property.\<close>

datatype json =
    JNull
  | JBool bool
  | JNum rat
  | JStr string
  | JArr "json list"
  | JObj "(string \<times> json) list"

type_synonym json_object = "(string \<times> json) list"

definition js_round :: "rat \<Rightarrow> int" where
  "js_round x = \<lfloor>x + 1/2\<rfloor>"

text \<open>The truth value of an optional string: \<open>undefined\<close> and the empty string are falsy.\<close>

definition truthy :: "string option \<Rightarrow> bool" where
  "truthy x = (case x of None \<Rightarrow> False | Some t \<Rightarrow> t \<noteq> [])"

text \<open>The operator \<open>??\<close>.\<close>

definition nullish :: "'a option \<Rightarrow> 'a \<Rightarrow> 'a" where
  "nullish x d = (case x of None \<Rightarrow> d | Some v \<Rightarrow> v)"

subsection \<open>JavaScript maps\<close>

definition jget :: "('k, 'v) jsmap \<Rightarrow> 'k \<Rightarrow> 'v option" where
  "jget m k = map_of m k"

definition jset :: "('k, 'v) jsmap \<Rightarrow> 'k \<Rightarrow> 'v \<Rightarrow> ('k, 'v) jsmap" where
  "jset m k v = AList.update k v m"

definition jdelete :: "('k, 'v) jsmap \<Rightarrow> 'k \<Rightarrow> ('k, 'v) jsmap" where
  "jdelete m k = AList.delete k m"

definition jhas :: "('k, 'v) jsmap \<Rightarrow> 'k \<Rightarrow> bool" where
  "jhas m k = (jget m k \<noteq> None)"

definition jkeys :: "('k, 'v) jsmap \<Rightarrow> 'k list" where
  "jkeys m = map fst m"

definition jvalues :: "('k, 'v) jsmap \<Rightarrow> 'v list" where
  "jvalues m = map snd m"

subsection \<open>Trimming\<close>

definition js_space :: "char \<Rightarrow> bool" where
  "js_space c \<longleftrightarrow> c = CHR '' '' \<or> (9 \<le> (of_char c :: nat) \<and> (of_char c :: nat) \<le> 13)"

definition trim :: "string \<Rightarrow> string" where
  "trim s = rev (dropWhile js_space (rev (dropWhile js_space s)))"

subsection \<open>Strings and sets\<close>

text \<open>\<open>toLowerCase()\<close> on a code unit below 256.\<close>

definition to_lower :: "char \<Rightarrow> char" where
  "to_lower c =
     (let n = of_char c :: nat
      in if 65 \<le> n \<and> n \<le> 90 \<or> 192 \<le> n \<and> n \<le> 222 \<and> n \<noteq> 215 then char_of (n + 32) else c)"

text \<open>\<open>[...new Set(xs)]\<close>: the first occurrence of each element.\<close>

definition unique :: "'a list \<Rightarrow> 'a list" where
  "unique xs = rev (remdups (rev xs))"

subsection \<open>Numbers as strings\<close>

definition digit_char :: "nat \<Rightarrow> char" where
  "digit_char d = (if d < 10 then char_of (48 + d) else char_of (87 + d))"

fun render_nat :: "nat \<Rightarrow> nat \<Rightarrow> string" where
  "render_nat base n =
     (if base < 2 \<or> n < base then [digit_char n]
      else render_nat base (n div base) @ [digit_char (n mod base)])"

definition render_int :: "nat \<Rightarrow> int \<Rightarrow> string" where
  "render_int base i = (if i < 0 then ''-'' @ render_nat base (nat (- i)) else render_nat base (nat i))"

abbreviation show_int :: "int \<Rightarrow> string" where
  "show_int \<equiv> render_int 10"

abbreviation show_nat :: "nat \<Rightarrow> string" where
  "show_nat \<equiv> render_nat 10"

abbreviation base36 :: "int \<Rightarrow> string" where
  "base36 \<equiv> render_int 36"

text \<open>
  A number in a template string: the decimal expansion of a rational, cut off after
  seventeen fractional digits (the digits of a double).
\<close>

primrec fraction_digits :: "nat \<Rightarrow> rat \<Rightarrow> string" where
  "fraction_digits 0 x = []"
| "fraction_digits (Suc n) x =
     (if x = 0 then [] else digit_char (nat \<lfloor>10 * x\<rfloor>) # fraction_digits n (10 * x - of_int \<lfloor>10 * x\<rfloor>))"

definition show_num :: "rat \<Rightarrow> string" where
  "show_num x =
     (let whole = render_int 10 \<lfloor>\<bar>x\<bar>\<rfloor>; frac = \<bar>x\<bar> - of_int \<lfloor>\<bar>x\<bar>\<rfloor>
      in (if x < 0 then ''-'' else []) @ whole @ (if frac = 0 then [] else CHR ''.'' # fraction_digits 17 frac))"

declare render_nat.simps [simp del]

subsection \<open>Lemmas on maps\<close>

lemma nullish_simps [simp]: "nullish None d = d" "nullish (Some v) d = v"
  by (simp_all add: nullish_def)

lemma truthy_simps [simp]: "\<not> truthy None" "truthy (Some t) \<longleftrightarrow> t \<noteq> []"
  by (simp_all add: truthy_def)

lemma jget_jset: "jget (jset m k v) k' = (if k' = k then Some v else jget m k')"
  by (simp add: jget_def jset_def update_conv')

lemma jget_jset_same [simp]: "jget (jset m k v) k = Some v"
  by (simp add: jget_jset)

lemma jget_jset_other [simp]: "k' \<noteq> k \<Longrightarrow> jget (jset m k v) k' = jget m k'"
  by (simp add: jget_jset)

lemma jget_jdelete: "jget (jdelete m k) k' = (if k' = k then None else jget m k')"
  by (simp add: jget_def jdelete_def delete_conv')

lemma jget_Nil [simp]: "jget [] k = None"
  by (simp add: jget_def)

lemma jkeys_jset_distinct: "distinct (jkeys m) \<Longrightarrow> distinct (jkeys (jset m k v))"
  by (simp add: jkeys_def jset_def distinct_update)

lemma jhas_iff_key: "jhas m k \<longleftrightarrow> k \<in> set (jkeys m)"
  by (simp add: jhas_def jkeys_def jget_def map_of_eq_None_iff)

lemma jkeys_jset: "jkeys (jset m k v) = (if jhas m k then jkeys m else jkeys m @ [k])"
  by (induction m) (auto simp: jkeys_def jset_def jhas_def jget_def)

subsection \<open>Rendering of numbers is injective and uses digits only\<close>

definition is_digit36 :: "char \<Rightarrow> bool" where
  "is_digit36 c = (c \<in> digit_char ` {0..<36})"

lemma digit_char_inj: "d < 36 \<Longrightarrow> e < 36 \<Longrightarrow> digit_char d = digit_char e \<Longrightarrow> d = e"
proof -
  assume "d < 36" "e < 36" "digit_char d = digit_char e"
  then have "of_char (digit_char d) = (of_char (digit_char e) :: nat)" by simp
  then show ?thesis using \<open>d < 36\<close> \<open>e < 36\<close>
    by (auto simp: digit_char_def of_char_of take_bit_eq_mod split: if_splits)
qed

lemma render_nat_nonempty [simp]: "render_nat b n \<noteq> []"
  by (subst render_nat.simps) simp

lemma render_nat_digits:
  assumes "2 \<le> b" "b \<le> 36"
  shows "\<forall>c \<in> set (render_nat b n). is_digit36 c"
proof (induction n rule: less_induct)
  case (less n)
  show ?case
  proof (cases "n < b")
    case True
    with assms show ?thesis by (subst render_nat.simps) (auto simp: is_digit36_def)
  next
    case False
    with assms have "n div b < n" by simp
    note IH = less[OF this]
    have "n mod b < 36"
      using assms by (meson dual_order.strict_trans1 mod_less_divisor less_le_trans pos2)
    with IH False assms show ?thesis
      by (subst render_nat.simps) (auto simp: is_digit36_def)
  qed
qed

lemma render_nat_inj:
  assumes "2 \<le> b" "b \<le> 36"
  shows "render_nat b m = render_nat b n \<Longrightarrow> m = n"
proof (induction m arbitrary: n rule: less_induct)
  case (less m)
  have lt: "k mod b < 36" for k
    using assms by (meson dual_order.strict_trans1 mod_less_divisor less_le_trans pos2)
  show ?case
  proof (cases "m < b"; cases "n < b")
    assume "m < b" "n < b"
    then show ?thesis using less.prems assms lt
      by (simp add: render_nat.simps [of b m] render_nat.simps [of b n])
        (metis digit_char_inj less_le_trans)
  next
    assume "m < b" "\<not> n < b"
    then show ?thesis using less.prems assms
      by (simp add: render_nat.simps [of b m] render_nat.simps [of b n])
        (metis append_eq_Cons_conv render_nat_nonempty append_is_Nil_conv not_Cons_self2)
  next
    assume "\<not> m < b" "n < b"
    then show ?thesis using less.prems assms
      by (simp add: render_nat.simps [of b m] render_nat.simps [of b n])
  next
    assume mn: "\<not> m < b" "\<not> n < b"
    then have "render_nat b (m div b) = render_nat b (n div b)"
      and d: "digit_char (m mod b) = digit_char (n mod b)"
      using less.prems assms
      by (simp_all add: render_nat.simps [of b m] render_nat.simps [of b n])
    then have "m div b = n div b"
      using less.IH[of "m div b" "n div b"] mn assms by simp
    moreover have "m mod b = n mod b"
      using d lt digit_char_inj by blast
    ultimately show ?thesis by (metis div_mult_mod_eq)
  qed
qed

text \<open>A separator that is no digit splits a string at its last occurrence.\<close>

lemma append_sep_inj:
  assumes "xs @ c # ys = xs' @ c # ys'" and "c \<notin> set ys" and "c \<notin> set ys'"
  shows "xs = xs' \<and> ys = ys'"
proof -
  have tw: "takeWhile (\<lambda>x. x \<noteq> c) (rev zs @ c # us) = rev zs" if "c \<notin> set zs" for zs us
    using that by (auto simp: takeWhile_tail)
  have "rev ys @ c # rev xs = rev ys' @ c # rev xs'"
    using arg_cong [OF assms(1), of rev] by simp
  then have "rev ys = rev ys'"
    using tw [OF assms(2)] tw [OF assms(3)] by metis
  with assms(1) show ?thesis by simp
qed

lemma underscore_not_digit [simp]: "\<not> is_digit36 (CHR ''_'')"
proof -
  have "CHR ''_'' \<noteq> digit_char d" if "d < 36" for d
  proof
    assume "CHR ''_'' = digit_char d"
    then have "of_char (CHR ''_'') = (of_char (digit_char d) :: nat)" by simp
    then show False using that by (auto simp: digit_char_def of_char_of take_bit_eq_mod split: if_splits)
  qed
  then show ?thesis unfolding is_digit36_def by fastforce
qed

end
