(* ===== verification/Effects.thy ===== *)
theory Effects
  imports Js_Prelude
begin

text \<open>
  Asynchronous code as trees of calls.

  An \<open>async\<close> function of the program is a value of type \<open>prog\<close>: it returns (\<open>Ret\<close>), throws
  (\<open>Throw\<close>), reads or writes the memory of its Node process (\<open>Get\<close>, \<open>Modify\<close>), or
  performs a call whose code is not part of the repository (\<open>Call\<close>: a Redis command, a
  BullMQ operation, the clock, a timer) and continues with the reply. What answers the
  calls is a parameter: a handler \<open>H :: 'c \<Rightarrow> 'w \<Rightarrow> 'r \<times> 'w\<close> over a type \<open>'w\<close> of
  outside worlds. A loop is unrolled with fuel and is \<open>Diverge\<close> when the fuel is spent, a
  leaf that no handler of exceptions sees. \<open>run\<close> executes a program alone against a
  handler and is \<open>None\<close> when it diverges; \<open>wp\<close> is the corresponding weakest precondition
  for total correctness, with one rewrite rule per construct.
\<close>

datatype (dead 'c, dead 'r, dead 's, dead 'e, 'a) prog =
    Ret 'a
  | Throw 'e
  | Diverge
  | Get "'s \<Rightarrow> ('c, 'r, 's, 'e, 'a) prog"
  | Modify "'s \<Rightarrow> 's" "('c, 'r, 's, 'e, 'a) prog"
  | Call 'c "'r \<Rightarrow> ('c, 'r, 's, 'e, 'a) prog"

primrec bind :: "('c, 'r, 's, 'e, 'a) prog \<Rightarrow> ('a \<Rightarrow> ('c, 'r, 's, 'e, 'b) prog) \<Rightarrow> ('c, 'r, 's, 'e, 'b) prog" where
  "bind (Ret a) f = f a"
| "bind (Throw e) f = Throw e"
| "bind Diverge f = Diverge"
| "bind (Get k) f = Get (\<lambda>s. bind (k s) f)"
| "bind (Modify g p) f = Modify g (bind p f)"
| "bind (Call c k) f = Call c (\<lambda>r. bind (k r) f)"

text \<open>\<open>try { p } catch (e) { h(e) }\<close>\<close>

primrec catch :: "('c, 'r, 's, 'e, 'a) prog \<Rightarrow> ('e \<Rightarrow> ('c, 'r, 's, 'e, 'a) prog) \<Rightarrow> ('c, 'r, 's, 'e, 'a) prog" where
  "catch (Ret a) h = Ret a"
| "catch (Throw e) h = h e"
| "catch Diverge h = Diverge"
| "catch (Get k) h = Get (\<lambda>s. catch (k s) h)"
| "catch (Modify g p) h = Modify g (catch p h)"
| "catch (Call c k) h = Call c (\<lambda>r. catch (k r) h)"

text \<open>\<open>try { p } finally { q }\<close>: an exception of \<open>q\<close> replaces the outcome of \<open>p\<close>.\<close>

primrec attempt :: "('c, 'r, 's, 'e, 'a) prog \<Rightarrow> ('c, 'r, 's, 'e, 'e + 'a) prog" where
  "attempt (Ret a) = Ret (Inr a)"
| "attempt (Throw e) = Ret (Inl e)"
| "attempt Diverge = Diverge"
| "attempt (Get k) = Get (\<lambda>s. attempt (k s))"
| "attempt (Modify g p) = Modify g (attempt p)"
| "attempt (Call c k) = Call c (\<lambda>r. attempt (k r))"

definition rethrow :: "'e + 'a \<Rightarrow> ('c, 'r, 's, 'e, 'a) prog" where
  "rethrow r = (case r of Inl e \<Rightarrow> Throw e | Inr a \<Rightarrow> Ret a)"

definition finally_do :: "('c, 'r, 's, 'e, 'a) prog \<Rightarrow> ('c, 'r, 's, 'e, unit) prog \<Rightarrow> ('c, 'r, 's, 'e, 'a) prog" where
  "finally_do p q = bind (attempt p) (\<lambda>r. bind q (\<lambda>_. rethrow r))"

text \<open>A block of statements, executed in order up to the first exception.\<close>

primrec block :: "('c, 'r, 's, 'e, unit) prog list \<Rightarrow> ('c, 'r, 's, 'e, unit) prog" where
  "block [] = Ret ()"
| "block (p # ps) = bind p (\<lambda>_. block ps)"

definition gets :: "('s \<Rightarrow> 'a) \<Rightarrow> ('c, 'r, 's, 'e, 'a) prog" where
  "gets f = Get (\<lambda>s. Ret (f s))"

definition modify :: "('s \<Rightarrow> 's) \<Rightarrow> ('c, 'r, 's, 'e, unit) prog" where
  "modify f = Modify f (Ret ())"

text \<open>A synchronous method of an object in memory: it returns a value and the new memory.\<close>

definition sync_step :: "('s \<Rightarrow> 'a \<times> 's) \<Rightarrow> ('c, 'r, 's, 'e, 'a) prog" where
  "sync_step f = Get (\<lambda>s. Modify (\<lambda>s'. snd (f s)) (Ret (fst (f s))))"

primrec run :: "('c \<Rightarrow> 'w \<Rightarrow> 'r \<times> 'w) \<Rightarrow> ('c, 'r, 's, 'e, 'a) prog \<Rightarrow> 's \<Rightarrow> 'w \<Rightarrow> (('e + 'a) \<times> 's \<times> 'w) option" where
  "run H (Ret a) = (\<lambda>s w. Some (Inr a, s, w))"
| "run H (Throw e) = (\<lambda>s w. Some (Inl e, s, w))"
| "run H Diverge = (\<lambda>s w. None)"
| "run H (Get k) = (\<lambda>s w. run H (k s) s w)"
| "run H (Modify g p) = (\<lambda>s w. run H p (g s) w)"
| "run H (Call c k) = (\<lambda>s w. case H c w of (r, w') \<Rightarrow> run H (k r) s w')"

definition wp :: "('c \<Rightarrow> 'w \<Rightarrow> 'r \<times> 'w) \<Rightarrow> ('c, 'r, 's, 'e, 'a) prog \<Rightarrow>
    ('e + 'a \<Rightarrow> 's \<Rightarrow> 'w \<Rightarrow> bool) \<Rightarrow> 's \<Rightarrow> 'w \<Rightarrow> bool" where
  "wp H p Q s w = (case run H p s w of None \<Rightarrow> False | Some (r, s', w') \<Rightarrow> Q r s' w')"

subsection \<open>Laws of the constructs\<close>

lemma bind_assoc: "bind (bind p f) g = bind p (\<lambda>a. bind (f a) g)"
  by (induction p) auto

lemma bind_Ret [simp]: "bind p Ret = p"
  by (induction p) auto

lemma wp_Ret [simp]: "wp H (Ret a) Q s w = Q (Inr a) s w"
  by (simp add: wp_def)

lemma wp_Throw [simp]: "wp H (Throw e) Q s w = Q (Inl e) s w"
  by (simp add: wp_def)

lemma wp_Diverge [simp]: "\<not> wp H Diverge Q s w"
  by (simp add: wp_def)

lemma wp_Get [simp]: "wp H (Get k) Q s w = wp H (k s) Q s w"
  by (simp add: wp_def)

lemma wp_Modify [simp]: "wp H (Modify g p) Q s w = wp H p Q (g s) w"
  by (simp add: wp_def)

lemma wp_Call: "wp H (Call c k) Q s w = (case H c w of (r, w') \<Rightarrow> wp H (k r) Q s w')"
  by (simp add: wp_def split: prod.splits option.splits)

lemma wp_bind [simp]:
  "wp H (bind p f) Q s w =
     wp H p (\<lambda>r s w. case r of Inl e \<Rightarrow> Q (Inl e) s w | Inr a \<Rightarrow> wp H (f a) Q s w) s w"
  by (induction p arbitrary: s w) (auto simp: wp_Call split: prod.splits option.splits)

lemma wp_catch [simp]:
  "wp H (catch p h) Q s w =
     wp H p (\<lambda>r s w. case r of Inl e \<Rightarrow> wp H (h e) Q s w | Inr a \<Rightarrow> Q (Inr a) s w) s w"
  by (induction p arbitrary: s w) (auto simp: wp_Call split: prod.splits option.splits)

lemma wp_attempt [simp]: "wp H (attempt p) Q s w = wp H p (\<lambda>r. Q (Inr r)) s w"
  by (induction p arbitrary: s w) (auto simp: wp_Call split: prod.splits option.splits)

lemma wp_rethrow [simp]: "wp H (rethrow r) Q s w = Q r s w"
  by (cases r) (auto simp: rethrow_def)

lemma wp_finally [simp]:
  "wp H (finally_do p q) Q s w =
     wp H p (\<lambda>r. wp H q (\<lambda>r'. case r' of Inl e \<Rightarrow> Q (Inl e) | Inr _ \<Rightarrow> Q r)) s w"
  by (simp add: finally_do_def cong: sum.case_cong)
    (simp add: wp_def split: prod.splits sum.splits option.splits)

lemma wp_gets [simp]: "wp H (gets f) Q s w = Q (Inr (f s)) s w"
  by (simp add: gets_def)

lemma wp_modify [simp]: "wp H (modify f) Q s w = Q (Inr ()) (f s) w"
  by (simp add: modify_def)

lemma wp_sync_step [simp]: "wp H (sync_step f) Q s w = Q (Inr (fst (f s))) (snd (f s)) w"
  by (simp add: sync_step_def)

lemma wp_if: "(b \<Longrightarrow> wp H p Q s w) \<Longrightarrow> (\<not> b \<Longrightarrow> wp H q Q s w) \<Longrightarrow> wp H (if b then p else q) Q s w"
  by simp

lemma wp_mono:
  "wp H p Q s w \<Longrightarrow> (\<And>r s' w'. Q r s' w' \<Longrightarrow> Q' r s' w') \<Longrightarrow> wp H p Q' s w"
  by (auto simp: wp_def split: prod.splits option.splits)

lemma wp_conj: "wp H p Q s w \<Longrightarrow> wp H p Q' s w \<Longrightarrow> wp H p (\<lambda>r s w. Q r s w \<and> Q' r s w) s w"
  by (auto simp: wp_def split: prod.splits option.splits)

lemma wp_run: "wp H p Q s w \<Longrightarrow> \<exists>r s' w'. run H p s w = Some (r, s', w') \<and> Q r s' w'"
  by (auto simp: wp_def split: option.splits)

lemma wp_runD: "wp H p Q s w \<Longrightarrow> run H p s w = Some (r, s', w') \<Longrightarrow> Q r s' w'"
  by (simp add: wp_def)

lemma wp_runI: "run H p s w = Some (r, s', w') \<Longrightarrow> Q r s' w' \<Longrightarrow> wp H p Q s w"
  by (simp add: wp_def)

lemma run_wp_iff: "(\<exists>r s' w'. run H p s w = Some (r, s', w') \<and> Q r s' w') \<longleftrightarrow> wp H p Q s w"
  by (auto simp: wp_def split: option.splits)

subsection \<open>Programs that respect a relation on the memory\<close>

text \<open>
  \<open>honours H R p\<close>: \<open>p\<close> terminates, and relates the memory it finds to the one it leaves,
  whether it returns or throws. For a preorder \<open>R\<close> the property is closed under the
  constructs; frame conditions are proved with it.
\<close>

definition honours :: "('c \<Rightarrow> 'w \<Rightarrow> 'r \<times> 'w) \<Rightarrow> ('s \<Rightarrow> 's \<Rightarrow> bool) \<Rightarrow> ('c, 'r, 's, 'e, 'a) prog \<Rightarrow> bool" where
  "honours H R p \<longleftrightarrow> (\<forall>s w. wp H p (\<lambda>r s' w'. R s s') s w)"

locale memory_frame =
  fixes R :: "'s \<Rightarrow> 's \<Rightarrow> bool"
  assumes frame_refl: "R s s"
    and frame_trans: "R s t \<Longrightarrow> R t u \<Longrightarrow> R s u"
begin

lemma honours_Ret: "honours H R (Ret a)"
  by (simp add: honours_def frame_refl)

lemma honours_Throw: "honours H R (Throw e)"
  by (simp add: honours_def frame_refl)

lemma honours_bind:
  assumes "honours H R p" and "\<And>a. honours H R (f a)"
  shows "honours H R (bind p f)"
  unfolding honours_def
proof (intro allI)
  fix s w
  from assms(1) have "wp H p (\<lambda>r s' w'. R s s') s w" by (simp add: honours_def)
  then have "wp H p (\<lambda>r s' w'. case r of Inl e \<Rightarrow> R s s' | Inr a \<Rightarrow> wp H (f a) (\<lambda>r s'' w''. R s s'') s' w') s w"
    using assms(2) by (elim wp_mono) (auto split: sum.splits simp: honours_def intro: wp_mono frame_trans)
  then show "wp H (bind p f) (\<lambda>r s' w'. R s s') s w" by (simp cong: sum.case_cong)
qed

lemma honours_catch:
  assumes "honours H R p" and "\<And>e. honours H R (h e)"
  shows "honours H R (catch p h)"
  unfolding honours_def
proof (intro allI)
  fix s w
  from assms(1) have "wp H p (\<lambda>r s' w'. R s s') s w" by (simp add: honours_def)
  then have "wp H p (\<lambda>r s' w'. case r of Inl e \<Rightarrow> wp H (h e) (\<lambda>r s'' w''. R s s'') s' w' | Inr a \<Rightarrow> R s s') s w"
    using assms(2) by (elim wp_mono) (auto split: sum.splits simp: honours_def intro: wp_mono frame_trans)
  then show "wp H (catch p h) (\<lambda>r s' w'. R s s') s w" by (simp cong: sum.case_cong)
qed

lemma honours_attempt: "honours H R p \<Longrightarrow> honours H R (attempt p)"
  by (simp add: honours_def)

lemma honours_rethrow: "honours H R (rethrow r)"
  by (cases r) (simp_all add: rethrow_def honours_Ret honours_Throw)

lemma honours_finally: "honours H R p \<Longrightarrow> honours H R q \<Longrightarrow> honours H R (finally_do p q)"
  unfolding finally_do_def by (intro honours_bind honours_attempt honours_rethrow)

lemma honours_Get: "(\<And>s. honours H R (k s)) \<Longrightarrow> honours H R (Get k)"
  by (simp add: honours_def)

lemma honours_gets: "honours H R (gets f)"
  by (simp add: honours_def frame_refl)

lemma honours_modify: "(\<And>s. R s (f s)) \<Longrightarrow> honours H R (modify f)"
  by (simp add: honours_def)

lemma honours_sync: "(\<And>s. R s (snd (f s))) \<Longrightarrow> honours H R (sync_step f)"
  by (simp add: honours_def)

lemma honours_Call: "(\<And>r. honours H R (k r)) \<Longrightarrow> honours H R (Call c k)"
  by (simp add: honours_def wp_Call split: prod.splits)

lemma honours_block: "(\<And>p. p \<in> set ps \<Longrightarrow> honours H R p) \<Longrightarrow> honours H R (block ps)"
  by (induction ps) (auto intro: honours_Ret honours_bind)

lemma honours_if: "honours H R p \<Longrightarrow> honours H R q \<Longrightarrow> honours H R (if b then p else q)"
  by simp

lemmas honours_intros =
  honours_Ret honours_Throw honours_bind honours_catch honours_finally honours_Get
  honours_gets honours_modify honours_sync honours_block honours_if

end

subsection \<open>Budgets\<close>

text \<open>
  A relation on the memory graded by two budgets that add up along a sequence of steps;
  a step may be charged more than it uses.
\<close>

locale graded_frame =
  fixes G :: "nat \<Rightarrow> nat \<Rightarrow> 's \<Rightarrow> 's \<Rightarrow> bool"
  assumes grade_trans: "G c1 f1 s t \<Longrightarrow> G c2 f2 t u \<Longrightarrow> G (c1 + c2) (f1 + f2) s u"
    and grade_weaken: "G c f s t \<Longrightarrow> c \<le> c' \<Longrightarrow> f \<le> f' \<Longrightarrow> G c' f' s t"
begin

lemma wp_seq_grade:
  assumes "wp H p (\<lambda>r s' w'. G c1 f1 s s') s w"
    and "\<And>a s1 w1. G c1 f1 s s1 \<Longrightarrow> wp H (q a) (\<lambda>r s' w'. G c2 f2 s1 s') s1 w1"
  shows "wp H (bind p q) (\<lambda>r s' w'. G (c1 + c2) (f1 + f2) s s') s w"
  unfolding wp_bind using assms(1)
proof (rule wp_mono)
  fix r s1 w1
  assume s1: "G c1 f1 s s1"
  have "wp H (q a) (\<lambda>r s' w'. G (c1 + c2) (f1 + f2) s s') s1 w1" for a
    using assms(2) [OF s1] by (rule wp_mono) (rule grade_trans [OF s1])
  with grade_weaken [OF s1] show "case r of Inl e \<Rightarrow> G (c1 + c2) (f1 + f2) s s1
     | Inr a \<Rightarrow> wp H (q a) (\<lambda>r s' w'. G (c1 + c2) (f1 + f2) s s') s1 w1"
    by (simp split: sum.split)
qed

lemma wp_catch_grade:
  assumes "wp H p (\<lambda>r s' w'. G c1 f1 s s') s w"
    and "\<And>e s1 w1. G c1 f1 s s1 \<Longrightarrow> wp H (h e) (\<lambda>r s' w'. G c2 f2 s1 s') s1 w1"
  shows "wp H (catch p h) (\<lambda>r s' w'. G (c1 + c2) (f1 + f2) s s') s w"
  unfolding wp_catch using assms(1)
proof (rule wp_mono)
  fix r s1 w1
  assume s1: "G c1 f1 s s1"
  have "wp H (h e) (\<lambda>r s' w'. G (c1 + c2) (f1 + f2) s s') s1 w1" for e
    using assms(2) [OF s1] by (rule wp_mono) (rule grade_trans [OF s1])
  with grade_weaken [OF s1] show "case r of Inl e \<Rightarrow> wp H (h e) (\<lambda>r s' w'. G (c1 + c2) (f1 + f2) s s') s1 w1
     | Inr a \<Rightarrow> G (c1 + c2) (f1 + f2) s s1"
    by (simp split: sum.split)
qed

lemma wp_finally_grade:
  assumes "wp H p (\<lambda>r s' w'. G c1 f1 s s') s w"
    and "\<And>s1 w1. wp H q (\<lambda>r s' w'. G c2 f2 s1 s') s1 w1"
  shows "wp H (finally_do p q) (\<lambda>r s' w'. G (c1 + c2) (f1 + f2) s s') s w"
  unfolding wp_finally using assms(1)
proof (rule wp_mono)
  fix r s1 w1
  assume s1: "G c1 f1 s s1"
  show "wp H q (\<lambda>r'. case r' of Inl e \<Rightarrow> \<lambda>s' w'. G (c1 + c2) (f1 + f2) s s'
     | Inr _ \<Rightarrow> \<lambda>s' w'. G (c1 + c2) (f1 + f2) s s') s1 w1"
    using assms(2) by (rule wp_mono) (simp add: grade_trans [OF s1] split: sum.split)
qed

end

end
