(* ===== verification/Payment_Domain.thy ===== *)
theory Payment_Domain
  imports Js_Prelude "HOL-Library.Sublist"
begin

text \<open>
  The payment domain of \<^verbatim>\<open>src/domain/payment.ts\<close>: the data types, \<open>createPaymentRecord\<close>
  and the four \<open>transitionTo...\<close> functions. The functions mutate their argument; the
  model returns the mutated record. The default argument \<open>ts = new Date().toISOString()\<close>
  is the explicit argument \<open>at\<close>.
\<close>

datatype priority = High | Normal | Low

primrec PRIORITY_TO_NUMERIC :: "priority \<Rightarrow> int" where
  "PRIORITY_TO_NUMERIC High = 1"
| "PRIORITY_TO_NUMERIC Normal = 2"
| "PRIORITY_TO_NUMERIC Low = 3"

datatype payment_status = S_queued | S_processing | S_completed | S_failed | S_dead_letter

primrec status_text :: "payment_status \<Rightarrow> string" where
  "status_text S_queued = ''queued''"
| "status_text S_processing = ''processing''"
| "status_text S_completed = ''completed''"
| "status_text S_failed = ''failed''"
| "status_text S_dead_letter = ''dead_letter''"

definition DEFAULT_MAX_RETRIES :: int where
  "DEFAULT_MAX_RETRIES = 3"

record payment =
  p_id :: string
  p_amount :: int
  p_currency :: string
  p_customerId :: string
  p_gatewayId :: string
  p_priority :: priority
  p_maxRetries :: int
  p_metadata :: json_object
  p_createdAt :: timestamp
  p_scheduledAt :: "timestamp option"

datatype saga_phase = Ph_reserve | Ph_charge | Ph_settle | Ph_compensation

datatype saga_state =
  Saga_idle | Saga_reserved | Saga_charged | Saga_settled | Saga_compensated | Saga_failed

record history_entry =
  h_phase :: saga_phase
  h_event :: string
  h_at :: timestamp
  h_detail :: "string option"

record payment_record = payment +
  r_status :: payment_status
  r_retryCount :: int
  r_sagaState :: saga_state
  r_history :: "history_entry list"
  r_jobId :: "string option"
  r_reservationId :: "string option"
  r_transactionId :: "string option"
  r_refundId :: "string option"
  r_failureReason :: "string option"
  r_correlationId :: "string option"
  r_processedAt :: "timestamp option"
  r_completedAt :: "timestamp option"

record create_input =
  ci_id :: string
  ci_amount :: int
  ci_currency :: string
  ci_customerId :: string
  ci_gatewayId :: string
  ci_priority :: priority
  ci_maxRetries :: "int option"
  ci_metadata :: "json_object option"
  ci_scheduledAt :: "timestamp option"
  ci_correlationId :: "string option"
  ci_createdAt :: "timestamp option"

definition createPaymentRecord :: "create_input \<Rightarrow> timestamp \<Rightarrow> payment_record" where
  "createPaymentRecord inp now =
     \<lparr>p_id = ci_id inp, p_amount = ci_amount inp, p_currency = ci_currency inp,
      p_customerId = ci_customerId inp, p_gatewayId = ci_gatewayId inp,
      p_priority = ci_priority inp,
      p_maxRetries = nullish (ci_maxRetries inp) DEFAULT_MAX_RETRIES,
      p_metadata = nullish (ci_metadata inp) [],
      p_createdAt = nullish (ci_createdAt inp) now,
      p_scheduledAt = ci_scheduledAt inp,
      r_status = S_queued, r_retryCount = 0, r_sagaState = Saga_idle, r_history = [],
      r_jobId = None, r_reservationId = None, r_transactionId = None, r_refundId = None,
      r_failureReason = None, r_correlationId = ci_correlationId inp,
      r_processedAt = None, r_completedAt = None\<rparr>"

definition push_history :: "payment_record \<Rightarrow> saga_phase \<Rightarrow> string \<Rightarrow> string option \<Rightarrow> timestamp \<Rightarrow> payment_record" where
  "push_history r phase event detail ts =
     r\<lparr>r_history := r_history r @ [\<lparr>h_phase = phase, h_event = event, h_at = ts, h_detail = detail\<rparr>]\<rparr>"

definition transitionToProcessing :: "payment_record \<Rightarrow> int \<Rightarrow> timestamp \<Rightarrow> payment_record" where
  "transitionToProcessing r attempt ts =
     push_history (r\<lparr>r_status := S_processing, r_retryCount := attempt, r_processedAt := Some ts\<rparr>)
       Ph_reserve (''attempt '' @ show_int (attempt + 1) @ '' started'') None ts"

definition transitionToCompleted :: "payment_record \<Rightarrow> string option \<Rightarrow> timestamp \<Rightarrow> payment_record" where
  "transitionToCompleted r transactionId ts =
     (let r' = r\<lparr>r_status := S_completed, r_completedAt := Some ts\<rparr>
      in if truthy transactionId then r'\<lparr>r_transactionId := transactionId\<rparr> else r')"

definition transitionToFailed :: "payment_record \<Rightarrow> string \<Rightarrow> timestamp \<Rightarrow> payment_record" where
  "transitionToFailed r failureReason ts =
     push_history (r\<lparr>r_status := S_failed, r_failureReason := Some failureReason\<rparr>)
       Ph_settle ''failed'' (Some failureReason) ts"

definition transitionToDeadLetter :: "payment_record \<Rightarrow> string \<Rightarrow> timestamp \<Rightarrow> payment_record" where
  "transitionToDeadLetter r reason ts =
     push_history (r\<lparr>r_status := S_dead_letter, r_failureReason := Some reason\<rparr>)
       Ph_compensation ''dead_lettered'' (Some reason) ts"

datatype idempotency_state = Idem_PROCESSING | Idem_COMPLETED | Idem_FAILED

record idempotency_record =
  i_paymentId :: string
  i_state :: idempotency_state
  i_paymentStatus :: "payment_status option"
  i_transactionId :: "string option"
  i_failureReason :: "string option"
  i_claimedAt :: "timestamp option"
  i_updatedAt :: "timestamp option"

datatype audit_type =
    A_payment_submitted | A_payment_queued | A_payment_processing | A_payment_completed
  | A_payment_failed | A_payment_dead_lettered | A_saga_reserve | A_saga_charge | A_saga_settle
  | A_release_funds | A_refund_charge | A_idempotency_claimed | A_idempotency_finalized

record audit_event =
  a_paymentId :: string
  a_type :: audit_type
  a_at :: timestamp
  a_detail :: "json_object option"

record job_data =
  j_paymentId :: string
  j_correlationId :: "string option"

definition QUEUE_JOB_NAME :: string where
  "QUEUE_JOB_NAME = ''payment''"

definition DLQ_QUEUE_NAME :: string where
  "DLQ_QUEUE_NAME = ''dlq''"

definition DLQ_JOB_NAME :: string where
  "DLQ_JOB_NAME = ''dead-letter''"

subsection \<open>Evolution of a payment record\<close>

text \<open>
  \<open>evolves r r'\<close>: the order as the customer placed it is untouched and the history only
  grew. Every mutation of a record by the program is an evolution.
\<close>

definition core :: "payment_record \<Rightarrow> payment" where
  "core r = \<lparr>p_id = p_id r, p_amount = p_amount r, p_currency = p_currency r,
     p_customerId = p_customerId r, p_gatewayId = p_gatewayId r, p_priority = p_priority r,
     p_maxRetries = p_maxRetries r, p_metadata = p_metadata r, p_createdAt = p_createdAt r,
     p_scheduledAt = p_scheduledAt r\<rparr>"

definition evolves :: "payment_record \<Rightarrow> payment_record \<Rightarrow> bool" where
  "evolves r r' \<longleftrightarrow> core r' = core r \<and> prefix (r_history r) (r_history r')"

lemma evolves_refl [simp]: "evolves r r"
  by (simp add: evolves_def)

lemma evolves_trans [trans]: "evolves a b \<Longrightarrow> evolves b c \<Longrightarrow> evolves a c"
  by (auto simp: evolves_def intro: prefix_order.trans)

lemma evolves_fields:
  "evolves r r' \<Longrightarrow> p_id r' = p_id r \<and> p_amount r' = p_amount r \<and> p_currency r' = p_currency r \<and>
     p_customerId r' = p_customerId r \<and> p_gatewayId r' = p_gatewayId r"
  by (simp add: evolves_def core_def)

lemma evolves_push [simp]: "evolves r (push_history r ph ev d ts)"
  by (simp add: evolves_def core_def push_history_def)

lemma evolves_field_updates [simp]:
  "evolves r (r\<lparr>r_status := st\<rparr>)" "evolves r (r\<lparr>r_retryCount := n\<rparr>)"
  "evolves r (r\<lparr>r_sagaState := sg\<rparr>)" "evolves r (r\<lparr>r_transactionId := t\<rparr>)"
  "evolves r (r\<lparr>r_reservationId := t\<rparr>)" "evolves r (r\<lparr>r_refundId := t\<rparr>)"
  "evolves r (r\<lparr>r_failureReason := t\<rparr>)" "evolves r (r\<lparr>r_processedAt := u\<rparr>)"
  "evolves r (r\<lparr>r_completedAt := u\<rparr>)"
  by (simp_all add: evolves_def core_def)

lemma push_history_sel [simp]:
  "p_id (push_history r ph ev d ts) = p_id r"
  "p_gatewayId (push_history r ph ev d ts) = p_gatewayId r"
  "r_status (push_history r ph ev d ts) = r_status r"
  "r_sagaState (push_history r ph ev d ts) = r_sagaState r"
  "r_transactionId (push_history r ph ev d ts) = r_transactionId r"
  "r_reservationId (push_history r ph ev d ts) = r_reservationId r"
  "r_refundId (push_history r ph ev d ts) = r_refundId r"
  "r_failureReason (push_history r ph ev d ts) = r_failureReason r"
  "r_correlationId (push_history r ph ev d ts) = r_correlationId r"
  "r_retryCount (push_history r ph ev d ts) = r_retryCount r"
  by (simp_all add: push_history_def)

lemma evolves_transitions [simp]:
  "evolves r (transitionToProcessing r n ts)"
  "evolves r (transitionToCompleted r t ts)"
  "evolves r (transitionToFailed r m ts)"
  "evolves r (transitionToDeadLetter r m ts)"
  by (auto simp: transitionToProcessing_def transitionToCompleted_def transitionToFailed_def
      transitionToDeadLetter_def Let_def push_history_def evolves_def core_def)

lemma transition_status [simp]:
  "r_status (transitionToProcessing r n ts) = S_processing"
  "r_status (transitionToCompleted r t ts) = S_completed"
  "r_status (transitionToFailed r m ts) = S_failed"
  "r_status (transitionToDeadLetter r m ts) = S_dead_letter"
  by (simp_all add: transitionToProcessing_def transitionToCompleted_def transitionToFailed_def
      transitionToDeadLetter_def Let_def)

lemma transition_ids [simp]:
  "p_id (transitionToProcessing r n ts) = p_id r"
  "p_id (transitionToCompleted r t ts) = p_id r"
  "p_id (transitionToDeadLetter r m ts) = p_id r"
  "p_gatewayId (transitionToProcessing r n ts) = p_gatewayId r"
  "p_gatewayId (transitionToCompleted r t ts) = p_gatewayId r"
  "p_gatewayId (transitionToDeadLetter r m ts) = p_gatewayId r"
  by (simp_all add: transitionToProcessing_def transitionToCompleted_def
      transitionToDeadLetter_def Let_def)

lemma status_text_inj: "status_text s = status_text t \<Longrightarrow> s = t"
  by (cases s; cases t) simp_all

end
