(* ===== verification/Errors.thy ===== *)
theory Errors
  imports Js_Prelude
begin

text \<open>
  The error taxonomy of \<^verbatim>\<open>src/domain/errors.ts\<close>: error codes, the retryable ones, the class
  \<open>PaymentProcessingError\<close> with its derived flag, and the classification of HTTP statuses
  and of raw exceptions. \<open>exn\<close> collects every exception the modelled code throws or
  passes on.
\<close>

datatype error_code =
    CIRCUIT_OPEN | RATE_LIMITED | GATEWAY_UNAVAILABLE | GATEWAY_TIMEOUT | SERVER_ERROR
  | NETWORK_ERROR | CARD_DECLINED | INVALID_CARD | INSUFFICIENT_FUNDS | FRAUD
  | REFUND_FAILED | SETTLE_FAILED | RESERVE_FAILED | UNKNOWN

primrec code_text :: "error_code \<Rightarrow> string" where
  "code_text CIRCUIT_OPEN = ''circuit_open''"
| "code_text RATE_LIMITED = ''rate_limited''"
| "code_text GATEWAY_UNAVAILABLE = ''gateway_unavailable''"
| "code_text GATEWAY_TIMEOUT = ''gateway_timeout''"
| "code_text SERVER_ERROR = ''server_error''"
| "code_text NETWORK_ERROR = ''network_error''"
| "code_text CARD_DECLINED = ''card_declined''"
| "code_text INVALID_CARD = ''invalid_card''"
| "code_text INSUFFICIENT_FUNDS = ''insufficient_funds''"
| "code_text FRAUD = ''fraud''"
| "code_text REFUND_FAILED = ''refund_failed''"
| "code_text SETTLE_FAILED = ''settle_failed''"
| "code_text RESERVE_FAILED = ''reserve_failed''"
| "code_text UNKNOWN = ''unknown''"

definition RETRYABLE_CODES :: "error_code set" where
  "RETRYABLE_CODES =
     {CIRCUIT_OPEN, RATE_LIMITED, GATEWAY_UNAVAILABLE, GATEWAY_TIMEOUT, SERVER_ERROR,
      NETWORK_ERROR, UNKNOWN}"

definition isTransient :: "error_code \<Rightarrow> bool" where
  "isTransient code = (code \<in> RETRYABLE_CODES)"

record payment_processing_error =
  pe_message :: string
  pe_code :: error_code
  pe_retryable :: bool
  pe_httpStatus :: "int option"
  pe_gatewayId :: "string option"

text \<open>The constructor of the class: \<open>retryable\<close> is computed from the code.\<close>

definition newPaymentProcessingError ::
    "string \<Rightarrow> error_code \<Rightarrow> int option \<Rightarrow> string option \<Rightarrow> payment_processing_error" where
  "newPaymentProcessingError message code httpStatus gatewayId =
     \<lparr>pe_message = message, pe_code = code, pe_retryable = isTransient code,
      pe_httpStatus = httpStatus, pe_gatewayId = gatewayId\<rparr>"

definition classifyHttpStatus :: "int \<Rightarrow> error_code" where
  "classifyHttpStatus httpStatus =
     (if httpStatus = 429 then RATE_LIMITED
      else if httpStatus = 503 \<or> httpStatus = 502 then GATEWAY_UNAVAILABLE
      else if httpStatus \<ge> 500 then SERVER_ERROR
      else if httpStatus = 400 then CARD_DECLINED
      else if httpStatus = 402 then INSUFFICIENT_FUNDS
      else if httpStatus = 401 then FRAUD
      else UNKNOWN)"

text \<open>
  What a \<open>catch\<close> clause can receive: a classified failure, an \<open>Error\<close> with its message,
  or one of the NestJS HTTP exceptions with their payload.
\<close>

datatype exn =
    Processing payment_processing_error
  | JsError string
  | BadRequest string
  | NotFound string string
  | Conflict string string string

primrec exn_message :: "exn \<Rightarrow> string" where
  "exn_message (Processing e) = pe_message e"
| "exn_message (JsError m) = m"
| "exn_message (BadRequest m) = m"
| "exn_message (NotFound m i) = m"
| "exn_message (Conflict m i st) = m"

definition toPaymentProcessingError :: "exn \<Rightarrow> string \<Rightarrow> error_code \<Rightarrow> payment_processing_error" where
  "toPaymentProcessingError raw gatewayId fallbackCode =
     (case raw of
        Processing e \<Rightarrow> e
      | _ \<Rightarrow> newPaymentProcessingError (exn_message raw) fallbackCode None (Some gatewayId))"

subsection \<open>Properties\<close>

text \<open>Well-formed errors: the flag and the code agree.\<close>

definition wf_error :: "payment_processing_error \<Rightarrow> bool" where
  "wf_error e \<longleftrightarrow> pe_retryable e = isTransient (pe_code e)"

primrec wf_exn :: "exn \<Rightarrow> bool" where
  "wf_exn (Processing e) = wf_error e"
| "wf_exn (JsError m) = True"
| "wf_exn (BadRequest m) = True"
| "wf_exn (NotFound m i) = True"
| "wf_exn (Conflict m i st) = True"

lemmas transient_simps = isTransient_def RETRYABLE_CODES_def

lemma newError_sel [simp]:
  "pe_code (newPaymentProcessingError m c h g) = c"
  "pe_message (newPaymentProcessingError m c h g) = m"
  "pe_httpStatus (newPaymentProcessingError m c h g) = h"
  "pe_gatewayId (newPaymentProcessingError m c h g) = g"
  "pe_retryable (newPaymentProcessingError m c h g) = isTransient c"
  by (simp_all add: newPaymentProcessingError_def)

lemma wf_newError [simp]: "wf_error (newPaymentProcessingError m c h g)"
  by (simp add: wf_error_def)

lemma wf_toError: "wf_exn raw \<Longrightarrow> wf_error (toPaymentProcessingError raw g c)"
  by (cases raw) (auto simp: toPaymentProcessingError_def)

lemma toError_Processing [simp]: "toPaymentProcessingError (Processing e) g c = e"
  by (simp add: toPaymentProcessingError_def)

lemma code_text_inj: "code_text c = code_text d \<Longrightarrow> c = d"
  by (cases c; cases d) simp_all

text \<open>
  Of all HTTP statuses a gateway can answer with, exactly 400, 401 and 402 are
  classified as permanent; every other status, the unknown ones included, is retried.
\<close>

theorem http_permanent_iff:
  "isTransient (classifyHttpStatus st) \<longleftrightarrow> st \<notin> {400, 401, 402}"
  by (simp add: classifyHttpStatus_def transient_simps)

end
