(* ===== verification/Environment.thy ===== *)
theory Environment
  imports Effects Payment_Domain Errors
begin

text \<open>
  The boundary of the program: the calls it makes into code that is not part of the
  repository (the Redis client, BullMQ, the clock, the random generator, timers, the
  OpenTelemetry SDK), their replies, and the documented behaviour of Redis and of the
  clock as locales over an arbitrary handler.

  \<^item> \<open>payload\<close> is a JSON document by its decoded value: \<open>JSON.stringify\<close> of a record and
    \<open>JSON.parse\<close> of the result are inverse to each other on the records of this program
    (an \<open>undefined\<close> field is dropped and read back as \<open>undefined\<close>); \<open>P_text\<close> is a string
    that is not a JSON document of these kinds;
  \<^item> \<open>redis_sem\<close> is the documented effect of the commands the program uses on a keyspace;
  \<^item> \<open>redis_world\<close> is the contract of the connection: a command either has its documented
    effect, at the time shown by the clock when it returns, or fails and changes nothing.
\<close>

record settlement_entry =
  se_paymentId :: string
  se_transactionId :: string
  se_amount :: int
  se_currency :: string
  se_customerId :: string
  se_gatewayId :: string
  se_settledAt :: timestamp

record dlq_entry =
  de_paymentId :: string
  de_correlationId :: "string option"
  de_reason :: string
  de_deadLetteredAt :: timestamp

datatype payload =
    P_payment payment_record
  | P_idem idempotency_record
  | P_audit audit_event
  | P_settlement settlement_entry
  | P_text string

datatype job_payload = Job_payment job_data | Job_dlq dlq_entry

record job_opts =
  jo_jobId :: string
  jo_priority :: "int option"
  jo_delay :: int
  jo_attempts :: int
  jo_backoffDelay :: rat
  jo_backoffJitter :: rat
  jo_removeOnComplete :: bool

record job_counts =
  jc_waiting :: "int option"
  jc_prioritized :: "int option"
  jc_active :: "int option"
  jc_delayed :: "int option"
  jc_failed :: "int option"

datatype cmd =
    Redis_set_ex string payload rat
  | Redis_set_ex_nx string payload rat
  | Redis_get string
  | Redis_del string
  | Redis_pttl string
  | Redis_hset string string payload
  | Redis_hget string string
  | Redis_rpush string payload
  | Redis_lrange string
  | Date_now
  | Math_random
  | Sleep rat
  | Client_new
  | Client_disconnect nat
  | Queue_new string nat
  | Queue_add string string job_payload job_opts
  | Queue_pause string
  | Queue_resume string
  | Queue_counts string
  | Queue_jobs string
  | Queue_close string
  | Worker_new string nat
  | Worker_close nat
  | Span_start string "(string \<times> string) list"
  | Span_ok nat
  | Span_error nat
  | Span_end nat

datatype reply =
    R_ok
  | R_nil
  | R_payload payload
  | R_int int
  | R_rat rat
  | R_handle nat
  | R_list "payload list"
  | R_counts job_counts
  | R_jobs "(string \<times> job_payload) list"
  | R_error string

fun is_redis :: "cmd \<Rightarrow> bool" where
  "is_redis (Redis_set_ex k p ttl) = True"
| "is_redis (Redis_set_ex_nx k p ttl) = True"
| "is_redis (Redis_get k) = True"
| "is_redis (Redis_del k) = True"
| "is_redis (Redis_pttl k) = True"
| "is_redis (Redis_hset k f p) = True"
| "is_redis (Redis_hget k f) = True"
| "is_redis (Redis_rpush k p) = True"
| "is_redis (Redis_lrange k) = True"
| "is_redis c = False"

subsection \<open>Redis commands\<close>

datatype redis_value = StrV payload | HashV "(string, payload) jsmap" | ListV "payload list"

type_synonym keyspace = "string \<rightharpoonup> redis_value \<times> timestamp option"

definition live :: "timestamp \<Rightarrow> keyspace \<Rightarrow> string \<Rightarrow> redis_value option" where
  "live t ks k =
     (case ks k of
        None \<Rightarrow> None
      | Some (v, None) \<Rightarrow> Some v
      | Some (v, Some expiry) \<Rightarrow> if t < expiry then Some v else None)"

definition valid_ttl :: "rat \<Rightarrow> bool" where
  "valid_ttl ttl \<longleftrightarrow> of_int \<lfloor>ttl\<rfloor> = ttl \<and> 0 < ttl"

definition deadline :: "timestamp \<Rightarrow> rat \<Rightarrow> timestamp" where
  "deadline t ttl = t + 1000 * \<lfloor>ttl\<rfloor>"

definition expiry_of :: "keyspace \<Rightarrow> string \<Rightarrow> timestamp option" where
  "expiry_of ks k = (case ks k of None \<Rightarrow> None | Some (v, e) \<Rightarrow> e)"

fun redis_sem :: "cmd \<Rightarrow> timestamp \<Rightarrow> keyspace \<Rightarrow> reply \<times> keyspace" where
  "redis_sem (Redis_set_ex k p ttl) t ks =
     (if valid_ttl ttl then (R_ok, ks(k \<mapsto> (StrV p, Some (deadline t ttl))))
      else (R_error ''ERR invalid expire time'', ks))"
| "redis_sem (Redis_set_ex_nx k p ttl) t ks =
     (if \<not> valid_ttl ttl then (R_error ''ERR invalid expire time'', ks)
      else if live t ks k = None then (R_ok, ks(k \<mapsto> (StrV p, Some (deadline t ttl))))
      else (R_nil, ks))"
| "redis_sem (Redis_get k) t ks =
     (case live t ks k of
        None \<Rightarrow> (R_nil, ks)
      | Some (StrV p) \<Rightarrow> (R_payload p, ks)
      | Some _ \<Rightarrow> (R_error ''WRONGTYPE'', ks))"
| "redis_sem (Redis_del k) t ks = (R_int (if live t ks k = None then 0 else 1), ks(k := None))"
| "redis_sem (Redis_pttl k) t ks =
     (if live t ks k = None then (R_int (- 2), ks)
      else case expiry_of ks k of None \<Rightarrow> (R_int (- 1), ks) | Some e \<Rightarrow> (R_int (e - t), ks))"
| "redis_sem (Redis_hset k f p) t ks =
     (case live t ks k of
        None \<Rightarrow> (R_int 1, ks(k \<mapsto> (HashV [(f, p)], None)))
      | Some (HashV h) \<Rightarrow> (R_int (if jhas h f then 0 else 1), ks(k \<mapsto> (HashV (jset h f p), expiry_of ks k)))
      | Some _ \<Rightarrow> (R_error ''WRONGTYPE'', ks))"
| "redis_sem (Redis_hget k f) t ks =
     (case live t ks k of
        None \<Rightarrow> (R_nil, ks)
      | Some (HashV h) \<Rightarrow> (case jget h f of None \<Rightarrow> (R_nil, ks) | Some p \<Rightarrow> (R_payload p, ks))
      | Some _ \<Rightarrow> (R_error ''WRONGTYPE'', ks))"
| "redis_sem (Redis_rpush k p) t ks =
     (case live t ks k of
        None \<Rightarrow> (R_int 1, ks(k \<mapsto> (ListV [p], None)))
      | Some (ListV ps) \<Rightarrow> (R_int (int (length ps) + 1), ks(k \<mapsto> (ListV (ps @ [p]), expiry_of ks k)))
      | Some _ \<Rightarrow> (R_error ''WRONGTYPE'', ks))"
| "redis_sem (Redis_lrange k) t ks =
     (case live t ks k of
        None \<Rightarrow> (R_list [], ks)
      | Some (ListV ps) \<Rightarrow> (R_list ps, ks)
      | Some _ \<Rightarrow> (R_error ''WRONGTYPE'', ks))"
| "redis_sem c t ks = (R_error ''ERR unknown command'', ks)"

subsection \<open>The contracts\<close>

text \<open>
  The JavaScript runtime: the clock never goes back and reading it changes nothing, a
  timer of five milliseconds or more lets it advance, and \<open>Math.random()\<close> is in the unit
  interval. Nothing is said about Redis.
\<close>

locale js_world =
  fixes H :: "cmd \<Rightarrow> 'w \<Rightarrow> reply \<times> 'w"
    and clock :: "'w \<Rightarrow> timestamp"
  assumes clock_mono: "clock w \<le> clock (snd (H c w))"
    and clock_reading: "H Date_now w = (R_int (clock w), w)"
    and sleep_advances: "5 \<le> ms \<Longrightarrow> clock w < clock (snd (H (Sleep ms) w))"
    and random_unit: "\<exists>x. fst (H Math_random w) = R_rat x \<and> 0 \<le> x \<and> x < 1"

text \<open>Redis behind a connection that can fail.\<close>

locale redis_world = js_world +
  fixes ks :: "'w \<Rightarrow> keyspace"
  assumes frame: "\<not> is_redis c \<Longrightarrow> ks (snd (H c w)) = ks w"
    and command: "is_redis c \<Longrightarrow>
      (fst (H c w), ks (snd (H c w))) = redis_sem c (clock (snd (H c w))) (ks w) \<or>
      (\<exists>e. fst (H c w) = R_error e) \<and> ks (snd (H c w)) = ks w"

text \<open>A connection on which no command fails.\<close>

locale reliable_world = redis_world +
  assumes no_failure: "is_redis c \<Longrightarrow>
      (fst (H c w), ks (snd (H c w))) = redis_sem c (clock (snd (H c w))) (ks w)"

subsection \<open>A concrete world\<close>

text \<open>
  A world with which the theorems about arbitrary worlds can be instantiated: a clock, a
  keyspace and a script of the outcomes of the coming Redis commands, each a latency and
  whether the command fails. Jobs given to a queue are recorded.
\<close>

record world =
  w_clock :: timestamp
  w_keys :: keyspace
  w_script :: "(nat \<times> bool) list"
  w_jobs :: "(string \<times> string \<times> job_payload \<times> job_opts) list"
  w_next :: nat

definition tick :: "nat \<Rightarrow> world \<Rightarrow> world" where
  "tick n w = w\<lparr>w_clock := w_clock w + int n\<rparr>"

definition redis_step :: "cmd \<Rightarrow> world \<Rightarrow> reply \<times> world" where
  "redis_step c w =
     (case redis_sem c (w_clock w) (w_keys w) of (r, keys') \<Rightarrow> (r, w\<lparr>w_keys := keys'\<rparr>))"

fun world_step :: "cmd \<Rightarrow> world \<Rightarrow> reply \<times> world" where
  "world_step Date_now w = (R_int (w_clock w), w)"
| "world_step Math_random w = (R_rat 0, w)"
| "world_step (Sleep ms) w = (R_ok, tick (nat \<lceil>ms\<rceil> + 1) w)"
| "world_step (Queue_add q name job opts) w = (R_ok, w\<lparr>w_jobs := w_jobs w @ [(q, name, job, opts)]\<rparr>)"
| "world_step Client_new w = (R_handle (w_next w), w\<lparr>w_next := Suc (w_next w)\<rparr>)"
| "world_step (Worker_new q c) w = (R_handle (w_next w), w\<lparr>w_next := Suc (w_next w)\<rparr>)"
| "world_step (Span_start n a) w = (R_handle (w_next w), w\<lparr>w_next := Suc (w_next w)\<rparr>)"
| "world_step (Queue_counts q) w =
     (R_counts \<lparr>jc_waiting = Some (int (length (filter (\<lambda>(q', _). q' = q) (w_jobs w)))), jc_prioritized = None, jc_active = None,
        jc_delayed = None, jc_failed = None\<rparr>, w)"
| "world_step (Queue_jobs q) w =
     (R_jobs (map (\<lambda>(_, _, job, opts). (jo_jobId opts, job)) (filter (\<lambda>(q', _). q' = q) (w_jobs w))), w)"
| "world_step c w = (if is_redis c then redis_step c w else (R_ok, w))"

text \<open>The same world with the script consulted before each Redis command.\<close>

definition faulty_step :: "cmd \<Rightarrow> world \<Rightarrow> reply \<times> world" where
  "faulty_step c w =
     (if is_redis c then
        case w_script w of
          [] \<Rightarrow> redis_step c w
        | (lat, fails) # rest \<Rightarrow>
            (let w1 = tick lat (w\<lparr>w_script := rest\<rparr>)
             in if fails then (R_error ''connection lost'', w1) else redis_step c w1)
      else world_step c w)"

definition start_world :: world where
  "start_world = \<lparr>w_clock = 1000, w_keys = Map.empty, w_script = [], w_jobs = [], w_next = 0\<rparr>"

lemma redis_step_sel [simp]:
  "w_clock (snd (redis_step c w)) = w_clock w"
  "w_keys (snd (redis_step c w)) = snd (redis_sem c (w_clock w) (w_keys w))"
  "fst (redis_step c w) = fst (redis_sem c (w_clock w) (w_keys w))"
  by (simp_all add: redis_step_def split: prod.splits)

lemma tick_sel [simp]: "w_clock (tick n w) = w_clock w + int n" "w_keys (tick n w) = w_keys w"
  by (simp_all add: tick_def)

lemma world_step_redis: "is_redis c \<Longrightarrow> world_step c w = redis_step c w"
  by (cases c) simp_all

lemma world_step_clock: "w_clock w \<le> w_clock (snd (world_step c w))"
  by (cases c) simp_all

lemma world_step_frame: "\<not> is_redis c \<Longrightarrow> w_keys (snd (world_step c w)) = w_keys w"
  by (cases c) simp_all

lemma world_step_sleep: "w_clock w < w_clock (snd (world_step (Sleep ms) w))"
proof -
  have "0 < int (nat \<lceil>ms\<rceil> + 1)" by linarith
  then show ?thesis by (simp del: of_nat_add of_nat_Suc)
qed

interpretation calm: reliable_world world_step w_clock w_keys
proof unfold_locales
  show "is_redis c \<Longrightarrow> (fst (world_step c w), w_keys (snd (world_step c w))) =
      redis_sem c (w_clock (snd (world_step c w))) (w_keys w)" for c w
    by (simp add: world_step_redis)
  then show "is_redis c \<Longrightarrow> (fst (world_step c w), w_keys (snd (world_step c w))) =
      redis_sem c (w_clock (snd (world_step c w))) (w_keys w) \<or>
      (\<exists>e. fst (world_step c w) = R_error e) \<and> w_keys (snd (world_step c w)) = w_keys w" for c w
    by blast
qed (simp_all add: world_step_clock world_step_frame world_step_sleep del: world_step.simps(3))

lemma faulty_step_clock: "w_clock w \<le> w_clock (snd (faulty_step c w))"
  by (auto simp: faulty_step_def Let_def world_step_clock split: list.splits)

interpretation faulty: redis_world faulty_step w_clock w_keys
proof unfold_locales
  show "is_redis c \<Longrightarrow> (fst (faulty_step c w), w_keys (snd (faulty_step c w))) =
      redis_sem c (w_clock (snd (faulty_step c w))) (w_keys w) \<or>
      (\<exists>e. fst (faulty_step c w) = R_error e) \<and> w_keys (snd (faulty_step c w)) = w_keys w" for c w
    by (auto simp: faulty_step_def Let_def split: list.splits)
  show "w_clock w \<le> w_clock (snd (faulty_step c w))" for c w
    by (rule faulty_step_clock)
  show "w_clock w < w_clock (snd (faulty_step (Sleep ms) w))" for ms w
    using world_step_sleep by (simp add: faulty_step_def del: world_step.simps(3))
qed (auto simp: faulty_step_def world_step_frame)

end
