(* ===== verification/Event_Bus.thy ===== *)
theory Event_Bus
  imports Payment_Domain Errors
begin

text \<open>
  The domain events and the in-process bus of \<^verbatim>\<open>src/common/event-bus.ts\<close>. A listener is a
  function of the event on the state \<open>'s\<close> of the process; it may fail with an exception,
  which the bus swallows. A registered listener carries the number that tells two
  closures apart in the \<open>Set\<close>.
\<close>

datatype severity = Critical | Warning

record alert =
  al_id :: string
  al_severity :: severity
  al_message :: string
  al_value :: "rat option"
  al_threshold :: "rat option"
  al_raisedAt :: timestamp

datatype event_type =
    T_payment_queued | T_payment_processing | T_payment_completed | T_payment_failed
  | T_payment_dead_lettered | T_job_completed | T_job_failed | T_circuit_opened
  | T_circuit_closed | T_rate_limit_throttled | T_saga_phase | T_metrics_alert

record lifecycle_event =
  le_type :: event_type
  le_paymentId :: string
  le_gatewayId :: "string option"
  le_correlationId :: "string option"
  le_status :: "payment_status option"
  le_at :: timestamp
  le_detail :: "json_object option"

datatype app_event =
    Ev_payment lifecycle_event
  | Ev_job_completed string string bool int timestamp
  | Ev_job_failed string string string timestamp
  | Ev_circuit_opened string timestamp
  | Ev_circuit_closed string timestamp
  | Ev_throttled string timestamp
  | Ev_saga_phase string string saga_phase bool timestamp
  | Ev_alert alert timestamp

primrec ev_type :: "app_event \<Rightarrow> event_type" where
  "ev_type (Ev_payment e) = le_type e"
| "ev_type (Ev_job_completed p g ok d ts) = T_job_completed"
| "ev_type (Ev_job_failed p g r ts) = T_job_failed"
| "ev_type (Ev_circuit_opened g ts) = T_circuit_opened"
| "ev_type (Ev_circuit_closed g ts) = T_circuit_closed"
| "ev_type (Ev_throttled g ts) = T_rate_limit_throttled"
| "ev_type (Ev_saga_phase p g ph ok ts) = T_saga_phase"
| "ev_type (Ev_alert a ts) = T_metrics_alert"

type_synonym 's listener = "app_event \<Rightarrow> 's \<Rightarrow> exn option \<times> 's"
type_synonym 's bus = "(event_type, (nat \<times> 's listener) list) jsmap"

text \<open>\<open>on\<close>: a \<open>Set\<close> per type, in insertion order; the returned closure unsubscribes.\<close>

definition bus_on :: "event_type \<Rightarrow> nat \<times> 's listener \<Rightarrow> 's bus \<Rightarrow> 's bus" where
  "bus_on ty l b =
     (let members = nullish (jget b ty) []
      in jset b ty (if fst l \<in> fst ` set members then members else members @ [l]))"

definition bus_off :: "event_type \<Rightarrow> nat \<Rightarrow> 's bus \<Rightarrow> 's bus" where
  "bus_off ty n b =
     (case jget b ty of None \<Rightarrow> b | Some members \<Rightarrow> jset b ty (filter (\<lambda>l. fst l \<noteq> n) members))"

text \<open>
  The dispatch loop over the snapshot of the listeners: an exception is caught and logged
  (the log is the first component), and the loop goes on with the next listener.
\<close>

primrec dispatch :: "app_event \<Rightarrow> (nat \<times> 's listener) list \<Rightarrow> 's \<Rightarrow> exn list \<times> 's" where
  "dispatch ev [] s = ([], s)"
| "dispatch ev (l # ls) s =
     (case snd l ev s of
        (failure, s1) \<Rightarrow>
          (case dispatch ev ls s1 of
             (logged, s2) \<Rightarrow> ((case failure of None \<Rightarrow> logged | Some e \<Rightarrow> e # logged), s2)))"

definition bus_emit :: "'s bus \<Rightarrow> app_event \<Rightarrow> 's \<Rightarrow> exn list \<times> 's" where
  "bus_emit b ev s =
     (case jget b (ev_type ev) of
        None \<Rightarrow> ([], s)
      | Some members \<Rightarrow> dispatch ev members s)"

subsection \<open>Properties of the bus\<close>

lemma dispatch_state:
  "snd (dispatch ev ls s) = fold (\<lambda>l s. snd (snd l ev s)) ls s"
  by (induction ls arbitrary: s) (auto split: prod.splits, metis snd_conv)

text \<open>
  Delivery: an emitted event reaches every listener registered for its type, each
  exactly once and in the order of registration, and a listener that throws neither stops
  the dispatch nor undoes what it did to the state; the emitter never sees the exception.
\<close>

theorem emit_delivers_in_order:
  "snd (bus_emit b ev s) =
     fold (\<lambda>l s. snd (snd l ev s)) (nullish (jget b (ev_type ev)) []) s"
  by (simp add: bus_emit_def dispatch_state split: option.splits)

lemma bus_on_members:
  assumes "n \<notin> fst ` set (nullish (jget b ty) [])"
  shows "jget (bus_on ty (n, f) b) ty = Some (nullish (jget b ty) [] @ [(n, f)])"
    and "ty' \<noteq> ty \<Longrightarrow> jget (bus_on ty (n, f) b) ty' = jget b ty'"
  using assms by (auto simp: bus_on_def Let_def)

lemma bus_off_on:
  assumes "n \<notin> fst ` set (nullish (jget b ty) [])"
  shows "nullish (jget (bus_off ty n (bus_on ty (n, f) b)) ty') [] = nullish (jget b ty') []"
proof (cases "ty' = ty")
  case True
  have "filter (\<lambda>l. fst l \<noteq> n) (nullish (jget b ty) []) = nullish (jget b ty) []"
    using assms by (auto intro!: filter_True)
  with True assms bus_on_members(1) [OF assms] show ?thesis
    by (simp add: bus_off_def)
next
  case False
  with assms bus_on_members [OF assms] show ?thesis
    by (simp add: bus_off_def)
qed

end
