(* ===== verification/Circuit_Breaker.thy ===== *)
theory Circuit_Breaker
  imports Js_Prelude
begin

text \<open>
  The three-state circuit breaker of \<^verbatim>\<open>src/gateway/circuit-breaker.ts\<close>. A method that reads
  the clock takes the reading as its argument \<open>now\<close>; the callbacks \<open>onOpened\<close> and
  \<open>onClosed\<close> are the signals a method returns. Window length, threshold, minimal sample
  count and cool-down are configuration numbers, hence rationals.
\<close>

datatype cb_state = CLOSED | OPEN | HALF_OPEN

record cb_params =
  windowMs :: rat
  failureThreshold :: rat
  minSamples :: rat
  cooldownMs :: rat

record outcome_sample =
  smp_t :: timestamp
  smp_ok :: bool

record breaker =
  cb_params :: cb_params
  cb_state :: cb_state
  cb_window :: "outcome_sample list"
  cb_openedAt :: timestamp
  cb_probeInFlight :: bool
  cb_tripCount :: nat

datatype cb_signal = OnOpened | OnClosed

record window_stats =
  ws_samples :: nat
  ws_failures :: nat
  ws_failureRate :: rat

record cb_snapshot =
  sn_params :: cb_params
  sn_state :: cb_state
  sn_samples :: nat
  sn_failures :: nat
  sn_failureRate :: rat
  sn_openedAt :: "timestamp option"
  sn_tripCount :: nat

definition newBreaker :: "cb_params \<Rightarrow> breaker" where
  "newBreaker params =
     \<lparr>cb_params = params, cb_state = CLOSED, cb_window = [], cb_openedAt = 0,
      cb_probeInFlight = False, cb_tripCount = 0\<rparr>"

definition cb_reset :: "breaker \<Rightarrow> breaker" where
  "cb_reset b = b\<lparr>cb_state := CLOSED, cb_window := [], cb_openedAt := 0,
     cb_probeInFlight := False, cb_tripCount := 0\<rparr>"

definition cb_reconfigure :: "cb_params \<Rightarrow> breaker \<Rightarrow> breaker" where
  "cb_reconfigure params b = cb_reset (b\<lparr>cb_params := params\<rparr>)"

definition allowCall :: "timestamp \<Rightarrow> breaker \<Rightarrow> (bool \<times> cb_state) \<times> breaker" where
  "allowCall now b =
     (case cb_state b of
        CLOSED \<Rightarrow> ((True, CLOSED), b)
      | OPEN \<Rightarrow>
          if of_int (now - cb_openedAt b) \<ge> cooldownMs (cb_params b)
          then ((True, HALF_OPEN), b\<lparr>cb_state := HALF_OPEN, cb_probeInFlight := True\<rparr>)
          else ((False, OPEN), b)
      | HALF_OPEN \<Rightarrow>
          if cb_probeInFlight b then ((False, HALF_OPEN), b)
          else ((True, HALF_OPEN), b\<lparr>cb_probeInFlight := True\<rparr>))"

definition prune :: "timestamp \<Rightarrow> breaker \<Rightarrow> breaker" where
  "prune now b =
     b\<lparr>cb_window := dropWhile (\<lambda>s. of_int (smp_t s) < of_int now - windowMs (cb_params b)) (cb_window b)\<rparr>"

definition windowStats :: "outcome_sample list \<Rightarrow> window_stats" where
  "windowStats win =
     (let failures = length (filter (\<lambda>s. \<not> smp_ok s) win); samples = length win
      in \<lparr>ws_samples = samples, ws_failures = failures,
          ws_failureRate = (if samples = 0 then 0 else of_nat failures / of_nat samples)\<rparr>)"

text \<open>The two assignments, the counter and the callback of a trip.\<close>

definition trip :: "timestamp \<Rightarrow> breaker \<Rightarrow> breaker \<times> cb_signal list" where
  "trip now b = (b\<lparr>cb_state := OPEN, cb_openedAt := now, cb_tripCount := cb_tripCount b + 1\<rparr>, [OnOpened])"

definition recordOutcome :: "timestamp \<Rightarrow> bool \<Rightarrow> breaker \<Rightarrow> breaker \<times> cb_signal list" where
  "recordOutcome now ok b =
     (case cb_state b of
        HALF_OPEN \<Rightarrow>
          (let b' = b\<lparr>cb_probeInFlight := False\<rparr>
           in if ok then (b'\<lparr>cb_state := CLOSED, cb_window := []\<rparr>, [OnClosed]) else trip now b')
      | OPEN \<Rightarrow> (b, [])
      | CLOSED \<Rightarrow>
          (let b' = prune now (b\<lparr>cb_window := cb_window b @ [\<lparr>smp_t = now, smp_ok = ok\<rparr>]\<rparr>);
               stats = windowStats (cb_window b')
           in if of_nat (ws_samples stats) \<ge> minSamples (cb_params b') \<and>
                 ws_failureRate stats \<ge> failureThreshold (cb_params b')
              then trip now b' else (b', [])))"

definition cb_getState :: "timestamp \<Rightarrow> breaker \<Rightarrow> cb_snapshot \<times> breaker" where
  "cb_getState now b =
     (let b' = prune now b; stats = windowStats (cb_window b')
      in (\<lparr>sn_params = cb_params b', sn_state = cb_state b', sn_samples = ws_samples stats,
           sn_failures = ws_failures stats, sn_failureRate = ws_failureRate stats,
           sn_openedAt = (if cb_openedAt b' = 0 then None else Some (cb_openedAt b')),
           sn_tripCount = cb_tripCount b'\<rparr>, b'))"

subsection \<open>The breaker as a transition system\<close>

text \<open>
  The steps of the object over a clock that never goes back: \<open>cb_step t b t' b'\<close> is one
  method call at time \<open>t'\<close>, after the last one at time \<open>t\<close>.
\<close>

inductive cb_step :: "timestamp \<Rightarrow> breaker \<Rightarrow> timestamp \<Rightarrow> breaker \<Rightarrow> bool" where
  step_allow: "t \<le> t' \<Longrightarrow> cb_step t b t' (snd (allowCall t' b))"
| step_record: "t \<le> t' \<Longrightarrow> cb_step t b t' (fst (recordOutcome t' ok b))"
| step_observe: "t \<le> t' \<Longrightarrow> cb_step t b t' (snd (cb_getState t' b))"
| step_reset: "t \<le> t' \<Longrightarrow> cb_step t b t' (cb_reset b)"
| step_reconfigure: "t \<le> t' \<Longrightarrow> cb_step t b t' (cb_reconfigure params b)"

inductive cb_reachable :: "timestamp \<Rightarrow> breaker \<Rightarrow> bool" where
  cb_start: "cb_reachable t (newBreaker params)"
| cb_next: "cb_reachable t b \<Longrightarrow> cb_step t b t' b' \<Longrightarrow> cb_reachable t' b'"

inductive_cases cb_stepE: "cb_step t b t' b'"

text \<open>
  The invariant: a probe is in flight exactly in the half-open state, the window is in
  the order of time and lies in the past, and a breaker that is not closed has tripped.
\<close>

definition cb_inv :: "timestamp \<Rightarrow> breaker \<Rightarrow> bool" where
  "cb_inv t b \<longleftrightarrow>
     (cb_probeInFlight b \<longleftrightarrow> cb_state b = HALF_OPEN) \<and>
     sorted (map smp_t (cb_window b)) \<and>
     (\<forall>s \<in> set (cb_window b). smp_t s \<le> t) \<and>
     (cb_state b \<noteq> CLOSED \<longrightarrow> 0 < cb_tripCount b \<and> cb_openedAt b \<le> t)"

subsection \<open>Pruning is filtering\<close>

lemma dropWhile_sorted_filter:
  "sorted (map f xs) \<Longrightarrow> dropWhile (\<lambda>x. f x < c) xs = filter (\<lambda>x. \<not> f x < c) xs"
proof (induction xs)
  case (Cons x xs)
  then show ?case
    by (cases "f x < c") (auto simp: not_less intro!: filter_True [symmetric] intro: order_trans)
qed simp

lemma sorted_map_of_int: "sorted (map f xs) \<Longrightarrow> sorted (map (\<lambda>x. rat_of_int (f x)) xs)"
  by (induction xs) auto

lemma prune_filter:
  assumes "sorted (map smp_t (cb_window b))"
  shows "cb_window (prune now b) =
    filter (\<lambda>s. of_int now - windowMs (cb_params b) \<le> of_int (smp_t s)) (cb_window b)"
  using dropWhile_sorted_filter [OF sorted_map_of_int [OF assms]]
  by (simp add: prune_def not_less)

lemma prune_sel [simp]:
  "cb_state (prune now b) = cb_state b" "cb_params (prune now b) = cb_params b"
  "cb_openedAt (prune now b) = cb_openedAt b" "cb_probeInFlight (prune now b) = cb_probeInFlight b"
  "cb_tripCount (prune now b) = cb_tripCount b"
  by (simp_all add: prune_def)

lemma set_prune: "set (cb_window (prune now b)) \<subseteq> set (cb_window b)"
  by (auto simp: prune_def dest: set_dropWhileD)

lemma sorted_prune: "sorted (map smp_t (cb_window b)) \<Longrightarrow> sorted (map smp_t (cb_window (prune now b)))"
  by (simp add: prune_filter sorted_filter)

subsection \<open>Every method keeps the invariant\<close>

lemma cb_inv_new: "cb_inv t (newBreaker params)"
  by (simp add: cb_inv_def newBreaker_def)

lemma cb_inv_later: "cb_inv t b \<Longrightarrow> t \<le> t' \<Longrightarrow> cb_inv t' b"
  by (auto simp: cb_inv_def)

lemma cb_inv_prune: "cb_inv t b \<Longrightarrow> cb_inv t (prune now b)"
  using set_prune by (fastforce simp: cb_inv_def sorted_prune)

lemma cb_inv_allow: "cb_inv t b \<Longrightarrow> cb_inv t (snd (allowCall t b))"
  by (auto simp: cb_inv_def allowCall_def split: cb_state.splits)

lemma cb_inv_trip:
  "cb_inv t b \<Longrightarrow> cb_inv t (fst (trip t (b\<lparr>cb_probeInFlight := False\<rparr>)))"
  by (auto simp: cb_inv_def trip_def)

lemma cb_inv_push:
  "cb_inv t b \<Longrightarrow> cb_inv t (b\<lparr>cb_window := cb_window b @ [\<lparr>smp_t = t, smp_ok = ok\<rparr>]\<rparr>)"
  by (auto simp: cb_inv_def sorted_append)

lemma cb_inv_record: "cb_inv t b \<Longrightarrow> cb_inv t (fst (recordOutcome t ok b))"
proof (cases "cb_state b")
  case CLOSED
  assume inv: "cb_inv t b"
  let ?b = "prune t (b\<lparr>cb_window := cb_window b @ [\<lparr>smp_t = t, smp_ok = ok\<rparr>]\<rparr>)"
  have b: "cb_inv t ?b"
    using cb_inv_prune [OF cb_inv_push [OF inv]] .
  moreover have "cb_inv t (fst (trip t ?b))"
    using cb_inv_trip [OF b] b CLOSED by (simp add: cb_inv_def trip_def)
  ultimately show ?thesis
    using CLOSED by (simp add: recordOutcome_def Let_def)
next
  case OPEN
  then show "cb_inv t b \<Longrightarrow> ?thesis" by (simp add: recordOutcome_def)
next
  case HALF_OPEN
  assume "cb_inv t b"
  with cb_inv_trip [OF this] HALF_OPEN show ?thesis
    by (auto simp: recordOutcome_def Let_def cb_inv_def)
qed

lemma cb_inv_reset: "cb_inv t (cb_reset b)"
  by (simp add: cb_inv_def cb_reset_def)

lemma cb_inv_observe: "cb_inv t b \<Longrightarrow> cb_inv t (snd (cb_getState t b))"
  by (simp add: cb_getState_def Let_def cb_inv_prune)

lemmas cb_inv_methods =
  cb_inv_allow cb_inv_record cb_inv_observe cb_inv_reset

lemma cb_step_inv: "cb_step t b t' b' \<Longrightarrow> cb_inv t b \<Longrightarrow> cb_inv t' b'"
  by (erule cb_stepE) (auto intro: cb_inv_methods cb_inv_later simp: cb_reconfigure_def)

lemma cb_reachable_inv: "cb_reachable t b \<Longrightarrow> cb_inv t b"
  by (induction rule: cb_reachable.induct) (auto simp: cb_inv_new dest: cb_step_inv)

subsection \<open>A reference breaker that keeps every outcome\<close>

text \<open>
  The specification of the sampling: the breaker remembers every outcome since it was last
  closed and looks, at each decision, at those of the last \<open>windowMs\<close> milliseconds. The
  code throws samples away as they age (\<open>prune\<close> shifts the head of the array).
\<close>

definition recent :: "timestamp \<Rightarrow> rat \<Rightarrow> outcome_sample list \<Rightarrow> outcome_sample list" where
  "recent now win xs = filter (\<lambda>s. of_int now - win \<le> of_int (smp_t s)) xs"

definition ref_record :: "timestamp \<Rightarrow> bool \<Rightarrow> breaker \<Rightarrow> breaker \<times> cb_signal list" where
  "ref_record now ok b =
     (if cb_state b = CLOSED then
        let b' = b\<lparr>cb_window := cb_window b @ [\<lparr>smp_t = now, smp_ok = ok\<rparr>]\<rparr>;
            stats = windowStats (recent now (windowMs (cb_params b)) (cb_window b'))
        in if of_nat (ws_samples stats) \<ge> minSamples (cb_params b) \<and>
              ws_failureRate stats \<ge> failureThreshold (cb_params b)
           then trip now b' else (b', [])
      else recordOutcome now ok b)"

definition ref_getState :: "timestamp \<Rightarrow> breaker \<Rightarrow> cb_snapshot" where
  "ref_getState now b =
     (let stats = windowStats (recent now (windowMs (cb_params b)) (cb_window b))
      in \<lparr>sn_params = cb_params b, sn_state = cb_state b, sn_samples = ws_samples stats,
          sn_failures = ws_failures stats, sn_failureRate = ws_failureRate stats,
          sn_openedAt = (if cb_openedAt b = 0 then None else Some (cb_openedAt b)),
          sn_tripCount = cb_tripCount b\<rparr>)"

datatype cb_op = Op_allow | Op_record bool | Op_observe | Op_reset | Op_reconfigure cb_params

datatype cb_output = Out_allow "bool \<times> cb_state" | Out_signals "cb_signal list" | Out_snapshot cb_snapshot | Out_done

fun cb_exec :: "timestamp \<times> cb_op \<Rightarrow> breaker \<Rightarrow> cb_output \<times> breaker" where
  "cb_exec (now, Op_allow) b = (Out_allow (fst (allowCall now b)), snd (allowCall now b))"
| "cb_exec (now, Op_record ok) b = (Out_signals (snd (recordOutcome now ok b)), fst (recordOutcome now ok b))"
| "cb_exec (now, Op_observe) b = (Out_snapshot (fst (cb_getState now b)), snd (cb_getState now b))"
| "cb_exec (now, Op_reset) b = (Out_done, cb_reset b)"
| "cb_exec (now, Op_reconfigure params) b = (Out_done, cb_reconfigure params b)"

fun ref_exec :: "timestamp \<times> cb_op \<Rightarrow> breaker \<Rightarrow> cb_output \<times> breaker" where
  "ref_exec (now, Op_record ok) b = (Out_signals (snd (ref_record now ok b)), fst (ref_record now ok b))"
| "ref_exec (now, Op_observe) b = (Out_snapshot (ref_getState now b), b)"
| "ref_exec (now, opn) b = cb_exec (now, opn) b"

fun cb_outputs :: "(timestamp \<times> cb_op \<Rightarrow> breaker \<Rightarrow> cb_output \<times> breaker) \<Rightarrow> (timestamp \<times> cb_op) list \<Rightarrow> breaker \<Rightarrow> cb_output list" where
  "cb_outputs ex [] b = []"
| "cb_outputs ex (x # xs) b = fst (ex x b) # cb_outputs ex xs (snd (ex x b))"

text \<open>
  The simulation relation: \<open>agree t b xs\<close> says that the complete record \<open>xs\<close> and the
  pruned window of \<open>b\<close> contain the same samples that can still matter at time \<open>t\<close> or later.
\<close>

definition agree :: "timestamp \<Rightarrow> breaker \<Rightarrow> outcome_sample list \<Rightarrow> bool" where
  "agree t b xs \<longleftrightarrow> cb_inv t b \<and>
     (\<forall>now \<ge> t. recent now (windowMs (cb_params b)) xs = recent now (windowMs (cb_params b)) (cb_window b))"

definition with_record :: "breaker \<Rightarrow> outcome_sample list \<Rightarrow> breaker" where
  "with_record b xs = b\<lparr>cb_window := xs\<rparr>"

lemma recent_recent: "t \<le> now \<Longrightarrow> recent now win (recent t win xs) = recent now win xs"
  by (auto simp: recent_def intro!: filter_cong)

lemma recent_append: "recent now win (xs @ ys) = recent now win xs @ recent now win ys"
  by (simp add: recent_def)

lemma window_prune:
  "cb_inv t b \<Longrightarrow> cb_window (prune now b) = recent now (windowMs (cb_params b)) (cb_window b)"
  by (simp add: cb_inv_def prune_filter recent_def)

lemma agreeI:
  "cb_inv t b \<Longrightarrow>
   (\<And>now. t \<le> now \<Longrightarrow> recent now (windowMs (cb_params b)) xs = recent now (windowMs (cb_params b)) (cb_window b)) \<Longrightarrow>
   agree t b xs"
  by (simp add: agree_def)

lemma agree_recent:
  "agree t b xs \<Longrightarrow> t \<le> now \<Longrightarrow>
     recent now (windowMs (cb_params b)) xs = recent now (windowMs (cb_params b)) (cb_window b)"
  by (simp add: agree_def)

lemma agree_inv: "agree t b xs \<Longrightarrow> cb_inv t b"
  by (simp add: agree_def)

lemma agree_later: "agree t b xs \<Longrightarrow> t \<le> t' \<Longrightarrow> agree t' b xs"
  by (auto simp: agree_def intro: cb_inv_later)

lemma agree_same_window:
  "agree t b xs \<Longrightarrow> cb_inv t b' \<Longrightarrow> cb_params b' = cb_params b \<Longrightarrow> cb_window b' = cb_window b \<Longrightarrow> agree t b' xs"
  by (simp add: agree_def)

lemma agree_pruned:
  assumes "agree t b xs" and "cb_inv t b'" and "cb_params b' = cb_params b"
    and "cb_window b' = recent t (windowMs (cb_params b)) (cb_window b)"
  shows "agree t b' xs"
  using assms by (auto intro!: agreeI simp: agree_recent recent_recent)

lemma agree_push:
  assumes "agree t b xs"
  shows "agree t (b\<lparr>cb_window := cb_window b @ [\<lparr>smp_t = t, smp_ok = ok\<rparr>]\<rparr>) (xs @ [\<lparr>smp_t = t, smp_ok = ok\<rparr>])"
  using assms by (auto intro!: agreeI cb_inv_push dest: agree_inv simp: recent_append agree_recent)

text \<open>One call: same output, and the results are related again.\<close>

definition related_step :: "timestamp \<times> cb_op \<Rightarrow> breaker \<Rightarrow> outcome_sample list \<Rightarrow> bool" where
  "related_step x b xs \<longleftrightarrow>
     fst (ref_exec x (with_record b xs)) = fst (cb_exec x b) \<and>
     (\<exists>xs'. snd (ref_exec x (with_record b xs)) = with_record (snd (cb_exec x b)) xs' \<and>
            agree (fst x) (snd (cb_exec x b)) xs')"

lemma related_record_closed:
  assumes ag: "agree t b xs" and cl: "cb_state b = CLOSED"
  shows "related_step (t, Op_record ok) b xs"
proof -
  let ?s = "\<lparr>smp_t = t, smp_ok = ok\<rparr>"
  let ?b = "b\<lparr>cb_window := cb_window b @ [?s]\<rparr>" and ?xs = "xs @ [?s]"
  have push: "agree t ?b ?xs" by (rule agree_push [OF ag])
  have win: "cb_window (prune t ?b) = recent t (windowMs (cb_params b)) ?xs"
    using window_prune [OF agree_inv [OF push]] agree_recent [OF push, of t] by simp
  have pr: "agree t (prune t ?b) ?xs"
    using agree_pruned [OF push] cb_inv_prune [OF agree_inv [OF push]] window_prune [OF agree_inv [OF push]]
    by simp
  have "agree t (fst (recordOutcome t ok b)) ?xs"
  proof (rule agree_same_window [OF pr])
    show "cb_inv t (fst (recordOutcome t ok b))" using ag by (auto dest: agree_inv intro: cb_inv_record)
  qed (use cl in \<open>auto simp: recordOutcome_def Let_def trip_def\<close>)
  with cl win show ?thesis
    by (auto simp: related_step_def with_record_def ref_record_def recordOutcome_def Let_def trip_def prune_def
        intro!: exI [of _ ?xs])
qed

lemma related_record:
  assumes "agree t b xs"
  shows "related_step (t, Op_record ok) b xs"
proof (cases "cb_state b")
  case HALF_OPEN
  have "cb_inv t (fst (recordOutcome t ok b))" using assms by (auto dest: agree_inv intro: cb_inv_record)
  then show ?thesis using HALF_OPEN assms
    by (auto simp: related_step_def with_record_def ref_record_def recordOutcome_def Let_def trip_def agree_def
        intro: exI [of _ "if ok then [] else xs"])
qed (use assms related_record_closed in
      \<open>auto simp: related_step_def with_record_def ref_record_def recordOutcome_def\<close>)

lemma related_observe:
  assumes "agree t b xs"
  shows "related_step (t, Op_observe) b xs"
proof -
  have win: "cb_window (prune t b) = recent t (windowMs (cb_params b)) xs"
    using window_prune [OF agree_inv [OF assms], of t] agree_recent [OF assms order_refl] by simp
  have "agree t (prune t b) xs"
    using agree_pruned [OF assms] cb_inv_prune [OF agree_inv [OF assms]] window_prune [OF agree_inv [OF assms]]
    by simp
  with win show ?thesis
    by (auto simp: related_step_def with_record_def ref_getState_def cb_getState_def Let_def prune_def
        intro!: exI [of _ xs])
qed

lemma related_allow:
  assumes "agree t b xs"
  shows "related_step (t, Op_allow) b xs"
proof -
  have "agree t (snd (allowCall t b)) xs"
    using assms cb_inv_allow [OF agree_inv [OF assms]]
    by (auto intro: agree_same_window simp: allowCall_def split: cb_state.splits)
  then show ?thesis
    by (auto simp: related_step_def with_record_def allowCall_def split: cb_state.splits
        intro!: exI [of _ xs])
qed

lemma related_reset:
  "related_step (t, Op_reset) b xs" "related_step (t, Op_reconfigure params) b xs"
proof -
  have "agree t (cb_reset b') []" for b'
    using cb_inv_reset by (auto intro!: agreeI simp: cb_reset_def)
  moreover have "cb_reset (with_record b' xs) = with_record (cb_reset b') []" for b'
    by (simp add: cb_reset_def with_record_def)
  moreover have "(with_record b xs)\<lparr>cb_params := params\<rparr> = with_record (b\<lparr>cb_params := params\<rparr>) xs"
    by (simp add: with_record_def)
  ultimately show "related_step (t, Op_reset) b xs" "related_step (t, Op_reconfigure params) b xs"
    unfolding related_step_def by (auto simp: cb_reconfigure_def)
qed

lemma related_any: "agree t b xs \<Longrightarrow> related_step (t, opn) b xs"
  by (cases opn) (simp_all add: related_allow related_record related_observe related_reset)

lemma outputs_related:
  "agree t b xs \<Longrightarrow> sorted (map fst calls) \<Longrightarrow> (\<forall>c \<in> set calls. t \<le> fst c) \<Longrightarrow>
     cb_outputs ref_exec calls (with_record b xs) = cb_outputs cb_exec calls b"
proof (induction calls arbitrary: t b xs)
  case (Cons x calls)
  obtain now opn where x: "x = (now, opn)" by (cases x)
  have "related_step x b xs"
    using Cons.prems related_any [OF agree_later] by (auto simp: x)
  then obtain xs' where xs': "snd (ref_exec x (with_record b xs)) = with_record (snd (cb_exec x b)) xs'"
    and ag: "agree now (snd (cb_exec x b)) xs'"
    and out: "fst (ref_exec x (with_record b xs)) = fst (cb_exec x b)"
    by (auto simp: related_step_def x)
  from Cons.IH [OF ag] Cons.prems xs' out show ?case
    by (simp add: x)
qed simp

subsection \<open>Properties of the breaker\<close>

text \<open>
  C10. The pruned sliding window is an exact implementation of the specified one: on every
  sequence of method calls (admission requests, reported outcomes, state reads, resets,
  reconfigurations) at non-decreasing times, the breaker answers exactly as the reference
  breaker that remembers all outcomes since it was last closed. In particular it trips at
  the same calls and reports the same failure rates.
\<close>

theorem breaker_refines_reference:
  assumes "sorted (map fst calls)"
  shows "cb_outputs cb_exec calls (newBreaker params) = cb_outputs ref_exec calls (newBreaker params)"
proof (cases calls)
  case (Cons c cs)
  have "agree (fst c) (newBreaker params) []"
    by (rule agreeI [OF cb_inv_new]) (simp add: newBreaker_def)
  from outputs_related [OF this assms] assms Cons show ?thesis
    by (simp add: with_record_def newBreaker_def)
qed simp

definition demo_params :: cb_params where
  "demo_params = \<lparr>windowMs = 5000, failureThreshold = 1/2, minSamples = 3, cooldownMs = 1000\<rparr>"

definition demo_calls :: "(timestamp \<times> cb_op) list" where
  "demo_calls =
     [(10000, Op_record False), (16000, Op_record False), (16000, Op_record False),
      (16001, Op_observe), (16002, Op_record False), (16003, Op_allow), (17002, Op_allow),
      (17003, Op_allow), (17010, Op_record True), (17011, Op_allow)]"

theorem breaker_refines_reference_witness:
  "sorted (map fst demo_calls) \<and>
   cb_outputs cb_exec demo_calls (newBreaker demo_params) = cb_outputs ref_exec demo_calls (newBreaker demo_params)"
proof -
  have "sorted (map fst demo_calls)" by (simp add: demo_calls_def)
  with breaker_refines_reference show ?thesis by blast
qed

text \<open>
  C18. In every state the breaker can reach, a probe is in flight exactly when the state is
  HALF_OPEN, the sample window is ordered by time and holds no sample of the future, and a
  breaker that is not CLOSED has tripped in the past.
\<close>

theorem breaker_invariant:
  assumes "cb_reachable t b"
  shows "(cb_probeInFlight b \<longleftrightarrow> cb_state b = HALF_OPEN) \<and> sorted (map smp_t (cb_window b)) \<and>
    (\<forall>s \<in> set (cb_window b). smp_t s \<le> t) \<and> (cb_state b \<noteq> CLOSED \<longrightarrow> 0 < cb_tripCount b \<and> cb_openedAt b \<le> t)"
  using cb_reachable_inv [OF assms] by (simp add: cb_inv_def)

theorem breaker_invariant_witness:
  "cb_state (fst (recordOutcome 10 False (newBreaker (demo_params\<lparr>minSamples := 1\<rparr>)))) = OPEN \<and>
   0 < cb_tripCount (fst (recordOutcome 10 False (newBreaker (demo_params\<lparr>minSamples := 1\<rparr>))))"
proof -
  let ?b = "fst (recordOutcome 10 False (newBreaker (demo_params\<lparr>minSamples := 1\<rparr>)))"
  have "cb_reachable 10 ?b"
    by (rule cb_next [OF cb_start [of 10] step_record]) simp
  note inv = breaker_invariant [OF this]
  have "cb_state ?b = OPEN"
    by (simp add: recordOutcome_def newBreaker_def demo_params_def prune_def windowStats_def trip_def)
  with inv show ?thesis by simp
qed

text \<open>
  Exactly one probe: once a reachable breaker has admitted a call out of the OPEN or
  HALF_OPEN state, every further admission request, however late, is refused and changes
  nothing, until an outcome is reported or the breaker is reset.
\<close>

theorem single_probe:
  assumes "cb_reachable t b" and "allowCall now b = ((True, HALF_OPEN), b')"
  shows "allowCall now' b' = ((False, HALF_OPEN), b')"
  using assms by (auto simp: allowCall_def split: cb_state.splits if_splits)

definition tripped_breaker :: breaker where
  "tripped_breaker = fst (recordOutcome 10 False (newBreaker (demo_params\<lparr>minSamples := 1\<rparr>)))"

theorem single_probe_witness:
  "fst (allowCall 1010 tripped_breaker) = (True, HALF_OPEN) \<and>
   fst (allowCall 999999 (snd (allowCall 1010 tripped_breaker))) = (False, HALF_OPEN)"
proof -
  have r: "cb_reachable 10 tripped_breaker"
    unfolding tripped_breaker_def by (rule cb_next [OF cb_start [of 10] step_record]) simp
  have a: "fst (allowCall 1010 tripped_breaker) = (True, HALF_OPEN)"
    by (simp add: tripped_breaker_def recordOutcome_def newBreaker_def demo_params_def prune_def
        windowStats_def trip_def allowCall_def)
  then have "allowCall 1010 tripped_breaker = ((True, HALF_OPEN), snd (allowCall 1010 tripped_breaker))"
    by (metis prod.collapse)
  from single_probe [OF r this, of 999999] a show ?thesis by simp
qed



end
