(* ===== verification/Token_Bucket.thy ===== *)
theory Token_Bucket
  imports Js_Prelude
begin

text \<open>
  The adaptive token bucket of \<^verbatim>\<open>src/gateway/adaptive-token-bucket.ts\<close>. A method that reads
  the clock takes the reading as its argument \<open>now\<close>; \<open>onThrottled\<close> returns the callbacks it
  fires. The waiting loop \<open>waitForToken\<close> suspends and is modelled with the registry that
  holds the bucket, in theory \<open>Gateway_Guard\<close>. Rates and tokens are exact rationals.
\<close>

record tb_params =
  nominalRps :: rat
  burstFactor :: rat
  minRateFactor :: rat
  aiStepRps :: rat
  tokenWaitMs :: rat

record bucket =
  tb_params :: tb_params
  tb_rate :: rat
  tb_burst :: rat
  tb_tokens :: rat
  tb_lastRefill :: timestamp
  tb_throttleCount :: nat

record tb_snapshot =
  ts_params :: tb_params
  ts_rate :: rat
  ts_burst :: rat
  ts_tokens :: rat
  ts_throttleCount :: nat

datatype tb_signal = OnThrottle

definition newBucket :: "tb_params \<Rightarrow> timestamp \<Rightarrow> bucket" where
  "newBucket params now =
     \<lparr>tb_params = params, tb_rate = nominalRps params,
      tb_burst = nominalRps params * burstFactor params,
      tb_tokens = nominalRps params * burstFactor params,
      tb_lastRefill = now, tb_throttleCount = 0\<rparr>"

definition tb_reconfigure :: "tb_params \<Rightarrow> bucket \<Rightarrow> bucket" where
  "tb_reconfigure params b =
     b\<lparr>tb_params := params, tb_rate := nominalRps params,
       tb_burst := nominalRps params * burstFactor params,
       tb_tokens := nominalRps params * burstFactor params\<rparr>"

definition refill :: "timestamp \<Rightarrow> bucket \<Rightarrow> bucket" where
  "refill now b =
     (if now \<le> tb_lastRefill b then b
      else let elapsedSeconds = of_int (now - tb_lastRefill b) / 1000
           in b\<lparr>tb_tokens := min (tb_burst b) (tb_tokens b + elapsedSeconds * tb_rate b),
                tb_lastRefill := now\<rparr>)"

definition tryAcquire :: "timestamp \<Rightarrow> bucket \<Rightarrow> bool \<times> bucket" where
  "tryAcquire now b =
     (let b' = refill now b
      in if tb_tokens b' \<ge> 1 then (True, b'\<lparr>tb_tokens := tb_tokens b' - 1\<rparr>) else (False, b'))"

definition onThrottled :: "bucket \<Rightarrow> bucket \<times> tb_signal list" where
  "onThrottled b =
     (let p = tb_params b;
          rate = max (nominalRps p * minRateFactor p) (tb_rate b * (1/2));
          burst = max (nominalRps p * minRateFactor p * burstFactor p) (tb_burst b * (1/2))
      in (b\<lparr>tb_rate := rate, tb_burst := burst, tb_tokens := min (tb_tokens b) burst,
            tb_throttleCount := tb_throttleCount b + 1\<rparr>, [OnThrottle]))"

definition onSuccess :: "bucket \<Rightarrow> bucket" where
  "onSuccess b =
     (let p = tb_params b; maxBurst = nominalRps p * burstFactor p;
          rate = (if tb_rate b < nominalRps p then min (nominalRps p) (tb_rate b + aiStepRps p) else tb_rate b);
          burst = (if tb_burst b < maxBurst then min maxBurst (tb_burst b + aiStepRps p * burstFactor p) else tb_burst b)
      in b\<lparr>tb_rate := rate, tb_burst := burst, tb_tokens := min (tb_tokens b) burst\<rparr>)"

definition tb_getState :: "timestamp \<Rightarrow> bucket \<Rightarrow> tb_snapshot \<times> bucket" where
  "tb_getState now b =
     (let b' = refill now b
      in (\<lparr>ts_params = tb_params b', ts_rate = tb_rate b', ts_burst = tb_burst b',
           ts_tokens = tb_tokens b', ts_throttleCount = tb_throttleCount b'\<rparr>, b'))"

subsection \<open>Calls on a bucket\<close>

datatype tb_op = Acquire | Throttled | Success | Observe

fun tb_exec :: "timestamp \<times> tb_op \<Rightarrow> bucket \<Rightarrow> bool \<times> bucket" where
  "tb_exec (now, Acquire) b = tryAcquire now b"
| "tb_exec (now, Throttled) b = (False, fst (onThrottled b))"
| "tb_exec (now, Success) b = (False, onSuccess b)"
| "tb_exec (now, Observe) b = (False, snd (tb_getState now b))"

fun grants :: "(timestamp \<times> tb_op) list \<Rightarrow> bucket \<Rightarrow> nat" where
  "grants [] b = 0"
| "grants (x # xs) b = (if fst (tb_exec x b) then 1 else 0) + grants xs (snd (tb_exec x b))"

fun tb_after :: "(timestamp \<times> tb_op) list \<Rightarrow> bucket \<Rightarrow> bucket" where
  "tb_after [] b = b"
| "tb_after (x # xs) b = tb_after xs (snd (tb_exec x b))"

subsection \<open>The invariant\<close>

text \<open>Sensible parameters: nothing negative, and a floor that is a share of the nominal rate.\<close>

definition params_ok :: "tb_params \<Rightarrow> bool" where
  "params_ok p \<longleftrightarrow> 0 \<le> nominalRps p \<and> 0 \<le> burstFactor p \<and> 0 \<le> minRateFactor p \<and>
     minRateFactor p \<le> 1 \<and> 0 \<le> aiStepRps p"

definition tb_inv :: "bucket \<Rightarrow> bool" where
  "tb_inv b \<longleftrightarrow> params_ok (tb_params b) \<and>
     nominalRps (tb_params b) * minRateFactor (tb_params b) \<le> tb_rate b \<and>
     tb_rate b \<le> nominalRps (tb_params b) \<and>
     tb_burst b = tb_rate b * burstFactor (tb_params b) \<and>
     0 \<le> tb_tokens b \<and> tb_tokens b \<le> tb_burst b"

lemma tb_inv_rate_nonneg: "tb_inv b \<Longrightarrow> 0 \<le> tb_rate b"
  unfolding tb_inv_def params_ok_def by (meson mult_nonneg_nonneg order_trans)

lemma floor_le_nominal: "params_ok p \<Longrightarrow> nominalRps p * minRateFactor p \<le> nominalRps p"
  by (simp add: params_ok_def mult_left_le)

lemma tb_inv_new: "params_ok p \<Longrightarrow> tb_inv (newBucket p now)"
  using floor_le_nominal by (auto simp: tb_inv_def newBucket_def params_ok_def)

lemma tb_inv_reconfigure: "params_ok p \<Longrightarrow> tb_inv (tb_reconfigure p b)"
  using floor_le_nominal by (auto simp: tb_inv_def tb_reconfigure_def params_ok_def)

lemma refill_sel [simp]:
  "tb_params (refill now b) = tb_params b" "tb_rate (refill now b) = tb_rate b"
  "tb_burst (refill now b) = tb_burst b" "tb_throttleCount (refill now b) = tb_throttleCount b"
  "tb_lastRefill (refill now b) = max now (tb_lastRefill b)"
  by (auto simp: refill_def Let_def)

lemma tb_inv_refill: "tb_inv b \<Longrightarrow> tb_inv (refill now b)"
  using tb_inv_rate_nonneg [of b] by (auto simp: tb_inv_def refill_def Let_def min_def)

lemma tb_inv_acquire: "tb_inv b \<Longrightarrow> tb_inv (snd (tryAcquire now b))"
  using tb_inv_refill [of b now] by (auto simp: tb_inv_def tryAcquire_def Let_def)

lemma max_mult_right: "(0::rat) \<le> c \<Longrightarrow> max a b * c = max (a * c) (b * c)"
  by (simp add: max_def mult_right_mono antisym)

lemma min_mult_right: "(0::rat) \<le> c \<Longrightarrow> min a b * c = min (a * c) (b * c)"
  by (simp add: min_def mult_right_mono antisym)

lemma tb_inv_throttled: "tb_inv b \<Longrightarrow> tb_inv (fst (onThrottled b))"
proof -
  assume inv: "tb_inv b"
  then have ok: "params_ok (tb_params b)" by (simp add: tb_inv_def)
  have "0 \<le> tb_rate b" by (rule tb_inv_rate_nonneg [OF inv])
  moreover have "0 \<le> max (nominalRps (tb_params b) * minRateFactor (tb_params b) * burstFactor (tb_params b)) (tb_burst b / 2)"
    using ok by (simp add: params_ok_def le_max_iff_disj)
  ultimately show ?thesis
    using inv ok floor_le_nominal [OF ok]
    by (auto simp: tb_inv_def onThrottled_def Let_def max_mult_right params_ok_def)
qed

lemma success_burst:
  assumes "tb_inv b"
  shows "tb_burst (onSuccess b) = tb_rate (onSuccess b) * burstFactor (tb_params b)"
proof (cases "burstFactor (tb_params b) = 0")
  case True
  with assms show ?thesis by (simp add: tb_inv_def onSuccess_def Let_def)
next
  case False
  with assms have "0 < burstFactor (tb_params b)" by (simp add: tb_inv_def params_ok_def)
  with assms show ?thesis
    by (simp add: tb_inv_def onSuccess_def Let_def min_mult_right distrib_right)
qed

lemma tb_inv_success: "tb_inv b \<Longrightarrow> tb_inv (onSuccess b)"
proof -
  assume inv: "tb_inv b"
  have rate: "tb_rate b \<le> tb_rate (onSuccess b)" "tb_rate (onSuccess b) \<le> nominalRps (tb_params b)"
    using inv by (auto simp: tb_inv_def onSuccess_def Let_def params_ok_def)
  moreover have "0 \<le> tb_burst (onSuccess b)"
    using success_burst [OF inv] rate tb_inv_rate_nonneg [OF inv] inv
    by (simp add: tb_inv_def params_ok_def)
  moreover have "tb_params (onSuccess b) = tb_params b" "tb_tokens (onSuccess b) = min (tb_tokens b) (tb_burst (onSuccess b))"
    by (simp_all add: onSuccess_def Let_def)
  ultimately show ?thesis
    using inv success_burst [OF inv] by (auto simp: tb_inv_def)
qed

lemma tb_inv_exec: "tb_inv b \<Longrightarrow> tb_inv (snd (tb_exec x b))"
  by (cases x; cases "snd x")
    (auto simp: tb_inv_acquire tb_inv_throttled tb_inv_success tb_inv_refill tb_getState_def Let_def)

lemma tb_params_exec [simp]: "tb_params (snd (tb_exec x b)) = tb_params b"
  by (cases x; cases "snd x")
    (auto simp: tryAcquire_def onThrottled_def onSuccess_def tb_getState_def Let_def)

lemma tb_inv_after: "tb_inv b \<Longrightarrow> tb_inv (tb_after xs b)"
  by (induction xs arbitrary: b) (auto intro: tb_inv_exec)

lemma tb_params_after [simp]: "tb_params (tb_after xs b) = tb_params b"
  by (induction xs arbitrary: b) auto

subsection \<open>The potential of a bucket\<close>

text \<open>
  What a bucket can still grant up to time \<open>T\<close>: the tokens it holds and what the nominal
  rate adds after the last refill. No call increases it, and a grant costs one.
\<close>

definition potential :: "timestamp \<Rightarrow> bucket \<Rightarrow> rat" where
  "potential T b = tb_tokens b + nominalRps (tb_params b) * of_int (T - tb_lastRefill b) / 1000"

lemma potential_refill:
  assumes "tb_inv b"
  shows "potential T (refill now b) \<le> potential T b"
proof (cases "now \<le> tb_lastRefill b")
  case False
  let ?n = "nominalRps (tb_params b)" and ?d = "rat_of_int (now - tb_lastRefill b)"
  have "tb_tokens (refill now b) \<le> tb_tokens b + ?d / 1000 * tb_rate b"
    using False by (simp add: refill_def Let_def)
  also have "?d / 1000 * tb_rate b \<le> ?d / 1000 * ?n"
    using assms False by (intro mult_left_mono) (auto simp: tb_inv_def)
  finally have "tb_tokens (refill now b) \<le> tb_tokens b + ?d / 1000 * ?n" by simp
  moreover have "?n * of_int (T - now) / 1000 + ?d / 1000 * ?n = ?n * of_int (T - tb_lastRefill b) / 1000"
    by (simp add: field_simps)
  ultimately show ?thesis
    using False by (simp add: potential_def)
qed (simp add: refill_def)

lemma potential_exec:
  assumes "tb_inv b"
  shows "potential T (snd (tb_exec x b)) + (if fst (tb_exec x b) then 1 else 0) \<le> potential T b"
proof -
  obtain now opn where x: "x = (now, opn)" by (cases x)
  have same: "tb_lastRefill b' = tb_lastRefill b \<Longrightarrow> tb_params b' = tb_params b \<Longrightarrow>
      tb_tokens b' \<le> tb_tokens b \<Longrightarrow> potential T b' \<le> potential T b" for b'
    by (simp add: potential_def)
  show ?thesis
  proof (cases opn)
    case Acquire
    then show ?thesis using potential_refill [OF assms, of T now]
      by (auto simp: x tryAcquire_def Let_def potential_def)
  next
    case Observe
    then show ?thesis using potential_refill [OF assms, of T now]
      by (simp add: x tb_getState_def Let_def)
  qed (auto simp: x onThrottled_def onSuccess_def Let_def intro!: same)
qed

lemma lastRefill_exec:
  "tb_lastRefill b \<le> T \<Longrightarrow> fst x \<le> T \<Longrightarrow> tb_lastRefill (snd (tb_exec x b)) \<le> T"
  by (cases x; cases "snd x")
    (auto simp: tryAcquire_def onThrottled_def onSuccess_def tb_getState_def Let_def)

lemma potential_nonneg: "tb_inv b \<Longrightarrow> tb_lastRefill b \<le> T \<Longrightarrow> 0 \<le> potential T b"
  by (simp add: potential_def tb_inv_def params_ok_def)

lemma grants_potential:
  "tb_inv b \<Longrightarrow> tb_lastRefill b \<le> T \<Longrightarrow> (\<forall>x \<in> set xs. fst x \<le> T) \<Longrightarrow> of_nat (grants xs b) \<le> potential T b"
proof (induction xs arbitrary: b)
  case (Cons x xs)
  have "of_nat (grants xs (snd (tb_exec x b))) \<le> potential T (snd (tb_exec x b))"
    using Cons.prems by (intro Cons.IH) (auto intro: tb_inv_exec lastRefill_exec)
  with potential_exec [OF Cons.prems(1), of T x] show ?case by (auto split: if_splits)
qed (simp add: potential_nonneg)

subsection \<open>Properties of the bucket\<close>

text \<open>
  C11. The throughput guarantee: however the admission requests, throttling signals and
  successes are interleaved, a bucket created at time \<open>t0\<close> with sensible parameters grants
  by time \<open>T\<close> at most one full burst plus the nominal rate times the elapsed seconds.
\<close>

theorem bucket_throughput:
  assumes "params_ok p" and "t0 \<le> T" and "\<forall>x \<in> set calls. fst x \<le> T"
  shows "of_nat (grants calls (newBucket p t0)) \<le>
    nominalRps p * burstFactor p + nominalRps p * of_int (T - t0) / 1000"
  using grants_potential [OF tb_inv_new [OF assms(1), of t0], of T calls] assms(2,3)
  by (simp add: potential_def newBucket_def)

definition demo_limits :: tb_params where
  "demo_limits = \<lparr>nominalRps = 2, burstFactor = 1, minRateFactor = 1/4, aiStepRps = 1, tokenWaitMs = 100\<rparr>"

theorem bucket_throughput_witness:
  "grants [(0, Acquire), (0, Acquire), (0, Acquire), (500, Acquire)] (newBucket demo_limits 0) = 3 \<and>
   (3::rat) \<le> 2 * 1 + 2 * of_int (500 - 0) / 1000"
  using bucket_throughput [of demo_limits 0 500 "[(0, Acquire), (0, Acquire), (0, Acquire), (500, Acquire)]"]
  by (simp add: demo_limits_def params_ok_def tryAcquire_def refill_def newBucket_def)

text \<open>
  C20. The AIMD envelope: after any calls, the refill rate stays between the configured
  floor and the nominal rate, the burst ceiling is the rate times the burst factor, and the
  token count stays between zero and the ceiling.
\<close>

theorem bucket_envelope:
  assumes "params_ok p"
  shows "let b = tb_after calls (newBucket p t0) in
    nominalRps p * minRateFactor p \<le> tb_rate b \<and> tb_rate b \<le> nominalRps p \<and>
    tb_burst b = tb_rate b * burstFactor p \<and> 0 \<le> tb_tokens b \<and> tb_tokens b \<le> tb_burst b"
  using tb_inv_after [OF tb_inv_new [OF assms, of t0], of calls]
  by (simp add: tb_inv_def Let_def newBucket_def)

theorem bucket_envelope_witness:
  "tb_rate (tb_after [(0, Throttled), (0, Throttled), (0, Throttled)] (newBucket demo_limits 0)) = 1/2 \<and>
   nominalRps demo_limits * minRateFactor demo_limits \<le> 1/2"
  using bucket_envelope [of demo_limits "[(0, Throttled), (0, Throttled), (0, Throttled)]" 0]
  by (simp add: demo_limits_def params_ok_def onThrottled_def newBucket_def Let_def)

lemma success_rate:
  "tb_inv b \<Longrightarrow> tb_rate (onSuccess b) = min (nominalRps (tb_params b)) (tb_rate b + aiStepRps (tb_params b))"
  by (auto simp: tb_inv_def onSuccess_def Let_def params_ok_def)

lemma throttled_rate:
  "tb_rate (fst (onThrottled b)) = max (nominalRps (tb_params b) * minRateFactor (tb_params b)) (tb_rate b / 2)"
  by (simp add: onThrottled_def Let_def)

lemma params_signals [simp]:
  "tb_params (onSuccess b) = tb_params b" "tb_params (fst (onThrottled b)) = tb_params b"
  by (simp_all add: onSuccess_def onThrottled_def Let_def)

lemma rate_successes:
  assumes "tb_inv b"
  shows "tb_inv ((onSuccess ^^ k) b) \<and> tb_params ((onSuccess ^^ k) b) = tb_params b \<and>
    tb_rate ((onSuccess ^^ k) b) = min (nominalRps (tb_params b)) (tb_rate b + of_nat k * aiStepRps (tb_params b))"
proof (induction k)
  case 0
  then show ?case using assms by (simp add: tb_inv_def)
next
  case (Suc k)
  have "0 \<le> aiStepRps (tb_params b)" using assms by (simp add: tb_inv_def params_ok_def)
  with Suc show ?case
    by (simp add: tb_inv_success success_rate) (simp add: min_def distrib_right)
qed

lemma max_half: "(0::rat) \<le> f \<Longrightarrow> max f (max f x / 2) = max f (x / 2)"
  by (auto simp: max_def)

lemma rate_throttles:
  assumes "tb_inv b"
  shows "tb_inv (((fst \<circ> onThrottled) ^^ k) b) \<and> tb_params (((fst \<circ> onThrottled) ^^ k) b) = tb_params b \<and>
    tb_rate (((fst \<circ> onThrottled) ^^ k) b) =
      max (nominalRps (tb_params b) * minRateFactor (tb_params b)) (tb_rate b / 2 ^ k)"
proof (induction k)
  case 0
  then show ?case using assms by (simp add: tb_inv_def max_def)
next
  case (Suc k)
  have "0 \<le> nominalRps (tb_params b) * minRateFactor (tb_params b)"
    using assms by (simp add: tb_inv_def params_ok_def)
  with Suc show ?case
    by (simp add: tb_inv_throttled throttled_rate max_half)
qed

text \<open>
  Additive increase, multiplicative decrease, in closed form: after \<open>j\<close> throttling
  responses the rate is the old one halved \<open>j\<close> times but not below the floor, and \<open>k\<close>
  successes then add \<open>k\<close> steps but never exceed the nominal rate. (So enough successes
  restore the full rate whenever the step is positive.)
\<close>

theorem aimd_closed_form:
  assumes "tb_inv b"
  shows "tb_rate ((onSuccess ^^ k) (((fst \<circ> onThrottled) ^^ j) b)) =
    min (nominalRps (tb_params b))
        (max (nominalRps (tb_params b) * minRateFactor (tb_params b)) (tb_rate b / 2 ^ j)
         + of_nat k * aiStepRps (tb_params b))"
  using rate_throttles [OF assms, of j] rate_successes by simp

theorem aimd_closed_form_witness:
  "tb_inv (newBucket demo_limits 0) \<and>
   tb_rate ((onSuccess ^^ 1) (((fst \<circ> onThrottled) ^^ 3) (newBucket demo_limits 0))) = 3/2"
proof -
  have inv: "tb_inv (newBucket demo_limits 0)"
    by (rule tb_inv_new) (simp add: demo_limits_def params_ok_def)
  from aimd_closed_form [OF inv, of 1 3] inv show ?thesis
    by (simp add: demo_limits_def newBucket_def)
qed

end
