(* ===== verification/Mock_Gateway.thy ===== *)
theory Mock_Gateway
  imports Errors
begin

text \<open>
  The gateway contract of \<^verbatim>\<open>src/gateway/gateway.types.ts\<close> and the scriptable provider of
  \<^verbatim>\<open>src/gateway/mock-gateway.service.ts\<close>. An asynchronous method suspends once, in
  \<open>sleep(latencyMs)\<close>; the model has one function for the code before the suspension
  (\<open>..._begin\<close>) and one for the code after it (\<open>..._finish\<close>), since other callers of the
  same object run in between. \<open>Math.random()\<close> and \<open>Date.now()\<close> are arguments.
\<close>

record gateway_failure =
  gf_code :: error_code
  gf_message :: string
  gf_httpStatus :: int

datatype charge_result =
    Charge_ok (cr_txn: string) (cr_httpStatus: int) (cr_latency: rat)
  | Charge_fail (cr_failure: gateway_failure) (cr_latency: rat)

datatype refund_result =
    Refund_ok (rr_refund: string) (rr_httpStatus: int) (rr_latency: rat)
  | Refund_fail (rr_failure: gateway_failure) (rr_latency: rat)

datatype mock_step = Step_ok "rat option" | Step_fail int "error_code option"

record mock_behavior =
  latencyMinMs :: rat
  latencyMaxMs :: rat
  mb_steps :: "mock_step list"
  mb_after :: mock_step
  mb_refundSteps :: "mock_step list option"

text \<open>\<open>Partial<MockGatewayBehavior>\<close>.\<close>

record behavior_patch =
  bp_latencyMinMs :: "rat option"
  bp_latencyMaxMs :: "rat option"
  bp_steps :: "mock_step list option"
  bp_after :: "mock_step option"
  bp_refundSteps :: "mock_step list option"

definition OK_BEHAVIOR :: mock_behavior where
  "OK_BEHAVIOR = \<lparr>latencyMinMs = 10, latencyMaxMs = 30, mb_steps = [], mb_after = Step_ok None,
     mb_refundSteps = None\<rparr>"

datatype txn_status = Succeeded | Txn_failed

record mock_stats =
  ms_charges :: nat
  ms_refunds :: nat
  ms_failedCharges :: nat
  ms_histogram :: "(int, nat) jsmap"
  ms_correlationIds :: "string list"

record mock_gateway =
  mg_id :: string
  mg_behavior :: mock_behavior
  mg_stepIndex :: nat
  mg_refundStepIndex :: nat
  mg_transactions :: "(string, txn_status) jsmap"
  mg_stats :: mock_stats
  mg_refundSteps :: "mock_step list"

definition newMockGateway :: "string \<Rightarrow> mock_gateway" where
  "newMockGateway gid =
     \<lparr>mg_id = gid, mg_behavior = OK_BEHAVIOR, mg_stepIndex = 0, mg_refundStepIndex = 0,
      mg_transactions = [],
      mg_stats = \<lparr>ms_charges = 0, ms_refunds = 0, ms_failedCharges = 0, ms_histogram = [], ms_correlationIds = []\<rparr>,
      mg_refundSteps = []\<rparr>"

definition mg_configure :: "behavior_patch \<Rightarrow> mock_gateway \<Rightarrow> mock_gateway" where
  "mg_configure p g =
     g\<lparr>mg_behavior :=
         \<lparr>latencyMinMs = nullish (bp_latencyMinMs p) 5, latencyMaxMs = nullish (bp_latencyMaxMs p) 20,
          mb_steps = nullish (bp_steps p) [], mb_after = nullish (bp_after p) (mb_after OK_BEHAVIOR),
          mb_refundSteps = Some (nullish (bp_refundSteps p) [])\<rparr>,
       mg_stepIndex := 0, mg_refundStepIndex := 0, mg_refundSteps := nullish (bp_refundSteps p) []\<rparr>"

definition mg_reset :: "mock_gateway \<Rightarrow> mock_gateway" where
  "mg_reset g = mg_configure
     \<lparr>bp_latencyMinMs = Some 5, bp_latencyMaxMs = Some 20, bp_steps = Some (mb_steps OK_BEHAVIOR),
      bp_after = Some (mb_after OK_BEHAVIOR), bp_refundSteps = mb_refundSteps OK_BEHAVIOR\<rparr> g"

definition nextStep :: "mock_behavior \<Rightarrow> mock_gateway \<Rightarrow> mock_step \<times> mock_gateway" where
  "nextStep behavior g =
     (if mg_stepIndex g < length (mb_steps behavior)
      then (mb_steps behavior ! mg_stepIndex g, g\<lparr>mg_stepIndex := mg_stepIndex g + 1\<rparr>)
      else (mb_after behavior, g))"

definition nextRefundStep :: "mock_gateway \<Rightarrow> mock_step option \<times> mock_gateway" where
  "nextRefundStep g =
     (if mg_refundStepIndex g < length (mg_refundSteps g)
      then (Some (mg_refundSteps g ! mg_refundStepIndex g), g\<lparr>mg_refundStepIndex := mg_refundStepIndex g + 1\<rparr>)
      else (None, g))"

text \<open>\<open>random\<close> is the value \<open>Math.random()\<close> returns if it is called.\<close>

definition latency :: "rat \<Rightarrow> mock_behavior \<Rightarrow> mock_step option \<Rightarrow> rat" where
  "latency random behavior step =
     (case step of
        Some (Step_ok (Some ms)) \<Rightarrow> ms
      | _ \<Rightarrow> if latencyMaxMs behavior \<le> latencyMinMs behavior then latencyMinMs behavior
             else latencyMinMs behavior + random * (latencyMaxMs behavior - latencyMinMs behavior))"

definition tally :: "int \<Rightarrow> mock_gateway \<Rightarrow> mock_gateway" where
  "tally st g =
     g\<lparr>mg_stats := (mg_stats g)\<lparr>ms_histogram :=
         jset (ms_histogram (mg_stats g)) st (nullish (jget (ms_histogram (mg_stats g)) st) 0 + 1)\<rparr>\<rparr>"

definition charge_begin :: "rat \<Rightarrow> string option \<Rightarrow> mock_gateway \<Rightarrow> (mock_step \<times> rat) \<times> mock_gateway" where
  "charge_begin random correlationId g =
     (let behavior = mg_behavior g;
          (step, g1) = nextStep behavior g;
          g2 = g1\<lparr>mg_stats := (mg_stats g1)\<lparr>ms_charges := ms_charges (mg_stats g1) + 1\<rparr>\<rparr>;
          g3 = (if truthy correlationId
                then g2\<lparr>mg_stats := (mg_stats g2)\<lparr>ms_correlationIds := ms_correlationIds (mg_stats g2) @ [nullish correlationId []]\<rparr>\<rparr>
                else g2);
          latencyMs = (case step of Step_ok _ \<Rightarrow> latency random behavior (Some step)
                                  | Step_fail _ _ \<Rightarrow> latency random behavior None)
      in ((step, latencyMs), g3))"

definition transaction_id :: "timestamp \<Rightarrow> mock_gateway \<Rightarrow> string" where
  "transaction_id now g = mg_id g @ ''_txn_'' @ base36 now @ ''_'' @ show_nat (ms_charges (mg_stats g))"

definition charge_finish :: "timestamp \<Rightarrow> mock_step \<Rightarrow> rat \<Rightarrow> mock_gateway \<Rightarrow> charge_result \<times> mock_gateway" where
  "charge_finish now step latencyMs g =
     (case step of
        Step_fail httpStatus code \<Rightarrow>
          (let g1 = tally httpStatus (g\<lparr>mg_stats := (mg_stats g)\<lparr>ms_failedCharges := ms_failedCharges (mg_stats g) + 1\<rparr>\<rparr>)
           in (Charge_fail
                 \<lparr>gf_code = nullish code (classifyHttpStatus httpStatus),
                  gf_message = ''gateway '' @ mg_id g @ '' rejected with HTTP '' @ show_int httpStatus,
                  gf_httpStatus = httpStatus\<rparr> latencyMs, g1))
      | Step_ok _ \<Rightarrow>
          (let g1 = tally 200 g; tid = transaction_id now g1
           in (Charge_ok tid 200 latencyMs, g1\<lparr>mg_transactions := jset (mg_transactions g1) tid Succeeded\<rparr>)))"

definition refund_begin :: "rat \<Rightarrow> mock_gateway \<Rightarrow> (mock_step option \<times> rat) \<times> mock_gateway" where
  "refund_begin random g =
     (let g1 = g\<lparr>mg_stats := (mg_stats g)\<lparr>ms_refunds := ms_refunds (mg_stats g) + 1\<rparr>\<rparr>;
          (step, g2) = nextRefundStep g1
      in ((step, latency random (mg_behavior g2) step), g2))"

definition refund_finish :: "string \<Rightarrow> mock_step option \<Rightarrow> rat \<Rightarrow> mock_gateway \<Rightarrow> refund_result \<times> mock_gateway" where
  "refund_finish transactionId step latencyMs g =
     (case step of
        Some (Step_fail httpStatus code) \<Rightarrow>
          (let g1 = tally httpStatus g
           in (Refund_fail
                 \<lparr>gf_code = nullish code (classifyHttpStatus httpStatus),
                  gf_message = ''gateway '' @ mg_id g @ '' refund rejected with HTTP '' @ show_int httpStatus,
                  gf_httpStatus = httpStatus\<rparr> latencyMs,
               g1\<lparr>mg_transactions := jset (mg_transactions g1) transactionId Txn_failed\<rparr>))
      | _ \<Rightarrow> (Refund_ok (''refund_'' @ transactionId @ ''_'' @ show_nat (ms_refunds (mg_stats g))) 200 latencyMs, g))"

definition mg_getStatus :: "string \<Rightarrow> mock_gateway \<Rightarrow> txn_status" where
  "mg_getStatus transactionId g = nullish (jget (mg_transactions g) transactionId) Txn_failed"

subsection \<open>Lemmas\<close>

lemma tally_sel [simp]:
  "mg_id (tally st g) = mg_id g" "mg_behavior (tally st g) = mg_behavior g"
  "mg_stepIndex (tally st g) = mg_stepIndex g" "mg_transactions (tally st g) = mg_transactions g"
  "ms_charges (mg_stats (tally st g)) = ms_charges (mg_stats g)"
  "ms_refunds (mg_stats (tally st g)) = ms_refunds (mg_stats g)"
  "ms_failedCharges (mg_stats (tally st g)) = ms_failedCharges (mg_stats g)"
  by (simp_all add: tally_def)

lemma charge_begin_charges [simp]:
  "ms_charges (mg_stats (snd (charge_begin rnd cid g))) = ms_charges (mg_stats g) + 1"
  by (auto simp: charge_begin_def nextStep_def Let_def split: prod.splits if_splits)

lemma charge_begin_id [simp]: "mg_id (snd (charge_begin rnd cid g)) = mg_id g"
  by (auto simp: charge_begin_def nextStep_def Let_def split: prod.splits if_splits)

lemma charge_finish_charges [simp]:
  "ms_charges (mg_stats (snd (charge_finish now st lat g))) = ms_charges (mg_stats g)"
  by (auto simp: charge_finish_def Let_def split: mock_step.splits)

lemma charge_finish_id [simp]: "mg_id (snd (charge_finish now st lat g)) = mg_id g"
  by (auto simp: charge_finish_def Let_def split: mock_step.splits)

lemma refund_begin_charges [simp]:
  "ms_charges (mg_stats (snd (refund_begin rnd g))) = ms_charges (mg_stats g)"
  by (auto simp: refund_begin_def nextRefundStep_def Let_def)

lemma refund_finish_charges [simp]:
  "ms_charges (mg_stats (snd (refund_finish t st lat g))) = ms_charges (mg_stats g)"
  by (auto simp: refund_finish_def Let_def split: mock_step.splits option.splits)

lemma charge_begin_refunds [simp]:
  "ms_refunds (mg_stats (snd (charge_begin rnd cid g))) = ms_refunds (mg_stats g)"
  by (auto simp: charge_begin_def nextStep_def Let_def split: prod.splits if_splits)

lemma charge_finish_refunds [simp]:
  "ms_refunds (mg_stats (snd (charge_finish now st lat g))) = ms_refunds (mg_stats g)"
  by (auto simp: charge_finish_def Let_def split: mock_step.splits)

lemma charge_finish_ok:
  "charge_finish now step lat g = (Charge_ok tid st lat', g') \<Longrightarrow> mg_getStatus tid g' = Succeeded"
  by (auto simp: charge_finish_def mg_getStatus_def Let_def split: mock_step.splits)

lemma refund_begin_refunds [simp]:
  "ms_refunds (mg_stats (snd (refund_begin rnd g))) = ms_refunds (mg_stats g) + 1"
  by (auto simp: refund_begin_def nextRefundStep_def Let_def)

lemma refund_finish_refunds [simp]:
  "ms_refunds (mg_stats (snd (refund_finish t st lat g))) = ms_refunds (mg_stats g)"
  by (auto simp: refund_finish_def Let_def split: mock_step.splits option.splits)

lemma transaction_id_inj:
  assumes "mg_id g = mg_id h" and "transaction_id t g = transaction_id u h"
  shows "ms_charges (mg_stats g) = ms_charges (mg_stats h)"
proof -
  have free: "CHR ''_'' \<notin> set (show_nat n)" for n
    using render_nat_digits [of 10 n] underscore_not_digit by auto
  have "(mg_id g @ ''_txn_'' @ base36 t) @ CHR ''_'' # show_nat (ms_charges (mg_stats g)) =
        (mg_id h @ ''_txn_'' @ base36 u) @ CHR ''_'' # show_nat (ms_charges (mg_stats h))"
    using assms(2) by (simp add: transaction_id_def)
  from append_sep_inj [OF this free free] show ?thesis
    by (auto dest: render_nat_inj [rotated 2])
qed

end
