(* ===== verification/Process_Memory.thy ===== *)
theory Process_Memory
  imports Environment Event_Bus Circuit_Breaker Token_Bucket Mock_Gateway
begin

text \<open>
  The memory of one Node process and the type of its asynchronous functions. The memory
  holds the objects the NestJS providers keep in fields: the three per-gateway registries,
  the runtimes of the queue manager, the window and the alerts of the metrics
  collector, and the events emitted so far (the bus delivers each
  of them as in theory \<open>Event_Bus\<close> and never fails, so emitting is an append). Payment
  records are objects that several functions mutate through the same reference (a caller
  sees what the callee wrote even when the callee throws): they live in \<open>m_objects\<close>, and a
  reference is a number.

  The functions below wrap the calls of theory \<open>Environment\<close> with their JavaScript types:
  an error reply is an exception.
\<close>

record gateway_runtime =
  rt_gatewayId :: string
  rt_queueName :: string
  rt_queueClient :: nat
  rt_workers :: "(nat \<times> nat) list"

record attempt_sample =
  as_t :: timestamp
  as_gatewayId :: string
  as_ok :: bool
  as_durationMs :: int

record mem =
  m_buckets :: "(string, bucket) jsmap"
  m_breakers :: "(string, breaker) jsmap"
  m_mocks :: "(string, mock_gateway) jsmap"
  m_emitted :: "app_event list"
  m_runtimes :: "(string, gateway_runtime) jsmap"
  m_dlqClient :: "nat option"
  m_objects :: "nat \<Rightarrow> payment_record"
  m_nextObject :: nat
  m_samples :: "attempt_sample list"
  m_alerts :: "(string, alert) jsmap"
  m_lastRaisedAt :: "(string, timestamp) jsmap"

type_synonym 'a async = "(cmd, reply, mem, exn, 'a) prog"

definition blank_record :: payment_record where
  "blank_record = createPaymentRecord
     \<lparr>ci_id = [], ci_amount = 0, ci_currency = [], ci_customerId = [], ci_gatewayId = [], ci_priority = Normal,
      ci_maxRetries = None, ci_metadata = None, ci_scheduledAt = None, ci_correlationId = None, ci_createdAt = None\<rparr> 0"

definition empty_mem :: mem where
  "empty_mem = \<lparr>m_buckets = [], m_breakers = [], m_mocks = [], m_emitted = [], m_runtimes = [], m_dlqClient = None,
     m_objects = (\<lambda>_. blank_record), m_nextObject = 0, m_samples = [], m_alerts = [], m_lastRaisedAt = []\<rparr>"

definition unexpected :: "reply \<Rightarrow> 'a async" where
  "unexpected r = Throw (JsError (case r of R_error e \<Rightarrow> e | _ \<Rightarrow> ''unexpected reply''))"

definition date_now :: "timestamp async" where
  "date_now = Call Date_now (\<lambda>r. case r of R_int t \<Rightarrow> Ret t | _ \<Rightarrow> unexpected r)"

definition math_random :: "rat async" where
  "math_random = Call Math_random (\<lambda>r. case r of R_rat x \<Rightarrow> Ret x | _ \<Rightarrow> unexpected r)"

definition sleep :: "rat \<Rightarrow> unit async" where
  "sleep ms = Call (Sleep ms) (\<lambda>_. Ret ())"

definition redis_set_ex :: "string \<Rightarrow> payload \<Rightarrow> rat \<Rightarrow> unit async" where
  "redis_set_ex k p ttl = Call (Redis_set_ex k p ttl) (\<lambda>r. case r of R_ok \<Rightarrow> Ret () | _ \<Rightarrow> unexpected r)"

definition redis_set_ex_nx :: "string \<Rightarrow> payload \<Rightarrow> rat \<Rightarrow> bool async" where
  "redis_set_ex_nx k p ttl =
     Call (Redis_set_ex_nx k p ttl) (\<lambda>r. case r of R_ok \<Rightarrow> Ret True | R_nil \<Rightarrow> Ret False | _ \<Rightarrow> unexpected r)"

definition redis_get :: "string \<Rightarrow> payload option async" where
  "redis_get k = Call (Redis_get k) (\<lambda>r. case r of R_nil \<Rightarrow> Ret None | R_payload p \<Rightarrow> Ret (Some p) | _ \<Rightarrow> unexpected r)"

definition redis_del :: "string \<Rightarrow> unit async" where
  "redis_del k = Call (Redis_del k) (\<lambda>r. case r of R_int n \<Rightarrow> Ret () | _ \<Rightarrow> unexpected r)"

definition redis_pttl :: "string \<Rightarrow> int async" where
  "redis_pttl k = Call (Redis_pttl k) (\<lambda>r. case r of R_int n \<Rightarrow> Ret n | _ \<Rightarrow> unexpected r)"

definition redis_hset :: "string \<Rightarrow> string \<Rightarrow> payload \<Rightarrow> unit async" where
  "redis_hset k f p = Call (Redis_hset k f p) (\<lambda>r. case r of R_int n \<Rightarrow> Ret () | _ \<Rightarrow> unexpected r)"

definition redis_hget :: "string \<Rightarrow> string \<Rightarrow> payload option async" where
  "redis_hget k f = Call (Redis_hget k f) (\<lambda>r. case r of R_nil \<Rightarrow> Ret None | R_payload p \<Rightarrow> Ret (Some p) | _ \<Rightarrow> unexpected r)"

definition redis_rpush :: "string \<Rightarrow> payload \<Rightarrow> unit async" where
  "redis_rpush k p = Call (Redis_rpush k p) (\<lambda>r. case r of R_int n \<Rightarrow> Ret () | _ \<Rightarrow> unexpected r)"

definition redis_lrange :: "string \<Rightarrow> payload list async" where
  "redis_lrange k = Call (Redis_lrange k) (\<lambda>r. case r of R_list ps \<Rightarrow> Ret ps | _ \<Rightarrow> unexpected r)"

text \<open>A call whose only reply is success or an exception.\<close>

definition ext_unit :: "cmd \<Rightarrow> unit async" where
  "ext_unit c = Call c (\<lambda>r. case r of R_error e \<Rightarrow> unexpected r | _ \<Rightarrow> Ret ())"

definition ext_handle :: "cmd \<Rightarrow> nat async" where
  "ext_handle c = Call c (\<lambda>r. case r of R_handle h \<Rightarrow> Ret h | _ \<Rightarrow> unexpected r)"

definition emit :: "app_event \<Rightarrow> unit async" where
  "emit ev = modify (\<lambda>m. m\<lparr>m_emitted := m_emitted m @ [ev]\<rparr>)"

lemma wp_emit [simp]: "wp H (emit ev) Q m w = Q (Inr ()) (m\<lparr>m_emitted := m_emitted m @ [ev]\<rparr>) w"
  by (simp add: emit_def)

subsection \<open>Objects\<close>

definition object :: "mem \<Rightarrow> nat \<Rightarrow> payment_record" where
  "object m ref = m_objects m ref"

definition put_object :: "nat \<Rightarrow> payment_record \<Rightarrow> mem \<Rightarrow> mem" where
  "put_object ref r m = m\<lparr>m_objects := (m_objects m)(ref := r)\<rparr>"

text \<open>A new object, as \<open>JSON.parse\<close> or an object literal makes one.\<close>

definition new_object :: "payment_record \<Rightarrow> nat async" where
  "new_object r = sync_step (\<lambda>m. (m_nextObject m, put_object (m_nextObject m) r (m\<lparr>m_nextObject := Suc (m_nextObject m)\<rparr>)))"

definition mutate :: "nat \<Rightarrow> (payment_record \<Rightarrow> payment_record) \<Rightarrow> unit async" where
  "mutate ref f = modify (\<lambda>m. put_object ref (f (object m ref)) m)"

lemma object_put [simp]:
  "object (put_object ref r m) ref = r"
  "ref' \<noteq> ref \<Longrightarrow> object (put_object ref r m) ref' = object m ref'"
  by (simp_all add: object_def put_object_def)

lemma object_frame [simp]:
  "object (m\<lparr>m_emitted := evs\<rparr>) ref = object m ref"
  "object (m\<lparr>m_nextObject := n\<rparr>) ref = object m ref"
  "m_emitted (put_object ref r m) = m_emitted m"
  "m_buckets (put_object ref r m) = m_buckets m"
  "m_breakers (put_object ref r m) = m_breakers m"
  "m_mocks (put_object ref r m) = m_mocks m"
  "m_runtimes (put_object ref r m) = m_runtimes m"
  by (simp_all add: object_def put_object_def)

lemma wp_mutate [simp]: "wp H (mutate ref f) Q m w = Q (Inr ()) (put_object ref (f (object m ref)) m) w"
  by (simp add: mutate_def)

subsection \<open>Programs that leave the memory alone\<close>

text \<open>
  For an arbitrary handler, a wrapped call only returns a value or throws; the memory is
  the same afterwards and the call does not diverge.
\<close>

inductive only_calls :: "'a async \<Rightarrow> bool" where
  oc_ret: "only_calls (Ret a)"
| oc_throw: "only_calls (Throw e)"
| oc_get: "(\<And>s. only_calls (k s)) \<Longrightarrow> only_calls (Get k)"
| oc_call: "(\<And>r. only_calls (k r)) \<Longrightarrow> only_calls (Call c k)"

lemma only_calls_run: "only_calls p \<Longrightarrow> \<exists>r w'. run H p m w = Some (r, m, w')"
  by (induction arbitrary: w rule: only_calls.induct) (auto split: prod.splits)

lemma only_calls_wp:
  assumes "only_calls p" and "\<And>r w'. Q r m w'"
  shows "wp H p Q m w"
  using only_calls_run [OF assms(1), of H m w] assms(2) by (auto simp: wp_def)

lemma wp_calls_bind:
  assumes "only_calls p" and "\<And>e w'. Q (Inl e) m w'" and "\<And>a w'. wp H (q a) Q m w'"
  shows "wp H (bind p q) Q m w"
  unfolding wp_bind by (rule only_calls_wp [OF assms(1)]) (simp add: assms(2,3) split: sum.split)

lemma only_calls_bind: "only_calls p \<Longrightarrow> (\<And>a. only_calls (f a)) \<Longrightarrow> only_calls (bind p f)"
  by (induction rule: only_calls.induct) (auto intro: only_calls.intros)

lemma only_calls_catch: "only_calls p \<Longrightarrow> (\<And>e. only_calls (h e)) \<Longrightarrow> only_calls (catch p h)"
  by (induction rule: only_calls.induct) (auto intro: only_calls.intros)

lemma only_calls_unexpected [simp, intro]: "only_calls (unexpected r)"
  by (simp add: unexpected_def only_calls.intros)

lemmas call_defs =
  date_now_def math_random_def sleep_def redis_set_ex_def redis_set_ex_nx_def redis_get_def
  redis_del_def redis_pttl_def redis_hset_def redis_hget_def redis_rpush_def redis_lrange_def
  ext_unit_def ext_handle_def

lemma only_calls_wrapped [simp, intro]:
  "only_calls date_now" "only_calls math_random" "only_calls (sleep ms)"
  "only_calls (redis_set_ex k p ttl)" "only_calls (redis_set_ex_nx k p ttl)" "only_calls (redis_get k)"
  "only_calls (redis_del k)" "only_calls (redis_pttl k)" "only_calls (redis_hset k f p)"
  "only_calls (redis_hget k f)" "only_calls (redis_rpush k p)" "only_calls (redis_lrange k)"
  "only_calls (ext_unit c)" "only_calls (ext_handle c)"
  by (auto simp: call_defs intro!: only_calls.intros split: reply.splits)

locale process_frame = memory_frame R for R :: "mem \<Rightarrow> mem \<Rightarrow> bool"
begin

lemma honours_only_calls: "only_calls p \<Longrightarrow> honours H R p"
  unfolding honours_def by (auto intro: only_calls_wp frame_refl)

end

subsection \<open>Clock, timers and randomness\<close>

context js_world
begin

lemma wp_date_now [simp]: "wp H date_now Q m w = Q (Inr (clock w)) m w"
  by (simp add: date_now_def wp_Call clock_reading)

lemma wp_sleep [simp]: "wp H (sleep ms) Q m w = Q (Inr ()) m (snd (H (Sleep ms) w))"
  by (simp add: sleep_def wp_Call split: prod.splits)

lemma wp_math_random:
  assumes "\<And>x. 0 \<le> x \<Longrightarrow> x < 1 \<Longrightarrow> Q (Inr x) m (snd (H Math_random w))"
  shows "wp H math_random Q m w"
proof -
  obtain x where "fst (H Math_random w) = R_rat x" "0 \<le> x" "x < 1"
    using random_unit [of w] by blast
  with assms show ?thesis by (simp add: math_random_def wp_Call case_prod_unfold)
qed

lemma run_clock: "run H p m w = Some (r, m', w') \<Longrightarrow> clock w \<le> clock w'"
proof (induction p arbitrary: m w)
  case (Call c k)
  then show ?case using clock_mono [of w c] by (fastforce split: prod.splits)
qed fastforce+

lemma wp_clock: "wp H p Q m w \<Longrightarrow> wp H p (\<lambda>r m' w'. Q r m' w' \<and> clock w \<le> clock w') m w"
  using run_clock by (fastforce simp: wp_def split: option.splits)

lemma wp_only_calls_clock:
  assumes "only_calls p" and "\<And>r w'. clock w \<le> clock w' \<Longrightarrow> Q r m w'"
  shows "wp H p Q m w"
  using assms
proof (induction arbitrary: w rule: only_calls.induct)
  case (oc_get k)
  then show ?case by simp
next
  case (oc_call k c)
  have "wp H (k r) Q m (snd (H c w))" for r
    using oc_call clock_mono [of w c] by (meson order_trans)
  then show ?case by (simp add: wp_Call case_prod_unfold)
qed auto

end

subsection \<open>Programs that only make certain calls\<close>

inductive calls_in :: "(cmd \<Rightarrow> bool) \<Rightarrow> 'a async \<Rightarrow> bool" for P where
  ci_ret: "calls_in P (Ret a)"
| ci_throw: "calls_in P (Throw e)"
| ci_diverge: "calls_in P Diverge"
| ci_get: "(\<And>s. calls_in P (k s)) \<Longrightarrow> calls_in P (Get k)"
| ci_modify: "calls_in P p \<Longrightarrow> calls_in P (Modify f p)"
| ci_call: "P c \<Longrightarrow> (\<And>r. calls_in P (k r)) \<Longrightarrow> calls_in P (Call c k)"

inductive_simps calls_in_simps [simp]:
  "calls_in P (Ret a)" "calls_in P (Throw e)" "calls_in P (Get k)" "calls_in P (Modify f p)" "calls_in P (Call c k)"

lemma calls_in_mono: "calls_in P p \<Longrightarrow> (\<And>c. P c \<Longrightarrow> Q c) \<Longrightarrow> calls_in Q p"
  by (induction rule: calls_in.induct) (auto intro: calls_in.intros)

lemma calls_in_bind: "calls_in P p \<Longrightarrow> (\<And>a. calls_in P (f a)) \<Longrightarrow> calls_in P (bind p f)"
  by (induction rule: calls_in.induct) (auto intro: calls_in.intros)

lemma calls_in_catch: "calls_in P p \<Longrightarrow> (\<And>e. calls_in P (h e)) \<Longrightarrow> calls_in P (catch p h)"
  by (induction rule: calls_in.induct) (auto intro: calls_in.intros)

lemma calls_in_attempt: "calls_in P p \<Longrightarrow> calls_in P (attempt p)"
  by (induction rule: calls_in.induct) (auto intro: calls_in.intros)

lemma calls_in_finally: "calls_in P p \<Longrightarrow> calls_in P q \<Longrightarrow> calls_in P (finally_do p q)"
  unfolding finally_do_def by (intro calls_in_bind calls_in_attempt) (auto simp: rethrow_def split: sum.split)

lemma calls_in_block: "(\<And>p. p \<in> set ps \<Longrightarrow> calls_in P p) \<Longrightarrow> calls_in P (block ps)"
  by (induction ps) (auto intro: calls_in_bind)

lemma calls_in_memory:
  "calls_in P (gets g)" "calls_in P (modify h)" "calls_in P (sync_step k)" "calls_in P (unexpected r)" "calls_in P (emit ev)"
  "calls_in P (mutate ref f)" "calls_in P (new_object x)"
  by (simp_all add: gets_def modify_def sync_step_def unexpected_def emit_def mutate_def new_object_def)

abbreviation no_redis :: "'a async \<Rightarrow> bool" where
  "no_redis \<equiv> calls_in (\<lambda>c. \<not> is_redis c)"

lemmas no_redis_bind = calls_in_bind [where P = "\<lambda>c. \<not> is_redis c"]
lemmas no_redis_block = calls_in_block [where P = "\<lambda>c. \<not> is_redis c"]

lemma no_redis_steps:
  "no_redis (gets g)" "no_redis (modify h)" "no_redis (sync_step k)" "no_redis (unexpected r)" "no_redis (emit ev)"
  "no_redis date_now" "no_redis math_random" "no_redis (sleep ms)"
  by (auto simp: gets_def modify_def sync_step_def unexpected_def emit_def date_now_def math_random_def sleep_def
      intro!: calls_in.intros split: reply.split)

context redis_world
begin

lemma no_redis_keys: "no_redis p \<Longrightarrow> run H p m w = Some (r, m', w') \<Longrightarrow> ks w' = ks w \<and> clock w \<le> clock w'"
proof (induction arbitrary: m w rule: calls_in.induct)
  case (ci_call c k)
  obtain rep w1 where c: "H c w = (rep, w1)" by fastforce
  from ci_call.IH [of rep m w1] ci_call.prems c frame [OF ci_call.hyps(1), of w] clock_mono [of w c] show ?case by simp
qed auto

lemma wp_no_redis:
  assumes "no_redis p" and "wp H p Q m w"
  shows "wp H p (\<lambda>r m' w'. Q r m' w' \<and> ks w' = ks w \<and> clock w \<le> clock w') m w"
  using assms no_redis_keys [OF assms(1)] by (auto simp: wp_def split: option.splits)

end

end
