(* ===== verification/Records.thy ===== *)
theory Records
  imports Process_Memory
begin

text \<open>
  The Redis-backed services: the payment records of
  \<^verbatim>\<open>src/payments/payment-store.service.ts\<close>, the audit log of
  \<^verbatim>\<open>src/payments/audit-log.service.ts\<close> and the settlement ledger of
  \<^verbatim>\<open>src/payments/settlement-ledger.service.ts\<close>. Their keys, and those of the idempotency
  service, are pairwise different, and \<open>typed\<close> says what each kind of key holds; every
  command of these services keeps it.
\<close>

subsection \<open>Keys\<close>

definition payment_key :: "string \<Rightarrow> string" where
  "payment_key paymentId = ''payment:'' @ paymentId"

definition audit_key :: "string \<Rightarrow> string" where
  "audit_key paymentId = ''audit:payment:'' @ paymentId"

definition idem_key :: "string \<Rightarrow> string" where
  "idem_key paymentId = ''idempotency:payment:'' @ paymentId"

definition lock_key :: "string \<Rightarrow> string" where
  "lock_key paymentId = ''lock:payment:process:'' @ paymentId"

definition ledger_key :: string where
  "ledger_key = ''ledger:settlements''"

subsection \<open>Payment records\<close>

definition store_save :: "payment_record \<Rightarrow> unit async" where
  "store_save r = redis_hset (payment_key (p_id r)) ''doc'' (P_payment r)"

text \<open>A document that is not a payment record does not parse and reads as absent.\<close>

definition parse_payment :: "payload option \<Rightarrow> payment_record option" where
  "parse_payment doc = (case doc of Some (P_payment r) \<Rightarrow> Some r | _ \<Rightarrow> None)"

definition store_get :: "string \<Rightarrow> payment_record option async" where
  "store_get paymentId = bind (redis_hget (payment_key paymentId) ''doc'') (\<lambda>doc. Ret (parse_payment doc))"

subsection \<open>Audit log\<close>

definition audit_record :: "string \<Rightarrow> audit_type \<Rightarrow> json_object option \<Rightarrow> timestamp option \<Rightarrow> unit async" where
  "audit_record paymentId ty detail ts =
     bind (case ts of Some t \<Rightarrow> Ret t | None \<Rightarrow> date_now) (\<lambda>t.
       redis_rpush (audit_key paymentId)
         (P_audit \<lparr>a_paymentId = paymentId, a_type = ty, a_at = t, a_detail = detail\<rparr>))"

primrec parse_all :: "(payload \<Rightarrow> 'a option) \<Rightarrow> payload list \<Rightarrow> 'a list async" where
  "parse_all f [] = Ret []"
| "parse_all f (p # ps) =
     (case f p of
        None \<Rightarrow> Throw (JsError ''Unexpected token in JSON'')
      | Some a \<Rightarrow> bind (parse_all f ps) (\<lambda>rest. Ret (a # rest)))"

definition parse_audit :: "payload \<Rightarrow> audit_event option" where
  "parse_audit p = (case p of P_audit e \<Rightarrow> Some e | _ \<Rightarrow> None)"

definition audit_list :: "string \<Rightarrow> audit_event list async" where
  "audit_list paymentId = bind (redis_lrange (audit_key paymentId)) (parse_all parse_audit)"

subsection \<open>Settlement ledger\<close>

definition settlement_of :: "'x payment_scheme \<Rightarrow> string \<Rightarrow> timestamp \<Rightarrow> settlement_entry" where
  "settlement_of payment transactionId now =
     \<lparr>se_paymentId = p_id payment, se_transactionId = transactionId, se_amount = p_amount payment,
      se_currency = p_currency payment, se_customerId = p_customerId payment,
      se_gatewayId = p_gatewayId payment, se_settledAt = now\<rparr>"

definition ledger_settle :: "'x payment_scheme \<Rightarrow> string \<Rightarrow> settlement_entry async" where
  "ledger_settle payment transactionId =
     bind date_now (\<lambda>now.
     bind (redis_rpush ledger_key (P_settlement (settlement_of payment transactionId now))) (\<lambda>_.
       Ret (settlement_of payment transactionId now)))"

definition parse_settlement :: "payload \<Rightarrow> settlement_entry option" where
  "parse_settlement p = (case p of P_settlement e \<Rightarrow> Some e | _ \<Rightarrow> None)"

definition ledger_list :: "settlement_entry list async" where
  "ledger_list = bind (redis_lrange ledger_key) (parse_all parse_settlement)"

subsection \<open>Views of the keyspace\<close>

definition doc_of :: "keyspace \<Rightarrow> string \<Rightarrow> payment_record option" where
  "doc_of ks pid = (case ks (payment_key pid) of Some (HashV h, _) \<Rightarrow> parse_payment (jget h ''doc'') | _ \<Rightarrow> None)"

definition list_at :: "keyspace \<Rightarrow> string \<Rightarrow> payload list" where
  "list_at ks k = (case ks k of Some (ListV ps, _) \<Rightarrow> ps | _ \<Rightarrow> [])"

text \<open>
  What the keys hold: documents, logs and the ledger never expire, leases and locks do; a
  document is stored under its own id.
\<close>

definition typed :: "keyspace \<Rightarrow> bool" where
  "typed ks \<longleftrightarrow>
     (\<forall>pid v e. ks (payment_key pid) = Some (v, e) \<longrightarrow>
       (\<exists>h. v = HashV h \<and> (\<forall>r. jget h ''doc'' = Some (P_payment r) \<longrightarrow> p_id r = pid)) \<and> e = None) \<and>
     (\<forall>pid v e. ks (audit_key pid) = Some (v, e) \<longrightarrow> (\<exists>ps. v = ListV (map P_audit ps)) \<and> e = None) \<and>
     (\<forall>v e. ks ledger_key = Some (v, e) \<longrightarrow> (\<exists>ps. v = ListV (map P_settlement ps)) \<and> e = None) \<and>
     (\<forall>pid v e. ks (idem_key pid) = Some (v, e) \<longrightarrow> (\<exists>r t. v = StrV (P_idem r) \<and> e = Some t)) \<and>
     (\<forall>pid v e. ks (lock_key pid) = Some (v, e) \<longrightarrow> (\<exists>p t. v = StrV p \<and> e = Some t))"

lemmas key_defs = payment_key_def audit_key_def idem_key_def lock_key_def ledger_key_def

lemma keys_inj [simp]:
  "payment_key a = payment_key b \<longleftrightarrow> a = b" "audit_key a = audit_key b \<longleftrightarrow> a = b"
  "idem_key a = idem_key b \<longleftrightarrow> a = b" "lock_key a = lock_key b \<longleftrightarrow> a = b"
  by (simp_all add: key_defs)

lemma keys_disjoint [simp]:
  "payment_key a \<noteq> audit_key b" "payment_key a \<noteq> idem_key b" "payment_key a \<noteq> lock_key b" "payment_key a \<noteq> ledger_key"
  "audit_key a \<noteq> payment_key b" "audit_key a \<noteq> idem_key b" "audit_key a \<noteq> lock_key b" "audit_key a \<noteq> ledger_key"
  "idem_key a \<noteq> payment_key b" "idem_key a \<noteq> audit_key b" "idem_key a \<noteq> lock_key b" "idem_key a \<noteq> ledger_key"
  "lock_key a \<noteq> payment_key b" "lock_key a \<noteq> audit_key b" "lock_key a \<noteq> idem_key b" "lock_key a \<noteq> ledger_key"
  "ledger_key \<noteq> payment_key a" "ledger_key \<noteq> audit_key a" "ledger_key \<noteq> idem_key a" "ledger_key \<noteq> lock_key a"
  by (simp_all add: key_defs)

lemma typed_empty [simp]: "typed Map.empty"
  by (simp add: typed_def)

lemma typed_updates:
  "typed ks \<Longrightarrow> (\<And>r. jget h ''doc'' = Some (P_payment r) \<Longrightarrow> p_id r = pid) \<Longrightarrow> typed (ks(payment_key pid \<mapsto> (HashV h, None)))"
  "typed ks \<Longrightarrow> typed (ks(audit_key pid \<mapsto> (ListV (map P_audit as), None)))"
  "typed ks \<Longrightarrow> typed (ks(ledger_key \<mapsto> (ListV (map P_settlement ss), None)))"
  "typed ks \<Longrightarrow> typed (ks(idem_key pid \<mapsto> (StrV (P_idem r), Some t)))"
  "typed ks \<Longrightarrow> typed (ks(lock_key pid \<mapsto> (StrV p, Some t)))"
  "typed ks \<Longrightarrow> typed (ks(idem_key pid := None))"
  "typed ks \<Longrightarrow> typed (ks(lock_key pid := None))"
  unfolding typed_def by auto

lemma typed_at:
  "typed ks \<Longrightarrow> ks (payment_key pid) = Some ve \<Longrightarrow> \<exists>h. ve = (HashV h, None) \<and> (\<forall>r. jget h ''doc'' = Some (P_payment r) \<longrightarrow> p_id r = pid)"
  "typed ks \<Longrightarrow> ks (audit_key pid) = Some ve \<Longrightarrow> \<exists>as. ve = (ListV (map P_audit as), None)"
  "typed ks \<Longrightarrow> ks ledger_key = Some ve \<Longrightarrow> \<exists>ss. ve = (ListV (map P_settlement ss), None)"
  "typed ks \<Longrightarrow> ks (idem_key pid) = Some ve \<Longrightarrow> \<exists>r t. ve = (StrV (P_idem r), Some t)"
  "typed ks \<Longrightarrow> ks (lock_key pid) = Some ve \<Longrightarrow> \<exists>p t. ve = (StrV p, Some t)"
  unfolding typed_def by (metis surj_pair)+

end
