(* ===== verification/App_Config.thy ===== *)
theory App_Config
  imports Circuit_Breaker Token_Bucket
begin

text \<open>
  The configuration of \<^verbatim>\<open>src/config/app-config.ts\<close>: the environment variables, the parser
  \<open>num\<close> with its fall-back, the Redis URL, and \<open>buildConfig\<close>. \<open>js_number\<close> is the conversion
  \<open>Number(text)\<close> of the language, exact instead of rounded to a double; \<open>None\<close> stands for
  the results \<open>NaN\<close> and infinity, which \<open>Number.isFinite\<close> rejects. The contents of a file
  are the parameter \<open>readFile\<close>, \<open>None\<close> when \<open>readFileSync\<close> throws.
\<close>

record queue_config =
  qc_prefix :: string
  workerPoolSize :: rat
  backoffBaseMs :: rat
  backoffJitter :: rat

record idempotency_config =
  leaseTtlSeconds :: rat
  retentionSeconds :: rat

record metrics_config =
  windowSeconds :: rat
  broadcastIntervalMs :: rat
  errorRateAlert :: rat
  p95LatencyAlertMs :: rat
  queueDepthAlert :: rat
  alertCooldownMs :: rat

record tracing_config =
  serviceName :: string
  otlpEndpoint :: "string option"

record app_config =
  redisUrl_of :: string
  httpPort :: rat
  cfg_queue :: queue_config
  cfg_idempotency :: idempotency_config
  cfg_rateLimiter :: tb_params
  cfg_circuitBreaker :: cb_params
  cfg_metrics :: metrics_config
  cfg_tracing :: tracing_config
  cfg_gateways :: "string list"

type_synonym env_vars = "(string, string) jsmap"

subsection \<open>The language's conversions\<close>

definition digit_in :: "nat \<Rightarrow> char \<Rightarrow> nat option" where
  "digit_in base c =
     (let n = of_char c :: nat;
          d = (if 48 \<le> n \<and> n \<le> 57 then n - 48
               else if 97 \<le> n \<and> n \<le> 122 then n - 87
               else if 65 \<le> n \<and> n \<le> 90 then n - 55 else base)
      in if d < base then Some d else None)"

definition is_digit :: "nat \<Rightarrow> char \<Rightarrow> bool" where
  "is_digit base c = (digit_in base c \<noteq> None)"

definition digits_value :: "nat \<Rightarrow> string \<Rightarrow> nat" where
  "digits_value base ds = foldl (\<lambda>acc c. acc * base + nullish (digit_in base c) 0) 0 ds"

text \<open>The decimal literal of the numeric grammar: digits, an optional fraction, an optional exponent.\<close>

definition exponent_value :: "string \<Rightarrow> rat option" where
  "exponent_value s =
     (case s of
        [] \<Rightarrow> Some 1
      | c # rest \<Rightarrow>
          if c \<noteq> CHR ''e'' \<and> c \<noteq> CHR ''E'' then None
          else let (neg, ds) = (case rest of
                   d # ds \<Rightarrow> if d = CHR ''-'' then (True, ds) else if d = CHR ''+'' then (False, ds) else (False, rest)
                 | [] \<Rightarrow> (False, []))
               in if ds = [] \<or> \<not> list_all (is_digit 10) ds then None
                  else if neg then Some (1 / 10 ^ digits_value 10 ds) else Some (10 ^ digits_value 10 ds))"

definition decimal_value :: "string \<Rightarrow> rat option" where
  "decimal_value s =
     (let ip = takeWhile (is_digit 10) s; r1 = dropWhile (is_digit 10) s;
          (fp, r2) = (case r1 of
              c # cs \<Rightarrow> if c = CHR ''.'' then (takeWhile (is_digit 10) cs, dropWhile (is_digit 10) cs) else ([], r1)
            | [] \<Rightarrow> ([], []))
      in if ip = [] \<and> fp = [] then None
         else case exponent_value r2 of
                None \<Rightarrow> None
              | Some e \<Rightarrow> Some ((of_nat (digits_value 10 ip) + of_nat (digits_value 10 fp) / 10 ^ length fp) * e))"

definition radix_value :: "nat \<Rightarrow> string \<Rightarrow> rat option" where
  "radix_value base ds =
     (if ds = [] \<or> \<not> list_all (is_digit base) ds then None else Some (of_nat (digits_value base ds)))"

fun signed_value :: "string \<Rightarrow> rat option" where
  "signed_value [] = Some 0"
| "signed_value (c # cs) =
     (if c = CHR ''-'' then map_option uminus (decimal_value cs)
      else if c = CHR ''+'' then decimal_value cs
      else if c = CHR ''0'' \<and> cs \<noteq> [] \<and> hd cs \<in> {CHR ''x'', CHR ''X''} then radix_value 16 (tl cs)
      else if c = CHR ''0'' \<and> cs \<noteq> [] \<and> hd cs \<in> {CHR ''o'', CHR ''O''} then radix_value 8 (tl cs)
      else if c = CHR ''0'' \<and> cs \<noteq> [] \<and> hd cs \<in> {CHR ''b'', CHR ''B''} then radix_value 2 (tl cs)
      else decimal_value (c # cs))"

definition js_number :: "string \<Rightarrow> rat option" where
  "js_number s = signed_value (trim s)"

fun split_comma :: "string \<Rightarrow> string list" where
  "split_comma [] = [[]]"
| "split_comma (c # cs) =
     (if c = CHR '','' then [] # split_comma cs
      else case split_comma cs of [] \<Rightarrow> [[c]] | w # ws \<Rightarrow> (c # w) # ws)"

fun join_comma :: "string list \<Rightarrow> string" where
  "join_comma [] = []"
| "join_comma [w] = w"
| "join_comma (w # ws) = w @ '','' @ join_comma ws"

definition uri_unreserved :: "char \<Rightarrow> bool" where
  "uri_unreserved c \<longleftrightarrow> is_digit 36 c \<or> c \<in> set ''-_.!~*()'' \<or> c = char_of (39 :: nat)"

definition hex_upper :: "nat \<Rightarrow> char" where
  "hex_upper d = (if d < 10 then char_of (48 + d) else char_of (55 + d))"

definition encodeURIComponent :: "string \<Rightarrow> string" where
  "encodeURIComponent s =
     concat (map (\<lambda>c. if uri_unreserved c then [c]
                      else [CHR ''%'', hex_upper (of_char c div 16), hex_upper (of_char c mod 16)]) s)"

subsection \<open>The configuration\<close>

definition DEFAULT_GATEWAYS :: "string list" where
  "DEFAULT_GATEWAYS = [''stripe'', ''paypal'', ''adyen'']"

definition num :: "env_vars \<Rightarrow> string \<Rightarrow> rat \<Rightarrow> rat" where
  "num env key fallback =
     (case jget env key of
        None \<Rightarrow> fallback
      | Some raw \<Rightarrow> if raw = [] then fallback else nullish (js_number raw) fallback)"

definition redisUrl :: "(string \<Rightarrow> string option) \<Rightarrow> env_vars \<Rightarrow> string" where
  "redisUrl readFile env =
     (let host = nullish (jget env ''REDIS_HOST'') ''127.0.0.1'';
          port = nullish (jget env ''REDIS_PORT'') ''6379'';
          db = (case jget env ''REDIS_DB'' of None \<Rightarrow> [] | Some d \<Rightarrow> ''/'' @ d);
          auth = (if truthy (jget env ''REDIS_PASSWORD'')
                  then '':'' @ encodeURIComponent (nullish (jget env ''REDIS_PASSWORD'') []) @ ''@'' else []);
          fallback = ''redis://'' @ auth @ host @ '':'' @ port @ db
      in if truthy (jget env ''REDIS_URL'') then nullish (jget env ''REDIS_URL'') []
         else if truthy (jget env ''TEST_REDIS_URL_FILE'')
         then case readFile (nullish (jget env ''TEST_REDIS_URL_FILE'') []) of
                None \<Rightarrow> fallback
              | Some content \<Rightarrow> if trim content \<noteq> [] then trim content else fallback
         else fallback)"

definition buildConfig :: "(string \<Rightarrow> string option) \<Rightarrow> env_vars \<Rightarrow> app_config" where
  "buildConfig readFile env =
     (let listed = filter (\<lambda>g. g \<noteq> []) (map trim (split_comma (nullish (jget env ''GATEWAYS'') (join_comma DEFAULT_GATEWAYS))));
          gateways = (if listed = [] then DEFAULT_GATEWAYS else listed)
      in \<lparr>redisUrl_of = redisUrl readFile env,
          httpPort = num env ''PORT'' 3000,
          cfg_queue =
            \<lparr>qc_prefix = nullish (jget env ''QUEUE_PREFIX'') ''bull:payments'',
             workerPoolSize = num env ''QUEUE_WORKER_POOL_SIZE'' 2,
             backoffBaseMs = num env ''QUEUE_BACKOFF_BASE_MS'' 500,
             backoffJitter = num env ''QUEUE_BACKOFF_JITTER'' 30 / 100\<rparr>,
          cfg_idempotency =
            \<lparr>leaseTtlSeconds = num env ''IDEMPOTENCY_LEASE_TTL_SECONDS'' 600,
             retentionSeconds = num env ''IDEMPOTENCY_RETENTION_SECONDS'' 86400\<rparr>,
          cfg_rateLimiter =
            \<lparr>nominalRps = num env ''RATE_LIMIT_NOMINAL_RPS'' 20,
             burstFactor = num env ''RATE_LIMIT_BURST_FACTOR'' 2,
             minRateFactor = num env ''RATE_LIMIT_MIN_RATE_FACTOR'' (1/4),
             aiStepRps = num env ''RATE_LIMIT_AI_STEP_RPS'' 1,
             tokenWaitMs = num env ''RATE_LIMIT_TOKEN_WAIT_MS'' 15000\<rparr>,
          cfg_circuitBreaker =
            \<lparr>windowMs = num env ''CIRCUIT_BREAKER_WINDOW_MS'' 30000,
             failureThreshold = num env ''CIRCUIT_BREAKER_FAILURE_THRESHOLD'' (1/2),
             minSamples = num env ''CIRCUIT_BREAKER_MIN_SAMPLES'' 10,
             cooldownMs = num env ''CIRCUIT_BREAKER_COOLDOWN_MS'' 30000\<rparr>,
          cfg_metrics =
            \<lparr>windowSeconds = num env ''METRICS_WINDOW_SECONDS'' 60,
             broadcastIntervalMs = num env ''METRICS_BROADCAST_INTERVAL_MS'' 1000,
             errorRateAlert = num env ''METRICS_ERROR_RATE_ALERT'' (1/10),
             p95LatencyAlertMs = num env ''METRICS_P95_LATENCY_ALERT_MS'' 1000,
             queueDepthAlert = num env ''METRICS_QUEUE_DEPTH_ALERT'' 200,
             alertCooldownMs = num env ''METRICS_ALERT_COOLDOWN_MS'' 10000\<rparr>,
          cfg_tracing =
            \<lparr>serviceName = nullish (jget env ''OTEL_SERVICE_NAME'') ''queue-system'',
             otlpEndpoint = (if truthy (jget env ''OTEL_EXPORTER_OTLP_ENDPOINT'')
                             then jget env ''OTEL_EXPORTER_OTLP_ENDPOINT'' else None)\<rparr>,
          cfg_gateways = gateways\<rparr>)"

text \<open>The configuration of a process started with no variable set.\<close>

definition default_config :: app_config where
  "default_config = buildConfig (\<lambda>_. None) []"

subsection \<open>Properties of the configuration\<close>

lemma num_unset [simp]: "jget env key = None \<Longrightarrow> num env key d = d"
  by (simp add: num_def)

lemma gateways_nonempty: "cfg_gateways (buildConfig rf env) \<noteq> [] \<and> [] \<notin> set (cfg_gateways (buildConfig rf env))"
  by (auto simp: buildConfig_def Let_def DEFAULT_GATEWAYS_def)

lemma default_limits_ok: "params_ok (cfg_rateLimiter default_config)"
  by (simp add: default_config_def buildConfig_def params_ok_def Let_def)

end
