(* ===== verification/Idempotency.thy ===== *)
theory Idempotency
  imports Records App_Config
begin

text \<open>
  The two-phase idempotency of \<^verbatim>\<open>src/payments/idempotency.service.ts\<close>: a processing lease
  claimed with one atomic \<open>SET NX EX\<close>, the execution lock of the workers, and the final
  record with its retention time.
\<close>

datatype claim_result =
    Claim_new
  | Claim_conflict idempotency_record
  | Claim_replayed idempotency_record

definition parse_idem :: "payload option \<Rightarrow> idempotency_record option" where
  "parse_idem raw = (case raw of Some (P_idem r) \<Rightarrow> Some r | _ \<Rightarrow> None)"

definition idem_get :: "string \<Rightarrow> idempotency_record option async" where
  "idem_get paymentId = bind (redis_get (idem_key paymentId)) (\<lambda>raw. Ret (parse_idem raw))"

definition getTtlMs :: "string \<Rightarrow> int async" where
  "getTtlMs paymentId = redis_pttl (idem_key paymentId)"

definition processing_record :: "string \<Rightarrow> timestamp option \<Rightarrow> timestamp \<Rightarrow> idempotency_record" where
  "processing_record paymentId claimedAt now =
     \<lparr>i_paymentId = paymentId, i_state = Idem_PROCESSING, i_paymentStatus = None, i_transactionId = None,
      i_failureReason = None, i_claimedAt = Some (nullish claimedAt now), i_updatedAt = Some now\<rparr>"

definition acquireExecutionLock :: "app_config \<Rightarrow> string \<Rightarrow> bool async" where
  "acquireExecutionLock C paymentId =
     (let lockTtlSeconds = leaseTtlSeconds (cfg_idempotency C)
      in bind (redis_set_ex_nx (lock_key paymentId) (P_text ''1'') lockTtlSeconds) (\<lambda>acquired.
           if \<not> acquired then Ret False
           else
             bind (idem_get paymentId) (\<lambda>existing.
             bind date_now (\<lambda>now.
             bind (redis_set_ex (idem_key paymentId)
                     (P_idem (processing_record paymentId (Option.bind existing i_claimedAt) now)) lockTtlSeconds) (\<lambda>_.
               Ret True)))))"

definition releaseExecutionLock :: "string \<Rightarrow> unit async" where
  "releaseExecutionLock paymentId = redis_del (lock_key paymentId)"

definition claim :: "app_config \<Rightarrow> string \<Rightarrow> claim_result async" where
  "claim C paymentId =
     bind date_now (\<lambda>now.
     let record = processing_record paymentId None now
     in bind (redis_set_ex_nx (idem_key paymentId) (P_idem record) (leaseTtlSeconds (cfg_idempotency C))) (\<lambda>acquired.
          if acquired then Ret Claim_new
          else
            bind (idem_get paymentId) (\<lambda>existing.
              Ret (case existing of
                     None \<Rightarrow> Claim_conflict record
                   | Some r \<Rightarrow> if i_state r = Idem_PROCESSING then Claim_conflict r else Claim_replayed r))))"

definition idem_release :: "string \<Rightarrow> unit async" where
  "idem_release paymentId = redis_del (idem_key paymentId)"

record finalize_input =
  fi_state :: idempotency_state
  fi_paymentStatus :: "payment_status option"
  fi_transactionId :: "string option"
  fi_failureReason :: "string option"

definition finalize :: "app_config \<Rightarrow> string \<Rightarrow> finalize_input \<Rightarrow> unit async" where
  "finalize C paymentId input =
     bind (idem_get paymentId) (\<lambda>previous.
     bind date_now (\<lambda>now.
       redis_set_ex (idem_key paymentId)
         (P_idem \<lparr>i_paymentId = paymentId, i_state = fi_state input, i_paymentStatus = fi_paymentStatus input,
                  i_transactionId = fi_transactionId input, i_failureReason = fi_failureReason input,
                  i_claimedAt = Some (nullish (Option.bind previous i_claimedAt) now), i_updatedAt = Some now\<rparr>)
         (retentionSeconds (cfg_idempotency C))))"

end
