(* ===== verification/Tracing.thy ===== *)
theory Tracing
  imports Process_Memory
begin

text \<open>
  Tracing and correlation: \<^verbatim>\<open>src/tracing/tracing.service.ts\<close>, the correlation middleware of
  \<^verbatim>\<open>src/common/correlation.middleware.ts\<close> and the line format of
  \<^verbatim>\<open>src/common/trace-logger.ts\<close>. The OpenTelemetry SDK is reached through the span calls of
  theory \<open>Environment\<close>; its API does not throw, so their replies are ignored. The main lemma
  is that \<open>withSpan\<close> is transparent to the code it wraps.
\<close>

datatype span_name = SPAN_PROCESS | SPAN_ENQUEUE | SPAN_RESERVE | SPAN_CHARGE | SPAN_SETTLE | SPAN_COMPENSATION | SPAN_DLQ

primrec SPAN_NAMES :: "span_name \<Rightarrow> string" where
  "SPAN_NAMES SPAN_PROCESS = ''payment.process''"
| "SPAN_NAMES SPAN_ENQUEUE = ''payment.enqueue''"
| "SPAN_NAMES SPAN_RESERVE = ''payment.saga.reserve''"
| "SPAN_NAMES SPAN_CHARGE = ''payment.saga.charge''"
| "SPAN_NAMES SPAN_SETTLE = ''payment.saga.settle''"
| "SPAN_NAMES SPAN_COMPENSATION = ''payment.saga.compensation''"
| "SPAN_NAMES SPAN_DLQ = ''payment.dead_letter''"

type_synonym span_attributes = "(string \<times> string option) list"

text \<open>\<open>undefined\<close> attributes are dropped.\<close>

fun cleanAttributes :: "span_attributes \<Rightarrow> (string \<times> string) list" where
  "cleanAttributes [] = []"
| "cleanAttributes ((key, Some v) # rest) = (key, v) # cleanAttributes rest"
| "cleanAttributes ((key, None) # rest) = cleanAttributes rest"

definition span_start :: "span_name \<Rightarrow> span_attributes \<Rightarrow> nat async" where
  "span_start name attributes =
     Call (Span_start (SPAN_NAMES name) (cleanAttributes attributes)) (\<lambda>r. Ret (case r of R_handle h \<Rightarrow> h | _ \<Rightarrow> 0))"

definition span_call :: "cmd \<Rightarrow> unit async" where
  "span_call c = Call c (\<lambda>_. Ret ())"

definition withSpan :: "span_name \<Rightarrow> span_attributes \<Rightarrow> 'a async \<Rightarrow> 'a async" where
  "withSpan name attributes fn =
     bind (span_start name attributes) (\<lambda>span.
       finally_do
         (catch (bind fn (\<lambda>result. bind (span_call (Span_ok span)) (\<lambda>_. Ret result)))
                (\<lambda>err. bind (span_call (Span_error span)) (\<lambda>_. Throw err)))
         (span_call (Span_end span)))"

subsection \<open>Correlation\<close>

text \<open>
  \<open>fresh\<close> is the id \<open>newCorrelationId()\<close> generates. The result is the id of the request:
  the one bound to the asynchronous context and the one echoed in the response header.
\<close>

definition correlation_use :: "string option \<Rightarrow> string \<Rightarrow> string" where
  "correlation_use incoming fresh = (case incoming of Some h \<Rightarrow> if h \<noteq> [] then h else fresh | None \<Rightarrow> fresh)"

definition trace_format :: "string option \<Rightarrow> string \<Rightarrow> string" where
  "trace_format correlationId message =
     (case correlationId of Some c \<Rightarrow> if c \<noteq> [] then ''[corr:'' @ c @ ''] '' @ message else message | None \<Rightarrow> message)"

subsection \<open>Spans are transparent\<close>

lemma cleanAttributes_defined: "(k, v) \<in> set (cleanAttributes as) \<longleftrightarrow> (k, Some v) \<in> set as"
  by (induction as rule: cleanAttributes.induct) auto

lemma wp_span_start [simp]:
  "wp H (span_start n as) Q m w =
     (case H (Span_start (SPAN_NAMES n) (cleanAttributes as)) w of (r, w') \<Rightarrow> Q (Inr (case r of R_handle h \<Rightarrow> h | _ \<Rightarrow> 0)) m w')"
  by (simp add: span_start_def wp_Call)

lemma wp_span_call [simp]: "wp H (span_call c) Q m w = Q (Inr ()) m (snd (H c w))"
  by (simp add: span_call_def wp_Call case_prod_unfold)

text \<open>\<open>quiet clock ks w w'\<close>: time passed and the keyspace did not change.\<close>

definition quiet :: "('w \<Rightarrow> timestamp) \<Rightarrow> ('w \<Rightarrow> keyspace) \<Rightarrow> 'w \<Rightarrow> 'w \<Rightarrow> bool" where
  "quiet clock ks w w' \<longleftrightarrow> clock w \<le> clock w' \<and> ks w' = ks w"

lemma quiet_refl [simp]: "quiet clock ks w w"
  by (simp add: quiet_def)

lemma quiet_trans [trans]: "quiet clock ks u v \<Longrightarrow> quiet clock ks v w \<Longrightarrow> quiet clock ks u w"
  by (simp add: quiet_def)

context js_world
begin

text \<open>The span neither changes the outcome of the wrapped code nor touches the memory.\<close>

lemma wp_withSpan:
  assumes "\<And>w0. clock w \<le> clock w0 \<Longrightarrow>
     wp H fn (\<lambda>r m' w1. \<forall>w2. clock w1 \<le> clock w2 \<longrightarrow> Q r m' w2) m w0"
  shows "wp H (withSpan n as fn) Q m w"
proof -
  obtain h w0 where h: "H (Span_start (SPAN_NAMES n) (cleanAttributes as)) w = (h, w0)" by fastforce
  then have "clock w \<le> clock w0" using clock_mono [of w "Span_start (SPAN_NAMES n) (cleanAttributes as)"] by simp
  from assms [OF this] show ?thesis
    unfolding withSpan_def wp_bind wp_span_start h prod.case sum.case wp_finally wp_catch wp_span_call
    by (elim wp_mono) (auto split: sum.splits intro!: order_trans [OF clock_mono clock_mono])
qed

end

context redis_world
begin

lemma quiet_call: "\<not> is_redis c \<Longrightarrow> quiet clock ks w (snd (H c w))"
  by (simp add: quiet_def clock_mono frame)

text \<open>The same with the keyspace: only the wrapped code changes it.\<close>

lemma wp_withSpan_keys:
  assumes "\<And>w0. quiet clock ks w w0 \<Longrightarrow> wp H fn (\<lambda>r m' w1. \<forall>w2. quiet clock ks w1 w2 \<longrightarrow> Q r m' w2) m w0"
  shows "wp H (withSpan n as fn) Q m w"
proof -
  obtain h w0 where h: "H (Span_start (SPAN_NAMES n) (cleanAttributes as)) w = (h, w0)" by fastforce
  then have "quiet clock ks w w0" using quiet_call [of "Span_start (SPAN_NAMES n) (cleanAttributes as)" w] by simp
  have two: "quiet clock ks w1 (snd (H (Span_end i) (snd (H c w1))))" if "\<not> is_redis c" for w1 i c
    using quiet_call [OF that] quiet_call [of "Span_end i"] quiet_trans by force
  from assms [OF \<open>quiet clock ks w w0\<close>] show ?thesis
    unfolding withSpan_def wp_bind wp_span_start h prod.case sum.case wp_finally wp_catch wp_span_call
    by (elim wp_mono) (auto split: sum.splits simp: two)
qed

end

end
