(* ===== verification/Queue_Manager.thy ===== *)
theory Queue_Manager
  imports Tracing App_Config
begin

text \<open>
  The queue manager of \<^verbatim>\<open>src/queue/queue-manager.service.ts\<close>: one BullMQ queue and one
  worker pool per gateway, provisioned on first use, the dead letter queue, and the
  handler of the workers' \<open>failed\<close> event. BullMQ queues, workers and Redis clients are
  external objects behind the calls of theory \<open>Environment\<close>, known by their queue name or
  by a handle; a runtime is known by its gateway id.
\<close>

record enqueue_input =
  ei_gatewayId :: string
  ei_paymentId :: string
  ei_correlationId :: "string option"
  ei_priority :: priority
  ei_maxRetries :: int
  ei_delayMs :: "rat option"
  ei_jobId :: string

record queue_depths =
  qd_gatewayId :: string
  qd_queueName :: string
  qd_waiting :: int
  qd_active :: int
  qd_delayed :: int
  qd_failed :: int

text \<open>The part of a BullMQ job the program reads.\<close>

record job =
  jb_id :: string
  jb_data :: job_data
  jb_attemptsMade :: int
  jb_attempts :: "int option"

definition queue_char :: "char \<Rightarrow> bool" where
  "queue_char c = (let n = of_char c :: nat in (97 \<le> n \<and> n \<le> 122) \<or> (48 \<le> n \<and> n \<le> 57) \<or> n = 45)"

definition queueNameFor :: "string \<Rightarrow> string" where
  "queueNameFor gatewayId = take 60 (map (\<lambda>c. if queue_char c then c else CHR ''-'') (map to_lower gatewayId))"

definition getGatewayIds :: "mem \<Rightarrow> string list" where
  "getGatewayIds m = jkeys (m_runtimes m)"

definition workers_of :: "mem \<Rightarrow> string \<Rightarrow> (nat \<times> nat) list" where
  "workers_of m gid = (case jget (m_runtimes m) gid of None \<Rightarrow> [] | Some rt \<Rightarrow> rt_workers rt)"

definition set_workers :: "string \<Rightarrow> (nat \<times> nat) list \<Rightarrow> mem \<Rightarrow> mem" where
  "set_workers gid ws m =
     (case jget (m_runtimes m) gid of
        None \<Rightarrow> m
      | Some rt \<Rightarrow> m\<lparr>m_runtimes := jset (m_runtimes m) gid (rt\<lparr>rt_workers := ws\<rparr>)\<rparr>)"

definition newClient :: "nat async" where
  "newClient = ext_handle Client_new"

text \<open>
  \<open>scaleWorkers\<close>: a loop that adds workers one at a time, then one that closes the last
  worker. \<open>n\<close> is fuel; the loops of one call make at most \<open>\<lceil>target\<rceil> + 1\<close> and
  \<open>length workers + 1\<close> passes (a negative target makes the second loop spin forever on
  the empty list).
\<close>

primrec grow_workers :: "nat \<Rightarrow> string \<Rightarrow> string \<Rightarrow> rat \<Rightarrow> unit async" where
  "grow_workers 0 gid queueName target = Diverge"
| "grow_workers (Suc n) gid queueName target =
     Get (\<lambda>m. if of_nat (length (workers_of m gid)) < target
              then
                bind newClient (\<lambda>client.
                bind (ext_handle (Worker_new queueName client)) (\<lambda>worker.
                bind (modify (\<lambda>m. set_workers gid (workers_of m gid @ [(worker, client)]) m)) (\<lambda>_.
                  grow_workers n gid queueName target)))
              else Ret ())"

primrec shrink_workers :: "nat \<Rightarrow> string \<Rightarrow> rat \<Rightarrow> unit async" where
  "shrink_workers 0 gid target = Diverge"
| "shrink_workers (Suc n) gid target =
     Get (\<lambda>m. if of_nat (length (workers_of m gid)) > target
              then
                if workers_of m gid = [] then shrink_workers n gid target
                else let (worker, client) = last (workers_of m gid)
                in bind (modify (set_workers gid (butlast (workers_of m gid)))) (\<lambda>_.
                   bind (ext_unit (Worker_close worker)) (\<lambda>_.
                   bind (ext_unit (Client_disconnect client)) (\<lambda>_.
                     shrink_workers n gid target)))
              else Ret ())"

definition scaleWorkers :: "string \<Rightarrow> string \<Rightarrow> rat \<Rightarrow> unit async" where
  "scaleWorkers gid queueName target =
     bind (grow_workers (nat \<lceil>target\<rceil> + 1) gid queueName target) (\<lambda>_.
       Get (\<lambda>m. shrink_workers (length (workers_of m gid) + 1) gid target))"

definition ensureGateway :: "app_config \<Rightarrow> string \<Rightarrow> string async" where
  "ensureGateway C gatewayId =
     Get (\<lambda>m. case jget (m_runtimes m) gatewayId of
        Some existing \<Rightarrow> Ret (rt_queueName existing)
      | None \<Rightarrow>
          let queueName = queueNameFor gatewayId
          in bind newClient (\<lambda>queueClient.
             bind (ext_unit (Queue_new queueName queueClient)) (\<lambda>_.
             bind (modify (\<lambda>m. m\<lparr>m_runtimes := jset (m_runtimes m) gatewayId
                      \<lparr>rt_gatewayId = gatewayId, rt_queueName = queueName, rt_queueClient = queueClient, rt_workers = []\<rparr>\<rparr>)) (\<lambda>_.
             bind (scaleWorkers gatewayId queueName (workerPoolSize (cfg_queue C))) (\<lambda>_.
               Ret queueName)))))"

text \<open>The body the workers run, with the correlation id it binds, and the handler of \<open>failed\<close>.\<close>

definition worker_context :: "job_data \<Rightarrow> string" where
  "worker_context d = nullish (j_correlationId d) (j_paymentId d)"

definition worker_run :: "(job \<Rightarrow> 'a async) option \<Rightarrow> job \<Rightarrow> 'a async" where
  "worker_run processor job =
     (case processor of Some p \<Rightarrow> p job | None \<Rightarrow> Throw (JsError ''payment processor not registered''))"

definition worker_failed :: "(job_data \<Rightarrow> exn \<Rightarrow> unit async) option \<Rightarrow> job option \<Rightarrow> exn \<Rightarrow> unit async" where
  "worker_failed failureHandler job err =
     (case job of
        None \<Rightarrow> Ret ()
      | Some j \<Rightarrow>
          (let attempts = nullish (jb_attempts j) 1; exhausted = (jb_attemptsMade j \<ge> attempts)
           in case failureHandler of
                Some h \<Rightarrow> if exhausted then catch (h (jb_data j) err) (\<lambda>e. Ret ()) else Ret ()
              | None \<Rightarrow> Ret ()))"

definition queues_do :: "(string \<Rightarrow> cmd) \<Rightarrow> unit async" where
  "queues_do c = Get (\<lambda>m. block (map (\<lambda>rt. ext_unit (c (rt_queueName rt))) (jvalues (m_runtimes m))))"

definition queue_pause :: "app_config \<Rightarrow> string option \<Rightarrow> unit async" where
  "queue_pause C gatewayId =
     (if truthy gatewayId
      then bind (ensureGateway C (nullish gatewayId [])) (\<lambda>q. ext_unit (Queue_pause q))
      else queues_do Queue_pause)"

definition queue_resume :: "app_config \<Rightarrow> string option \<Rightarrow> unit async" where
  "queue_resume C gatewayId =
     (if truthy gatewayId
      then bind (ensureGateway C (nullish gatewayId [])) (\<lambda>q. ext_unit (Queue_resume q))
      else queues_do Queue_resume)"

definition job_options :: "app_config \<Rightarrow> enqueue_input \<Rightarrow> job_opts" where
  "job_options C input =
     \<lparr>jo_jobId = ei_jobId input, jo_priority = Some (PRIORITY_TO_NUMERIC (ei_priority input)),
      jo_delay = (case ei_delayMs input of None \<Rightarrow> 0 | Some d \<Rightarrow> if d = 0 then 0 else max 1 (js_round d)),
      jo_attempts = ei_maxRetries input + 1,
      jo_backoffDelay = backoffBaseMs (cfg_queue C), jo_backoffJitter = backoffJitter (cfg_queue C),
      jo_removeOnComplete = True\<rparr>"

definition enqueue :: "app_config \<Rightarrow> enqueue_input \<Rightarrow> unit async" where
  "enqueue C input =
     bind (ensureGateway C (ei_gatewayId input)) (\<lambda>q.
       ext_unit (Queue_add q QUEUE_JOB_NAME
         (Job_payment \<lparr>j_paymentId = ei_paymentId input, j_correlationId = ei_correlationId input\<rparr>)
         (job_options C input)))"

definition dlqQueue :: "unit async" where
  "dlqQueue =
     Get (\<lambda>m. case m_dlqClient m of
        Some _ \<Rightarrow> Ret ()
      | None \<Rightarrow>
          bind newClient (\<lambda>client.
          bind (modify (\<lambda>m. m\<lparr>m_dlqClient := Some client\<rparr>)) (\<lambda>_.
            ext_unit (Queue_new DLQ_QUEUE_NAME client))))"

definition routeToDlq :: "dlq_entry \<Rightarrow> unit async" where
  "routeToDlq entry =
     bind dlqQueue (\<lambda>_.
       ext_unit (Queue_add DLQ_QUEUE_NAME DLQ_JOB_NAME (Job_dlq entry)
         \<lparr>jo_jobId = de_paymentId entry, jo_priority = None, jo_delay = 0, jo_attempts = 1,
          jo_backoffDelay = 0, jo_backoffJitter = 0, jo_removeOnComplete = False\<rparr>))"

text \<open>
  The entries of the dead letter queue. Only \<open>routeToDlq\<close> writes to it as long as no gateway
  is named like it; a payment job that such a gateway puts there is left out of the list.
\<close>

definition dlq_jobs :: "(string \<times> job_payload) list \<Rightarrow> (string \<times> dlq_entry) list" where
  "dlq_jobs jobs = List.map_filter (\<lambda>(i, p). case p of Job_dlq e \<Rightarrow> Some (i, e) | Job_payment d \<Rightarrow> None) jobs"

text \<open>ISO timestamps compare as strings in the order of time; \<open>sort\<close> is stable.\<close>

definition listDlq :: "(string \<times> dlq_entry) list async" where
  "listDlq =
     bind dlqQueue (\<lambda>_.
       Call (Queue_jobs DLQ_QUEUE_NAME) (\<lambda>r. case r of
         R_jobs jobs \<Rightarrow> Ret (sort_key (\<lambda>(i, e). de_deadLetteredAt e) (dlq_jobs jobs))
       | _ \<Rightarrow> unexpected r))"

definition queue_counts :: "string \<Rightarrow> job_counts async" where
  "queue_counts q = Call (Queue_counts q) (\<lambda>r. case r of R_counts c \<Rightarrow> Ret c | _ \<Rightarrow> unexpected r)"

definition gateway_depths :: "gateway_runtime \<Rightarrow> job_counts \<Rightarrow> queue_depths" where
  "gateway_depths rt c =
     \<lparr>qd_gatewayId = rt_gatewayId rt, qd_queueName = rt_queueName rt,
      qd_waiting = nullish (jc_waiting c) 0 + nullish (jc_prioritized c) 0, qd_active = nullish (jc_active c) 0,
      qd_delayed = nullish (jc_delayed c) 0, qd_failed = nullish (jc_failed c) 0\<rparr>"

primrec depths_loop :: "gateway_runtime list \<Rightarrow> queue_depths list async" where
  "depths_loop [] = Ret []"
| "depths_loop (rt # rts) =
     bind (queue_counts (rt_queueName rt)) (\<lambda>c. bind (depths_loop rts) (\<lambda>rest. Ret (gateway_depths rt c # rest)))"

definition collectQueueDepths :: "(queue_depths list \<times> queue_depths) async" where
  "collectQueueDepths =
     Get (\<lambda>m. bind (depths_loop (jvalues (m_runtimes m))) (\<lambda>gateways.
       bind dlqQueue (\<lambda>_.
       bind (queue_counts DLQ_QUEUE_NAME) (\<lambda>c.
         Ret (gateways, \<lparr>qd_gatewayId = DLQ_QUEUE_NAME, qd_queueName = DLQ_QUEUE_NAME,
                         qd_waiting = nullish (jc_waiting c) 0, qd_active = nullish (jc_active c) 0,
                         qd_delayed = nullish (jc_delayed c) 0, qd_failed = nullish (jc_failed c) 0\<rparr>)))))"

definition setWorkerPoolSize :: "app_config \<Rightarrow> string \<Rightarrow> rat \<Rightarrow> unit async" where
  "setWorkerPoolSize C gatewayId sz =
     (if sz < 0 \<or> of_int \<lfloor>sz\<rfloor> \<noteq> sz then Throw (JsError ''worker pool size must be a non-negative integer'')
      else bind (ensureGateway C gatewayId) (\<lambda>q. scaleWorkers gatewayId q sz))"

definition getWorkerPoolSize :: "mem \<Rightarrow> string \<Rightarrow> nat" where
  "getWorkerPoolSize m gatewayId = length (workers_of m gatewayId)"

text \<open>
  Shutdown: the closing promises are all awaited and their failures ignored
  (\<open>Promise.allSettled\<close>), then every client is disconnected. The forced close of a worker
  after fifteen seconds is part of what \<open>Worker_close\<close> stands for.
\<close>

definition settled :: "unit async \<Rightarrow> unit async" where
  "settled p = catch p (\<lambda>_. Ret ())"

definition closeWorkerGracefully :: "nat \<Rightarrow> unit async" where
  "closeWorkerGracefully worker = settled (ext_unit (Worker_close worker))"

definition onApplicationShutdown :: "unit async" where
  "onApplicationShutdown =
     Get (\<lambda>m. bind (block (concat (map (\<lambda>rt. map (\<lambda>(worker, client). closeWorkerGracefully worker) (rt_workers rt) @
                       [settled (ext_unit (Queue_close (rt_queueName rt)))]) (jvalues (m_runtimes m))) @
                  (case m_dlqClient m of None \<Rightarrow> [] | Some _ \<Rightarrow> [settled (ext_unit (Queue_close DLQ_QUEUE_NAME))]))) (\<lambda>_.
       block (concat (map (\<lambda>rt. ext_unit (Client_disconnect (rt_queueClient rt)) #
                     map (\<lambda>(worker, client). ext_unit (Client_disconnect client)) (rt_workers rt)) (jvalues (m_runtimes m))) @
              (case m_dlqClient m of None \<Rightarrow> [] | Some client \<Rightarrow> [ext_unit (Client_disconnect client)]))))"

subsection \<open>Queues that accept\<close>

text \<open>The BullMQ calls succeed: no call outside Redis fails, and new clients and workers have handles.\<close>

definition queues_ok :: "(cmd \<Rightarrow> 'w \<Rightarrow> reply \<times> 'w) \<Rightarrow> bool" where
  "queues_ok H \<longleftrightarrow>
     (\<forall>c w. \<not> is_redis c \<longrightarrow> (\<forall>e. fst (H c w) \<noteq> R_error e)) \<and> (\<forall>w. \<exists>h. fst (H Client_new w) = R_handle h) \<and>
     (\<forall>q c w. \<exists>h. fst (H (Worker_new q c) w) = R_handle h)"

lemma world_queues_ok: "queues_ok world_step"
proof -
  have "fst (world_step c w) \<noteq> R_error e" if "\<not> is_redis c" for c w e
    using that by (cases c) auto
  then show ?thesis by (auto simp: queues_ok_def)
qed

lemma wp_ext_unit:
  assumes "\<not> is_redis c" and "\<And>e w'. \<not> queues_ok H \<Longrightarrow> Q (Inl (JsError e)) m w'" and "\<And>w'. Q (Inr ()) m w'"
  shows "wp H (ext_unit c) Q m w"
proof -
  have "fst (H c w) \<noteq> R_error e" if "queues_ok H" for e using that assms(1) by (simp add: queues_ok_def)
  with assms(2,3) show ?thesis
    by (cases "fst (H c w)") (auto simp: ext_unit_def wp_Call case_prod_unfold unexpected_def)
qed

lemma wp_newClient:
  assumes "\<And>e w'. \<not> queues_ok H \<Longrightarrow> Q (Inl (JsError e)) m w'" and "\<And>h w'. Q (Inr h) m w'"
  shows "wp H newClient Q m w"
proof (cases "queues_ok H")
  case True
  then obtain h where "fst (H Client_new w) = R_handle h" unfolding queues_ok_def by blast
  with assms(2) show ?thesis by (simp add: newClient_def ext_handle_def wp_Call case_prod_unfold)
next
  case False
  with assms show ?thesis
    by (cases "fst (H Client_new w)") (auto simp: newClient_def ext_handle_def wp_Call case_prod_unfold unexpected_def)
qed

subsection \<open>Worker pools\<close>

lemma wp_handle_ok:
  assumes "queues_ok H" and "\<And>h w'. Q (Inr h) m w'"
  shows "wp H newClient Q m w" "wp H (ext_handle (Worker_new q c)) Q m w"
proof -
  obtain h1 h2 where "fst (H Client_new w) = R_handle h1" "fst (H (Worker_new q c) w) = R_handle h2"
    using assms(1) unfolding queues_ok_def by blast
  with assms(2) show "wp H newClient Q m w" "wp H (ext_handle (Worker_new q c)) Q m w"
    by (simp_all add: newClient_def ext_handle_def wp_Call case_prod_unfold)
qed

lemma workers_frame [simp]:
  "jget (m_runtimes m) gid = Some rt \<Longrightarrow> workers_of (set_workers gid ws m) gid = ws"
  "set_workers gid ws (set_workers gid ws' m) = set_workers gid ws m"
  "jget (m_runtimes m) gid = Some rt \<Longrightarrow> jget (m_runtimes (set_workers gid ws m)) gid = Some (rt\<lparr>rt_workers := ws\<rparr>)"
  "x \<noteq> gid \<Longrightarrow> jget (m_runtimes (set_workers gid ws m)) x = jget (m_runtimes m) x"
  by (auto simp: workers_of_def set_workers_def jget_def jset_def update_conv' split: option.split)

lemma set_workers_same: "set_workers gid (workers_of m gid) m = m"
proof (cases "jget (m_runtimes m) gid")
  case (Some rt)
  then have "jset (m_runtimes m) gid rt = m_runtimes m" by (simp add: jset_def jget_def map_of_is_SomeI update_triv)
  with Some show ?thesis by (simp add: set_workers_def workers_of_def)
qed (simp add: set_workers_def)

lemma wp_grow:
  assumes "queues_ok H" and "jget (m_runtimes m) gid = Some rt" and "k - length (workers_of m gid) < n"
  shows "wp H (grow_workers n gid q (of_nat k)) (\<lambda>r m' w'. r = Inr () \<and> (\<exists>extra. m' = set_workers gid (workers_of m gid @ extra) m \<and>
     length extra = k - length (workers_of m gid))) m w"
  using assms(2,3)
proof (induction n arbitrary: m rt w)
  case (Suc n)
  show ?case
  proof (cases "length (workers_of m gid) < k")
    case True
    have step: "wp H (grow_workers n gid q (of_nat k)) (\<lambda>r m' w'. r = Inr () \<and> (\<exists>extra. m' = set_workers gid (workers_of m gid @ extra) m \<and>
       length extra = k - length (workers_of m gid))) (set_workers gid (workers_of m gid @ [x]) m) w1" for x w1
    proof (rule wp_mono [OF Suc.IH])
      show "jget (m_runtimes (set_workers gid (workers_of m gid @ [x]) m)) gid = Some (rt\<lparr>rt_workers := workers_of m gid @ [x]\<rparr>)"
        using Suc.prems(1) by simp
      show "k - length (workers_of (set_workers gid (workers_of m gid @ [x]) m) gid) < n" using Suc.prems True by simp
    next
      fix r m' w'
      assume "r = Inr () \<and> (\<exists>extra. m' = set_workers gid (workers_of (set_workers gid (workers_of m gid @ [x]) m) gid @ extra)
          (set_workers gid (workers_of m gid @ [x]) m) \<and>
        length extra = k - length (workers_of (set_workers gid (workers_of m gid @ [x]) m) gid))"
      then obtain extra where "r = Inr ()" "m' = set_workers gid (workers_of m gid @ x # extra) m" "length (x # extra) = k - length (workers_of m gid)"
        using Suc.prems True by auto
      then show "r = Inr () \<and> (\<exists>extra. m' = set_workers gid (workers_of m gid @ extra) m \<and> length extra = k - length (workers_of m gid))"
        by blast
    qed
    show ?thesis using True
      by (simp, intro wp_handle_ok [OF assms(1)]) (auto intro!: wp_handle_ok [OF assms(1)] step)
  next
    case False
    then show ?thesis by (simp add: set_workers_same)
  qed
qed simp

lemma wp_shrink:
  assumes "queues_ok H" and "jget (m_runtimes m) gid = Some rt" and "length (workers_of m gid) - k < n"
  shows "wp H (shrink_workers n gid (of_nat k)) (\<lambda>r m' w'. r = Inr () \<and> m' = set_workers gid (take k (workers_of m gid)) m) m w"
  using assms(2,3)
proof (induction n arbitrary: m rt w)
  case (Suc n)
  show ?case
  proof (cases "k < length (workers_of m gid)")
    case True
    let ?m1 = "set_workers gid (butlast (workers_of m gid)) m"
    have t: "take k (butlast (workers_of m gid)) = take k (workers_of m gid)" using True by (simp add: butlast_conv_take)
    have "wp H (shrink_workers n gid (of_nat k)) (\<lambda>r m' w'. r = Inr () \<and> m' = set_workers gid (take k (workers_of m gid)) m) ?m1 w1" for w1
      by (rule wp_mono [OF Suc.IH [of ?m1 "rt\<lparr>rt_workers := butlast (workers_of m gid)\<rparr>"]]) (use Suc.prems True t in auto)
    with True assms(1) show ?thesis
      by (auto simp: case_prod_unfold Let_def intro!: wp_ext_unit)
  next
    case False
    then show ?thesis by (simp add: set_workers_same)
  qed
qed simp


text \<open>
  A target that is not an integer counts as its ceiling while the pool grows and as its
  floor while it shrinks.
\<close>

lemma grow_ceiling: "grow_workers n gid q t = grow_workers n gid q (of_nat (nat \<lceil>t\<rceil>))"
proof (induction n)
  case (Suc n)
  have "of_nat k < t \<longleftrightarrow> of_nat k < (of_nat (nat \<lceil>t\<rceil>) :: rat)" for k
    by (metis less_ceiling_iff of_int_of_nat_eq of_nat_less_iff zless_nat_conj zless_nat_eq_int_zless)
  then show ?case by (simp only: grow_workers.simps Suc [symmetric])
qed simp

lemma shrink_floor:
  assumes "0 \<le> t" shows "shrink_workers n gid t = shrink_workers n gid (of_nat (nat \<lfloor>t\<rfloor>))"
proof (induction n)
  case (Suc n)
  have "of_nat k > t \<longleftrightarrow> of_nat k > (of_nat (nat \<lfloor>t\<rfloor>) :: rat)" for k
    using assms by (metis floor_less_iff nat_less_iff of_int_of_nat_eq of_nat_less_iff zero_le_floor)
  then show ?case by (simp only: shrink_workers.simps Suc [symmetric])
qed simp

lemma wp_scale:
  assumes ok: "queues_ok H" and rt: "jget (m_runtimes m) gid = Some rt" and t: "0 \<le> t"
  shows "wp H (scaleWorkers gid q t) (\<lambda>r m' w'. r = Inr () \<and> (\<exists>extra. m' = set_workers gid (take (nat \<lfloor>t\<rfloor>) (workers_of m gid) @ extra) m \<and>
     length extra = nat \<lfloor>t\<rfloor> - length (workers_of m gid))) m w"
proof -
  let ?old = "workers_of m gid"
  have shrunk: "wp H (shrink_workers (length (workers_of m' gid) + 1) gid t)
      (\<lambda>r m'' w'. r = Inr () \<and> (\<exists>extra. m'' = set_workers gid (take (nat \<lfloor>t\<rfloor>) ?old @ extra) m \<and> length extra = nat \<lfloor>t\<rfloor> - length ?old)) m' w'"
    if m': "m' = set_workers gid (?old @ extra) m" and len: "length extra = nat \<lceil>t\<rceil> - length ?old" for m' w' extra
  proof (rule wp_mono)
    show "wp H (shrink_workers (length (workers_of m' gid) + 1) gid t)
        (\<lambda>r m'' w'. r = Inr () \<and> m'' = set_workers gid (take (nat \<lfloor>t\<rfloor>) (workers_of m' gid)) m') m' w'"
      unfolding shrink_floor [OF t] by (rule wp_shrink [OF ok]) (use rt m' in auto)
    have "nat \<lfloor>t\<rfloor> \<le> nat \<lceil>t\<rceil>" by (intro nat_mono) linarith
    then have "length (take (nat \<lfloor>t\<rfloor> - length ?old) extra) = nat \<lfloor>t\<rfloor> - length ?old" using len by simp
    moreover have "take (nat \<lfloor>t\<rfloor>) (workers_of m' gid) = take (nat \<lfloor>t\<rfloor>) ?old @ take (nat \<lfloor>t\<rfloor> - length ?old) extra"
      using rt m' by simp
    ultimately show "r = Inr () \<and> m'' = set_workers gid (take (nat \<lfloor>t\<rfloor>) (workers_of m' gid)) m' \<Longrightarrow>
        r = Inr () \<and> (\<exists>extra. m'' = set_workers gid (take (nat \<lfloor>t\<rfloor>) ?old @ extra) m \<and> length extra = nat \<lfloor>t\<rfloor> - length ?old)" for r m''
      using m' by auto
  qed
  have "wp H (grow_workers (nat \<lceil>t\<rceil> + 1) gid q t) (\<lambda>r m' w'. r = Inr () \<and> (\<exists>extra. m' = set_workers gid (?old @ extra) m \<and>
      length extra = nat \<lceil>t\<rceil> - length ?old)) m w"
    unfolding grow_ceiling [of _ _ _ t] by (rule wp_grow [OF ok rt]) simp
  then show ?thesis unfolding scaleWorkers_def wp_bind
    by (rule wp_mono) (elim conjE exE, use shrunk in \<open>simp only: sum.case wp_Get\<close>)
qed

lemma wp_ext_unit_ok: "queues_ok H \<Longrightarrow> \<not> is_redis c \<Longrightarrow> wp H (ext_unit c) Q m w = Q (Inr ()) m (snd (H c w))"
  by (cases "fst (H c w)") (auto simp: ext_unit_def wp_Call case_prod_unfold queues_ok_def)

lemma shrink_spins:
  assumes ok: "queues_ok H" and "t < 0"
  shows "\<not> wp H (shrink_workers n gid t) Q m w"
proof (induction n arbitrary: m w)
  case (Suc n)
  have "t < of_nat k" for k using assms(2) by (rule less_le_trans) simp
  then show ?case
    using Suc by (simp add: case_prod_unfold Let_def wp_ext_unit_ok [OF ok] del: of_nat_less_iff)
qed simp


lemma scale_spins:
  assumes "queues_ok H" and "t < 0"
  shows "\<not> wp H (scaleWorkers gid q t) Q m w"
proof -
  have "\<not> of_nat k < t" for k using assms(2) by (metis not_less of_nat_0_le_iff order.strict_trans2 order_less_imp_le)
  then show ?thesis by (simp add: scaleWorkers_def shrink_spins [OF assms] del: shrink_workers.simps)
qed

subsection \<open>Provisioning\<close>

definition provisioned :: "app_config \<Rightarrow> string \<Rightarrow> mem \<Rightarrow> mem \<Rightarrow> bool" where
  "provisioned C gid m m' \<longleftrightarrow>
     (case jget (m_runtimes m) gid of
        Some rt \<Rightarrow> m' = m
      | None \<Rightarrow> (\<exists>client ws. length ws = nat \<lfloor>workerPoolSize (cfg_queue C)\<rfloor> \<and>
          m' = m\<lparr>m_runtimes := jset (m_runtimes m) gid
            \<lparr>rt_gatewayId = gid, rt_queueName = queueNameFor gid, rt_queueClient = client, rt_workers = ws\<rparr>\<rparr>))"

lemma provisioned_runtime:
  assumes "provisioned C gid m m'"
  shows "\<exists>rt. jget (m_runtimes m') gid = Some rt" "x \<noteq> gid \<Longrightarrow> jget (m_runtimes m') x = jget (m_runtimes m) x"
    "m'\<lparr>m_runtimes := m_runtimes m\<rparr> = m"
  using assms by (auto simp: provisioned_def jget_def jset_def update_conv' split: option.splits)

lemma wp_ensure:
  assumes ok: "queues_ok H" and pool: "0 \<le> workerPoolSize (cfg_queue C)"
  shows "wp H (ensureGateway C gid) (\<lambda>r m' w'. provisioned C gid m m' \<and>
     (\<exists>rt. jget (m_runtimes m') gid = Some rt \<and> r = Inr (rt_queueName rt))) m w"
proof (cases "jget (m_runtimes m) gid")
  case None
  have scaled: "wp H (scaleWorkers gid (queueNameFor gid) (workerPoolSize (cfg_queue C)))
      (\<lambda>r m' w'. r = Inr () \<and> provisioned C gid m m' \<and> (\<exists>rt. jget (m_runtimes m') gid = Some rt \<and> rt_queueName rt = queueNameFor gid))
      (m\<lparr>m_runtimes := jset (m_runtimes m) gid
         \<lparr>rt_gatewayId = gid, rt_queueName = queueNameFor gid, rt_queueClient = client, rt_workers = []\<rparr>\<rparr>) w1" for client w1
  proof (rule wp_mono [OF wp_scale [OF ok _ pool]])
    let ?rt = "\<lparr>rt_gatewayId = gid, rt_queueName = queueNameFor gid, rt_queueClient = client, rt_workers = []\<rparr>"
    let ?m1 = "m\<lparr>m_runtimes := jset (m_runtimes m) gid ?rt\<rparr>"
    show "jget (m_runtimes ?m1) gid = Some ?rt" by (simp add: jget_def jset_def update_conv')
    then have "workers_of ?m1 gid = []"
      "set_workers gid ws ?m1 = m\<lparr>m_runtimes := jset (m_runtimes m) gid (?rt\<lparr>rt_workers := ws\<rparr>)\<rparr>" for ws
      by (simp_all add: workers_of_def set_workers_def jset_def)
    then show "r = Inr () \<and> (\<exists>extra. m' = set_workers gid (take (nat \<lfloor>workerPoolSize (cfg_queue C)\<rfloor>) (workers_of ?m1 gid) @ extra) ?m1 \<and>
        length extra = nat \<lfloor>workerPoolSize (cfg_queue C)\<rfloor> - length (workers_of ?m1 gid)) \<Longrightarrow>
      r = Inr () \<and> provisioned C gid m m' \<and> (\<exists>rt. jget (m_runtimes m') gid = Some rt \<and> rt_queueName rt = queueNameFor gid)" for r m'
      using None by (auto simp: provisioned_def jget_def jset_def update_conv')
  qed
  show ?thesis unfolding ensureGateway_def wp_Get None option.case Let_def wp_bind
    by (rule wp_handle_ok [OF ok]) (auto intro!: wp_ext_unit wp_mono [OF scaled] simp: ok)
qed (simp add: ensureGateway_def provisioned_def)

text \<open>C25. With queues that accept and a configured pool size that is not negative, \<open>setWorkerPoolSize\<close> with an
  integer \<open>k\<close> returns, whether or not the gateway was provisioned before, with exactly \<open>k\<close> workers: the first
  \<open>k\<close> of the pool are kept, so no surviving worker is restarted. The runtime of every other gateway and the rest of the
  memory are unchanged.\<close>

theorem pool_size_exact:
  assumes ok: "queues_ok H" and pool: "0 \<le> workerPoolSize (cfg_queue C)"
  shows "\<exists>m' w'. run H (setWorkerPoolSize C gid (of_nat k)) m w = Some (Inr (), m', w') \<and> getWorkerPoolSize m' gid = k \<and>
    take (length (workers_of m gid)) (workers_of m' gid) = take k (workers_of m gid) \<and>
    (\<forall>x. x \<noteq> gid \<longrightarrow> jget (m_runtimes m') x = jget (m_runtimes m) x) \<and> m'\<lparr>m_runtimes := m_runtimes m\<rparr> = m"
proof -
  let ?Q = "\<lambda>r m' w'. r = Inr () \<and> getWorkerPoolSize m' gid = k \<and>
    take (length (workers_of m gid)) (workers_of m' gid) = take k (workers_of m gid) \<and>
    (\<forall>x. x \<noteq> gid \<longrightarrow> jget (m_runtimes m') x = jget (m_runtimes m) x) \<and> m'\<lparr>m_runtimes := m_runtimes m\<rparr> = m"
  have scaled: "wp H (scaleWorkers gid q (of_nat k)) ?Q m1 w1" if p: "provisioned C gid m m1" for q m1 w1
  proof -
    obtain rt where rt: "jget (m_runtimes m1) gid = Some rt" using provisioned_runtime(1) [OF p] by blast
    have old: "take (length (workers_of m gid)) (take k (workers_of m1 gid)) = take k (workers_of m gid)"
      using p by (cases "jget (m_runtimes m) gid") (auto simp: provisioned_def workers_of_def min_def)
    have len: "length (workers_of m gid) \<le> length (workers_of m1 gid)"
      using p by (cases "jget (m_runtimes m) gid") (auto simp: provisioned_def workers_of_def)
    show ?thesis
    proof (rule wp_mono [OF wp_scale [OF ok rt]])
      fix r m' and w' :: 'a
      assume "r = Inr () \<and> (\<exists>extra. m' = set_workers gid (take (nat \<lfloor>of_nat k :: rat\<rfloor>) (workers_of m1 gid) @ extra) m1 \<and>
        length extra = nat \<lfloor>of_nat k :: rat\<rfloor> - length (workers_of m1 gid))"
      then obtain extra where "r = Inr ()" and m': "m' = set_workers gid (take k (workers_of m1 gid) @ extra) m1"
        and extra: "length extra = k - length (workers_of m1 gid)" by auto
      moreover have "take (length (workers_of m gid)) (take k (workers_of m1 gid) @ extra) = take k (workers_of m gid)"
        using old len extra by (cases "k \<le> length (workers_of m1 gid)") auto
      moreover have "m'\<lparr>m_runtimes := m_runtimes m\<rparr> = m1\<lparr>m_runtimes := m_runtimes m\<rparr>"
        using rt m' by (simp add: set_workers_def)
      ultimately show "?Q r m' w'"
        using rt extra provisioned_runtime(2,3) [OF p] by (simp add: getWorkerPoolSize_def)
    qed simp
  qed
  have "wp H (setWorkerPoolSize C gid (of_nat k)) ?Q m w"
    unfolding setWorkerPoolSize_def by (auto intro!: wp_mono [OF wp_ensure [OF ok pool]] scaled)
  then show ?thesis by (blast dest: wp_run)
qed

lemma default_pool: "workerPoolSize (cfg_queue default_config) = 2"
  by code_simp

theorem pool_size_exact_witness:
  "\<exists>m' w'. run world_step (setWorkerPoolSize default_config ''stripe'' 3) empty_mem start_world = Some (Inr (), m', w') \<and>
     getWorkerPoolSize m' ''stripe'' = 3"
  using pool_size_exact [OF world_queues_ok, of default_config "''stripe''" 3 empty_mem start_world]
  by (auto simp: default_pool)

text \<open>Provisioning is idempotent: with queues that accept and a pool size that is not negative, \<open>ensureGateway\<close>
  returns the queue name of the gateway with its runtime registered; a new gateway gets the name \<open>queueNameFor\<close> computes and
  as many workers as the configuration says (rounded down), and every later call returns the same name without a call to
  Redis or BullMQ and without changing the memory.\<close>

theorem provisioned_once:
  assumes ok: "queues_ok H" and pool: "0 \<le> workerPoolSize (cfg_queue C)"
  shows "\<exists>q m' w'. run H (ensureGateway C gid) m w = Some (Inr q, m', w') \<and> gid \<in> set (getGatewayIds m') \<and>
    (gid \<notin> set (getGatewayIds m) \<longrightarrow> q = queueNameFor gid \<and> getWorkerPoolSize m' gid = nat \<lfloor>workerPoolSize (cfg_queue C)\<rfloor>) \<and>
    (\<forall>H2 w2. run H2 (ensureGateway C gid) m' w2 = Some (Inr q, m', w2))"
proof -
  from wp_run [OF wp_ensure [OF ok pool, of gid m w]] obtain r m' w' rt
    where "run H (ensureGateway C gid) m w = Some (r, m', w')" and p: "provisioned C gid m m'"
      and rt: "jget (m_runtimes m') gid = Some rt" and r: "r = Inr (rt_queueName rt)" by auto
  moreover have "run H2 (ensureGateway C gid) m' w2 = Some (Inr (rt_queueName rt), m', w2)" for H2 :: "cmd \<Rightarrow> 'b \<Rightarrow> reply \<times> 'b" and w2
    using rt by (simp add: ensureGateway_def)
  moreover have "gid \<in> set (getGatewayIds m')" using rt by (simp add: getGatewayIds_def jhas_iff_key [symmetric] jhas_def)
  moreover have "rt_queueName rt = queueNameFor gid \<and> getWorkerPoolSize m' gid = nat \<lfloor>workerPoolSize (cfg_queue C)\<rfloor>"
    if "gid \<notin> set (getGatewayIds m)"
    using that p rt by (auto simp: getGatewayIds_def jhas_iff_key [symmetric] jhas_def provisioned_def getWorkerPoolSize_def workers_of_def)
  ultimately show ?thesis by blast
qed

theorem provisioned_once_witness:
  "\<exists>q m' w'. run world_step (ensureGateway default_config ''Stripe_EU'') empty_mem start_world = Some (Inr q, m', w') \<and>
     q = ''stripe-eu'' \<and> getWorkerPoolSize m' ''Stripe_EU'' = 2 \<and>
     (\<forall>w2. run world_step (ensureGateway default_config ''Stripe_EU'') m' w2 = Some (Inr q, m', w2))"
proof -
  have "''Stripe_EU'' \<notin> set (getGatewayIds empty_mem)" "queueNameFor ''Stripe_EU'' = ''stripe-eu''" by code_simp+
  then show ?thesis
    using provisioned_once [OF world_queues_ok, of default_config "''Stripe_EU''" empty_mem start_world]
    by (auto simp: default_pool)
qed

text \<open>A negative configured pool size hangs the first use of a gateway: after the pool has not grown, the loop that
  removes workers finds the list empty, removes nothing and never ends, however many iterations it is given, so
  \<open>ensureGateway\<close> never returns. \<open>setWorkerPoolSize\<close> itself rejects such sizes without touching anything.\<close>

theorem negative_pool_spins:
  assumes ok: "queues_ok H" and neg: "workerPoolSize (cfg_queue C) < 0"
  shows "(\<forall>n. run H (shrink_workers n gid (workerPoolSize (cfg_queue C))) m w = None) \<and>
    (gid \<notin> set (getGatewayIds m) \<longrightarrow> run H (ensureGateway C gid) m w = None) \<and>
    (sz < 0 \<longrightarrow> run H (setWorkerPoolSize C gid sz) m w = Some (Inl (JsError ''worker pool size must be a non-negative integer''), m, w))"
proof (intro conjI impI allI)
  have none: "run H p m w = None" if "\<not> wp H p (\<lambda>_ _ _. True) m w" for p :: "'x async"
    using that by (auto simp: wp_def split: option.splits)
  show "run H (shrink_workers n gid (workerPoolSize (cfg_queue C))) m w = None" for n
    by (rule none) (rule shrink_spins [OF ok neg])
  show "run H (ensureGateway C gid) m w = None" if "gid \<notin> set (getGatewayIds m)"
  proof (rule none, rule notI)
    assume "wp H (ensureGateway C gid) (\<lambda>_ _ _. True) m w"
    moreover have "jget (m_runtimes m) gid = None" using that by (simp add: getGatewayIds_def jhas_iff_key [symmetric] jhas_def)
    moreover obtain h where "fst (H Client_new w) = R_handle h" using ok unfolding queues_ok_def by blast
    ultimately show False
      by (simp add: ensureGateway_def newClient_def ext_handle_def wp_Call case_prod_unfold wp_ext_unit_ok [OF ok] Let_def
          scale_spins [OF ok neg])
  qed
qed (simp add: setWorkerPoolSize_def)


definition broken_pool :: app_config where
  "broken_pool = default_config\<lparr>cfg_queue := (cfg_queue default_config)\<lparr>workerPoolSize := -1\<rparr>\<rparr>"

theorem negative_pool_spins_witness:
  "workerPoolSize (cfg_queue broken_pool) < 0 \<and> run world_step (ensureGateway broken_pool ''stripe'') empty_mem start_world = None"
  using negative_pool_spins [OF world_queues_ok, of broken_pool "''stripe''" empty_mem start_world 0]
  by (simp add: broken_pool_def getGatewayIds_def empty_mem_def jkeys_def)

subsection \<open>Queue names\<close>

lemma to_lower_queue_char [simp]: "queue_char c \<Longrightarrow> to_lower c = c"
  by (auto simp: queue_char_def to_lower_def Let_def)

text \<open>The name of a queue has at most sixty characters, all lower-case letters, digits or hyphens, and is as long as
  the gateway id cut to sixty; a gateway id that has this form already is its own name, and only such an id, so two such ids never
  share a queue. Other ids may: ids that differ in case or after the sixtieth character have the same queue, and the
  gateway id \<open>dlq\<close> has the name of the dead letter queue.\<close>

theorem queue_name_normal_form:
  "length (queueNameFor g) = min 60 (length g) \<and> list_all queue_char (queueNameFor g) \<and>
   queueNameFor (queueNameFor g) = queueNameFor g \<and>
   (queueNameFor g = g \<longleftrightarrow> length g \<le> 60 \<and> list_all queue_char g) \<and>
   queueNameFor (map to_lower g) = queueNameFor g \<and> (60 \<le> length g \<longrightarrow> queueNameFor (g @ s) = queueNameFor g) \<and>
   queueNameFor ''dlq'' = DLQ_QUEUE_NAME"
proof (intro conjI)
  show len: "length (queueNameFor g) = min 60 (length g)" by (simp add: queueNameFor_def)
  have hyphen: "queue_char CHR ''-''" by (simp add: queue_char_def)
  show chars: "list_all queue_char (queueNameFor g)"
    by (auto simp: queueNameFor_def list_all_iff hyphen dest!: in_set_takeD)
  have same: "queueNameFor x = x" if "length x \<le> 60" "list_all queue_char x" for x
    using that by (simp add: queueNameFor_def list_all_iff map_idI)
  show "queueNameFor (queueNameFor g) = queueNameFor g" using len chars by (intro same) auto
  show "queueNameFor g = g \<longleftrightarrow> length g \<le> 60 \<and> list_all queue_char g"
    using len chars same by (metis min.cobounded1)
  have "to_lower (to_lower c) = to_lower c" for c
    by (auto simp: to_lower_def Let_def)
  then show "queueNameFor (map to_lower g) = queueNameFor g" by (simp add: queueNameFor_def comp_def)
  show "60 \<le> length g \<longrightarrow> queueNameFor (g @ s) = queueNameFor g" by (simp add: queueNameFor_def)
  show "queueNameFor ''dlq'' = DLQ_QUEUE_NAME" by code_simp
qed

theorem queue_name_normal_form_witness:
  "queueNameFor ''Stripe'' = ''stripe'' \<and> queueNameFor (map to_lower ''Stripe'') = queueNameFor ''Stripe'' \<and>
   queueNameFor (replicate 60 CHR ''a'' @ ''-eu'') = queueNameFor (replicate 60 CHR ''a'')"
proof (intro conjI)
  show "queueNameFor ''Stripe'' = ''stripe''" by code_simp
  show "queueNameFor (map to_lower ''Stripe'') = queueNameFor ''Stripe''" using queue_name_normal_form [of "''Stripe''"] by blast
  show "queueNameFor (replicate 60 CHR ''a'' @ ''-eu'') = queueNameFor (replicate 60 CHR ''a'')"
    using queue_name_normal_form [of "replicate 60 CHR ''a''"] by simp
qed

end
