(* ===== verification/Payment_Service.thy ===== *)
theory Payment_Service
  imports Idempotency Queue_Manager
begin

text \<open>
  The application boundary of \<^verbatim>\<open>src/payments/payment.service.ts\<close>: validation of a request
  body, submission under the idempotency lease, status lookup and the list of dead
  letters. \<open>date_parse\<close> is the parsing of date strings by the \<open>Date\<close> constructor (its
  result for strings outside the ISO format is up to the engine); \<open>None\<close> is \<open>NaN\<close>.
\<close>

record create_payment_input =
  cp_id :: string
  cp_amount :: int
  cp_currency :: string
  cp_customerId :: string
  cp_gatewayId :: string
  cp_priority :: "priority option"
  cp_maxRetries :: "int option"
  cp_metadata :: "json_object option"
  cp_scheduledAt :: "timestamp option"
  cp_delayMs :: "int option"
  cp_correlationId :: "string option"

datatype submit_result = Submit_created payment_record | Submit_replayed payment_record

definition MAX_DELAY_MS :: int where
  "MAX_DELAY_MS = 2147483000"

definition js_integer :: "json \<Rightarrow> int option" where
  "js_integer v = (case v of JNum x \<Rightarrow> if of_int \<lfloor>x\<rfloor> = x then Some \<lfloor>x\<rfloor> else None | _ \<Rightarrow> None)"

definition upper_letter :: "char \<Rightarrow> bool" where
  "upper_letter c = (let n = of_char c :: nat in 65 \<le> n \<and> n \<le> 90)"

definition iso_currency :: "string \<Rightarrow> bool" where
  "iso_currency s = (length s = 3 \<and> list_all upper_letter s)"

definition parse_priority :: "string \<Rightarrow> priority option" where
  "parse_priority s =
     (if s = ''high'' then Some High else if s = ''normal'' then Some Normal else if s = ''low'' then Some Low else None)"

text \<open>\<open>body[key] ?? d\<close>: absent and \<open>null\<close> give the default.\<close>

definition field_or :: "json_object \<Rightarrow> string \<Rightarrow> json \<Rightarrow> json" where
  "field_or body key d = (case jget body key of None \<Rightarrow> d | Some JNull \<Rightarrow> d | Some v \<Rightarrow> v)"

text \<open>The checks that do not read the clock, in the order of the code.\<close>

definition validate_id :: "json_object \<Rightarrow> string + string" where
  "validate_id body =
     (case jget body ''id'' of
        Some (JStr s) \<Rightarrow> if s = [] \<or> 100 < length s then Inl ''id must be a non-empty string (<= 100 chars)'' else Inr s
      | _ \<Rightarrow> Inl ''id must be a non-empty string (<= 100 chars)'')"

definition validate_amount :: "json_object \<Rightarrow> string + int" where
  "validate_amount body =
     (case Option.bind (jget body ''amount'') js_integer of
        Some n \<Rightarrow> if n \<le> 0 then Inl ''amount must be a positive integer (minor currency unit)'' else Inr n
      | None \<Rightarrow> Inl ''amount must be a positive integer (minor currency unit)'')"

definition validate_currency :: "json_object \<Rightarrow> string + string" where
  "validate_currency body =
     (case jget body ''currency'' of
        Some (JStr s) \<Rightarrow> if iso_currency s then Inr s else Inl ''currency must be a 3-letter ISO code''
      | _ \<Rightarrow> Inl ''currency must be a 3-letter ISO code'')"

definition validate_customer :: "json_object \<Rightarrow> string + string" where
  "validate_customer body =
     (case jget body ''customerId'' of
        Some (JStr s) \<Rightarrow> if s = [] then Inl ''customerId must be a non-empty string'' else Inr s
      | _ \<Rightarrow> Inl ''customerId must be a non-empty string'')"

definition validate_gateway :: "json_object \<Rightarrow> string + string" where
  "validate_gateway body =
     (case jget body ''gatewayId'' of
        Some (JStr s) \<Rightarrow> if s = [] \<or> 100 < length s then Inl ''gatewayId must be a non-empty string (<= 100 chars)'' else Inr s
      | _ \<Rightarrow> Inl ''gatewayId must be a non-empty string (<= 100 chars)'')"

definition validate_priority :: "json_object \<Rightarrow> string + priority" where
  "validate_priority body =
     (case field_or body ''priority'' (JStr ''normal'') of
        JStr s \<Rightarrow> (case parse_priority s of Some p \<Rightarrow> Inr p | None \<Rightarrow> Inl ''priority must be one of high, normal, low'')
      | _ \<Rightarrow> Inl ''priority must be one of high, normal, low'')"

definition validate_retries :: "json_object \<Rightarrow> string + int" where
  "validate_retries body =
     (case js_integer (field_or body ''maxRetries'' (JNum (of_int DEFAULT_MAX_RETRIES))) of
        Some n \<Rightarrow> if n < 0 \<or> 10 < n then Inl ''maxRetries must be an integer between 0 and 10'' else Inr n
      | None \<Rightarrow> Inl ''maxRetries must be an integer between 0 and 10'')"

definition validate_metadata :: "json_object \<Rightarrow> string + json_object" where
  "validate_metadata body =
     (case jget body ''metadata'' of
        None \<Rightarrow> Inr []
      | Some (JObj obj) \<Rightarrow> Inr obj
      | Some _ \<Rightarrow> Inl ''metadata must be an object'')"

text \<open>The type checks on \<open>scheduledAt\<close> and \<open>delayMs\<close>: a string, an integer, or neither.\<close>

definition validate_schedule :: "json_object \<Rightarrow> string + (string option \<times> int option)" where
  "validate_schedule body =
     (let scheduledAt = jget body ''scheduledAt''; delayMs = jget body ''delayMs''
      in case scheduledAt of
           Some v \<Rightarrow>
             (case v of
                JStr s \<Rightarrow>
                  (case delayMs of
                     None \<Rightarrow> Inr (Some s, None)
                   | Some d \<Rightarrow>
                       (case js_integer d of
                          Some n \<Rightarrow> if n < 0 then Inl ''delayMs must be a non-negative integer''
                                    else Inl ''provide either scheduledAt or delayMs, not both''
                        | None \<Rightarrow> Inl ''delayMs must be a non-negative integer''))
              | _ \<Rightarrow> Inl ''scheduledAt must be an ISO-8601 date string'')
         | None \<Rightarrow>
             (case delayMs of
                None \<Rightarrow> Inr (None, None)
              | Some d \<Rightarrow>
                  (case js_integer d of
                     Some n \<Rightarrow> if n < 0 then Inl ''delayMs must be a non-negative integer'' else Inr (None, Some n)
                   | None \<Rightarrow> Inl ''delayMs must be a non-negative integer'')))"

definition checked :: "string + 'a \<Rightarrow> 'a async" where
  "checked r = (case r of Inl msg \<Rightarrow> Throw (BadRequest msg) | Inr a \<Rightarrow> Ret a)"

definition validate_times ::
    "(string \<Rightarrow> timestamp option) \<Rightarrow> string option \<times> int option \<Rightarrow> create_payment_input \<Rightarrow> create_payment_input async" where
  "validate_times date_parse sched input =
     (case sched of
        (Some s, _) \<Rightarrow>
          (case date_parse s of
             None \<Rightarrow> Throw (BadRequest ''scheduledAt must be a valid ISO-8601 date string'')
           | Some t \<Rightarrow>
               bind date_now (\<lambda>now.
                 if t - now > MAX_DELAY_MS then Throw (BadRequest ''scheduledAt is too far in the future'')
                 else Ret (input\<lparr>cp_scheduledAt := Some t\<rparr>)))
      | (None, Some d) \<Rightarrow>
          if d > MAX_DELAY_MS then Throw (BadRequest ''delayMs is too large'') else Ret (input\<lparr>cp_delayMs := Some d\<rparr>)
      | (None, None) \<Rightarrow> Ret input)"

definition validateCreatePaymentInput :: "(string \<Rightarrow> timestamp option) \<Rightarrow> json \<Rightarrow> create_payment_input async" where
  "validateCreatePaymentInput date_parse raw =
     (case raw of
        JObj body \<Rightarrow>
          bind (checked (validate_id body)) (\<lambda>pid.
          bind (checked (validate_amount body)) (\<lambda>amount.
          bind (checked (validate_currency body)) (\<lambda>currency.
          bind (checked (validate_customer body)) (\<lambda>customerId.
          bind (checked (validate_gateway body)) (\<lambda>gatewayId.
          bind (checked (validate_priority body)) (\<lambda>prio.
          bind (checked (validate_retries body)) (\<lambda>maxRetries.
          bind (checked (validate_metadata body)) (\<lambda>metadata.
          bind (checked (validate_schedule body)) (\<lambda>sched.
            validate_times date_parse sched
              \<lparr>cp_id = pid, cp_amount = amount, cp_currency = currency, cp_customerId = customerId,
               cp_gatewayId = gatewayId, cp_priority = Some prio, cp_maxRetries = Some maxRetries,
               cp_metadata = Some metadata, cp_scheduledAt = None, cp_delayMs = None, cp_correlationId = None\<rparr>)))))))))
      | _ \<Rightarrow> Throw (BadRequest ''body must be a JSON object''))"

subsection \<open>Submission\<close>

text \<open>The first or, after the recovery of a stale lease, the second claim.\<close>

definition claim_with_recovery :: "app_config \<Rightarrow> string \<Rightarrow> claim_result async" where
  "claim_with_recovery C paymentId =
     bind (claim C paymentId) (\<lambda>c.
       case c of
         Claim_conflict _ \<Rightarrow>
           bind (store_get paymentId) (\<lambda>existing.
             case existing of
               None \<Rightarrow> bind (idem_release paymentId) (\<lambda>_. claim C paymentId)
             | Some _ \<Rightarrow> Ret c)
       | _ \<Rightarrow> Ret c)"

definition create_input_of :: "create_payment_input \<Rightarrow> string option \<Rightarrow> create_input" where
  "create_input_of input correlationId =
     \<lparr>ci_id = cp_id input, ci_amount = cp_amount input, ci_currency = cp_currency input,
      ci_customerId = cp_customerId input, ci_gatewayId = cp_gatewayId input,
      ci_priority = nullish (cp_priority input) Normal, ci_maxRetries = cp_maxRetries input,
      ci_metadata = Some (nullish (cp_metadata input) []), ci_scheduledAt = cp_scheduledAt input,
      ci_correlationId = correlationId, ci_createdAt = None\<rparr>"

definition submit_delay :: "create_payment_input \<Rightarrow> int async" where
  "submit_delay input =
     (case cp_scheduledAt input of
        Some t \<Rightarrow> bind date_now (\<lambda>now. Ret (max 0 (t - now)))
      | None \<Rightarrow> Ret (nullish (cp_delayMs input) 0))"

definition submit_enqueue :: "app_config \<Rightarrow> payment_record \<Rightarrow> int \<Rightarrow> unit async" where
  "submit_enqueue C r delayMs =
     catch
       (withSpan SPAN_ENQUEUE
          [(''paymentId'', Some (p_id r)), (''gatewayId'', Some (p_gatewayId r)),
           (''correlationId'', Some (nullish (r_correlationId r) []))]
          (enqueue C \<lparr>ei_gatewayId = p_gatewayId r, ei_paymentId = p_id r, ei_correlationId = r_correlationId r,
             ei_priority = p_priority r, ei_maxRetries = p_maxRetries r, ei_delayMs = Some (of_int delayMs),
             ei_jobId = p_id r\<rparr>))
       (\<lambda>err. bind (idem_release (p_id r)) (\<lambda>_.
          Throw (BadRequest (''payment could not be queued: '' @ exn_message err))))"

definition submit_new :: "app_config \<Rightarrow> create_payment_input \<Rightarrow> string option \<Rightarrow> submit_result async" where
  "submit_new C input correlationId =
     bind date_now (\<lambda>created.
     let r = createPaymentRecord (create_input_of input correlationId) created
     in bind (audit_record (cp_id input) A_payment_submitted None None) (\<lambda>_.
        bind (store_save r) (\<lambda>_.
        bind date_now (\<lambda>now.
        bind (emit (Ev_payment \<lparr>le_type = T_payment_queued, le_paymentId = cp_id input, le_gatewayId = Some (p_gatewayId r),
                      le_correlationId = r_correlationId r, le_status = Some S_queued, le_at = now, le_detail = None\<rparr>)) (\<lambda>_.
        bind (submit_delay input) (\<lambda>delayMs.
        bind (submit_enqueue C r delayMs) (\<lambda>_.
          Ret (Submit_created r))))))))"

text \<open>\<open>current\<close> is the correlation id of the asynchronous context.\<close>

definition submit :: "app_config \<Rightarrow> string option \<Rightarrow> create_payment_input \<Rightarrow> submit_result async" where
  "submit C current input =
     (let paymentId = cp_id input;
          correlationId = (case cp_correlationId input of Some c \<Rightarrow> Some c | None \<Rightarrow> current)
      in bind (claim_with_recovery C paymentId) (\<lambda>c.
           case c of
             Claim_replayed _ \<Rightarrow>
               bind (store_get paymentId) (\<lambda>existing.
                 case existing of
                   Some r \<Rightarrow> Ret (Submit_replayed r)
                 | None \<Rightarrow> Throw (NotFound ''payment already finalized but its record is missing (data inconsistency)'' paymentId))
           | Claim_conflict _ \<Rightarrow>
               bind (store_get paymentId) (\<lambda>existing.
                 Throw (Conflict ''payment is already being processed'' paymentId
                   (case existing of Some r \<Rightarrow> status_text (r_status r) | None \<Rightarrow> ''processing'')))
           | Claim_new \<Rightarrow> submit_new C input correlationId))"

subsection \<open>Queries\<close>

definition getStatus :: "string \<Rightarrow> payment_record async" where
  "getStatus paymentId =
     bind (store_get paymentId) (\<lambda>r. case r of Some x \<Rightarrow> Ret x | None \<Rightarrow> Throw (NotFound ''payment not found'' paymentId))"

record dead_letter =
  dl_paymentId :: string
  dl_reason :: string
  dl_deadLetteredAt :: timestamp
  dl_payment :: "payment_record option"

primrec attach_payments :: "(string \<times> dlq_entry) list \<Rightarrow> dead_letter list async" where
  "attach_payments [] = Ret []"
| "attach_payments (e # es) =
     bind (store_get (de_paymentId (snd e))) (\<lambda>r.
     bind (attach_payments es) (\<lambda>rest.
       Ret (\<lparr>dl_paymentId = de_paymentId (snd e), dl_reason = de_reason (snd e),
             dl_deadLetteredAt = de_deadLetteredAt (snd e), dl_payment = r\<rparr> # rest)))"

definition listDeadLetters :: "dead_letter list async" where
  "listDeadLetters = bind listDlq attach_payments"


subsection \<open>What an accepted request satisfies\<close>

definition accepted_order :: "json_object \<Rightarrow> create_payment_input \<Rightarrow> bool" where
  "accepted_order body inp \<longleftrightarrow>
     jget body ''id'' = Some (JStr (cp_id inp)) \<and> cp_id inp \<noteq> [] \<and> length (cp_id inp) \<le> 100 \<and>
     jget body ''amount'' = Some (JNum (of_int (cp_amount inp))) \<and> 0 < cp_amount inp \<and>
     jget body ''currency'' = Some (JStr (cp_currency inp)) \<and> length (cp_currency inp) = 3 \<and> list_all upper_letter (cp_currency inp) \<and>
     jget body ''customerId'' = Some (JStr (cp_customerId inp)) \<and> cp_customerId inp \<noteq> [] \<and>
     jget body ''gatewayId'' = Some (JStr (cp_gatewayId inp)) \<and> cp_gatewayId inp \<noteq> [] \<and> length (cp_gatewayId inp) \<le> 100 \<and>
     cp_priority inp \<noteq> None \<and> (\<exists>n. cp_maxRetries inp = Some n \<and> 0 \<le> n \<and> n \<le> 10) \<and>
     cp_metadata inp = Some (case jget body ''metadata'' of Some (JObj obj) \<Rightarrow> obj | _ \<Rightarrow> [])"

definition accepted_times :: "(string \<Rightarrow> timestamp option) \<Rightarrow> timestamp \<Rightarrow> json_object \<Rightarrow> create_payment_input \<Rightarrow> bool" where
  "accepted_times date_parse now body inp \<longleftrightarrow>
     (case jget body ''scheduledAt'' of
        None \<Rightarrow> cp_scheduledAt inp = None
      | Some v \<Rightarrow> \<exists>s t. v = JStr s \<and> date_parse s = Some t \<and> t - now \<le> MAX_DELAY_MS \<and> cp_scheduledAt inp = Some t) \<and>
     (case jget body ''delayMs'' of
        None \<Rightarrow> cp_delayMs inp = None
      | Some v \<Rightarrow> \<exists>n. v = JNum (of_int n) \<and> 0 \<le> n \<and> n \<le> MAX_DELAY_MS \<and> cp_delayMs inp = Some n) \<and>
     (cp_scheduledAt inp = None \<or> cp_delayMs inp = None)"

lemma js_integer_Some: "js_integer v = Some n \<longleftrightarrow> v = JNum (of_int n)"
  by (cases v) (auto simp: js_integer_def)

lemma wp_checked [simp]:
  "wp H (checked r) Q m w = (case r of Inl msg \<Rightarrow> Q (Inl (BadRequest msg)) m w | Inr a \<Rightarrow> Q (Inr a) m w)"
  by (simp add: checked_def split: sum.split)

lemma validated_fields:
  "validate_id body = Inr s \<Longrightarrow> jget body ''id'' = Some (JStr s) \<and> s \<noteq> [] \<and> length s \<le> 100"
  "validate_amount body = Inr n \<Longrightarrow> jget body ''amount'' = Some (JNum (of_int n)) \<and> 0 < n"
  "validate_currency body = Inr s \<Longrightarrow> jget body ''currency'' = Some (JStr s) \<and> length s = 3 \<and> list_all upper_letter s"
  "validate_customer body = Inr s \<Longrightarrow> jget body ''customerId'' = Some (JStr s) \<and> s \<noteq> []"
  "validate_gateway body = Inr s \<Longrightarrow> jget body ''gatewayId'' = Some (JStr s) \<and> s \<noteq> [] \<and> length s \<le> 100"
  "validate_retries body = Inr n \<Longrightarrow> 0 \<le> n \<and> n \<le> 10"
  "validate_metadata body = Inr obj \<Longrightarrow> obj = (case jget body ''metadata'' of Some (JObj obj) \<Rightarrow> obj | _ \<Rightarrow> [])"
  by (auto simp: validate_id_def validate_amount_def validate_currency_def validate_customer_def validate_gateway_def
      validate_retries_def validate_metadata_def iso_currency_def js_integer_Some not_le bind_eq_Some_conv
      split: option.splits json.splits if_splits)

lemma validated_schedule:
  "validate_schedule body = Inr (st, dl) \<Longrightarrow>
     jget body ''scheduledAt'' = map_option JStr st \<and> jget body ''delayMs'' = map_option (\<lambda>n. JNum (of_int n)) dl \<and>
     (\<forall>n. dl = Some n \<longrightarrow> 0 \<le> n) \<and> (st = None \<or> dl = None)"
  by (auto simp: validate_schedule_def Let_def js_integer_Some split: option.splits json.splits if_splits)


lemma sum_case_I: "(\<And>a. x = Inl a \<Longrightarrow> f a) \<Longrightarrow> (\<And>b. x = Inr b \<Longrightarrow> g b) \<Longrightarrow> case x of Inl a \<Rightarrow> f a | Inr b \<Rightarrow> g b"
  by (cases x) auto

context js_world
begin

lemma wp_validate_times:
  assumes "validate_schedule body = Inr sched" and "cp_scheduledAt inp = None" "cp_delayMs inp = None"
  shows "wp H (validate_times dp sched inp) (\<lambda>r m' w'. m' = m \<and> (case r of
      Inl e \<Rightarrow> \<exists>msg. e = BadRequest msg
    | Inr out \<Rightarrow> accepted_times dp (clock w) body out \<and> out\<lparr>cp_scheduledAt := None, cp_delayMs := None\<rparr> = inp)) m w"
proof -
  obtain st dl where sched: "sched = (st, dl)" by fastforce
  have "inp\<lparr>cp_scheduledAt := None, cp_delayMs := None\<rparr> = inp" using assms(2,3) by (cases inp) simp
  with validated_schedule [OF assms(1) [unfolded sched]] assms(2,3) show ?thesis
    unfolding sched validate_times_def
    by (cases st; cases dl) (auto simp: accepted_times_def split: option.split)
qed

lemma wp_validate:
  "wp H (validateCreatePaymentInput dp raw) (\<lambda>r m' w'. m' = m \<and> (case r of
      Inl e \<Rightarrow> \<exists>msg. e = BadRequest msg
    | Inr inp \<Rightarrow> \<exists>body. raw = JObj body \<and> accepted_order body inp \<and> accepted_times dp (clock w) body inp \<and> cp_correlationId inp = None)) m w"
proof (cases raw)
  case (JObj body)
  have last: "wp H (validate_times dp sched inp) (\<lambda>r m' w'. m' = m \<and> (case r of Inl e \<Rightarrow> \<exists>msg. e = BadRequest msg
    | Inr out \<Rightarrow> \<exists>b. raw = JObj b \<and> accepted_order b out \<and> accepted_times dp (clock w) b out \<and> cp_correlationId out = None)) m w"
    if v: "validate_schedule body = Inr sched" and inp: "cp_scheduledAt inp = None" "cp_delayMs inp = None" "accepted_order body inp" "cp_correlationId inp = None" for inp sched
  proof -
    have "accepted_order body out \<and> cp_correlationId out = None" if "out\<lparr>cp_scheduledAt := None, cp_delayMs := None\<rparr> = inp" for out
      using inp(3,4) that by (auto simp: accepted_order_def)
    then show ?thesis
      by (intro wp_mono [OF wp_validate_times [OF v inp(1,2)]]) (auto simp: JObj split: sum.splits)
  qed
  show ?thesis unfolding validateCreatePaymentInput_def JObj json.case wp_bind wp_checked
    by (intro sum_case_I) (auto simp: accepted_order_def dest!: validated_fields intro!: last [unfolded JObj])
qed (simp_all add: validateCreatePaymentInput_def)

end



definition sample_body :: json_object where
  "sample_body = [(''id'', JStr ''p7''), (''amount'', JNum 2500), (''currency'', JStr ''EUR''), (''customerId'', JStr ''c1''),
     (''gatewayId'', JStr ''stripe''), (''delayMs'', JNum 250)]"

lemma sample_body_accepted:
  "\<exists>inp w'. run world_step (validateCreatePaymentInput (\<lambda>_. None) (JObj sample_body)) empty_mem start_world = Some (Inr inp, empty_mem, w')"
  by (simp add: validateCreatePaymentInput_def checked_def sample_body_def validate_id_def validate_amount_def validate_currency_def
      validate_customer_def validate_gateway_def validate_priority_def validate_retries_def validate_metadata_def validate_schedule_def
      validate_times_def jget_def js_integer_def iso_currency_def upper_letter_def field_or_def parse_priority_def DEFAULT_MAX_RETRIES_def
      MAX_DELAY_MS_def Let_def)


end
