(* ===== verification/Payments_Api.thy ===== *)
theory Payments_Api
  imports Payment_Service
begin

text \<open>
  The controllers of \<^verbatim>\<open>src/payments/payments.controller.ts\<close>: the HTTP status and the body of
  each answer. An exception of a handler is answered by NestJS with the status of its
  class, \<open>http_status_of\<close>.
\<close>

datatype api_body =
    Body_replayed string payment_status payment_record
  | Body_queued string
  | Body_scheduled string payment_status timestamp
  | Body_payment payment_record
  | Body_dlq nat "dead_letter list"

type_synonym api_response = "int \<times> api_body"

definition controller_submit :: "app_config \<Rightarrow> (string \<Rightarrow> timestamp option) \<Rightarrow> string option \<Rightarrow> json \<Rightarrow> api_response async" where
  "controller_submit C date_parse current body =
     bind (validateCreatePaymentInput date_parse body) (\<lambda>input.
     bind (submit C current input) (\<lambda>result.
       case result of
         Submit_replayed r \<Rightarrow> Ret (200, Body_replayed (p_id r) (r_status r) r)
       | Submit_created r \<Rightarrow> Ret (201, Body_queued (p_id r))))"

definition controller_schedule :: "app_config \<Rightarrow> (string \<Rightarrow> timestamp option) \<Rightarrow> string option \<Rightarrow> json \<Rightarrow> api_response async" where
  "controller_schedule C date_parse current body =
     bind (validateCreatePaymentInput date_parse body) (\<lambda>input.
     bind (submit C current input) (\<lambda>result.
       case result of
         Submit_replayed r \<Rightarrow> Ret (200, Body_replayed (p_id r) (r_status r) r)
       | Submit_created r \<Rightarrow>
           (case p_scheduledAt r of
              Some t \<Rightarrow> Ret (201, Body_scheduled (p_id r) (r_status r) t)
            | None \<Rightarrow> bind date_now (\<lambda>now.
                Ret (201, Body_scheduled (p_id r) (r_status r) (now + nullish (cp_delayMs input) 0))))))"

definition controller_getStatus :: "string \<Rightarrow> api_response async" where
  "controller_getStatus paymentId = bind (getStatus paymentId) (\<lambda>r. Ret (200, Body_payment r))"

definition controller_dlq :: "string option \<Rightarrow> api_response async" where
  "controller_dlq gatewayId =
     bind listDeadLetters (\<lambda>entries.
       let filtered = (if truthy gatewayId
             then filter (\<lambda>e. map_option p_gatewayId (dl_payment e) = gatewayId) entries else entries)
       in Ret (200, Body_dlq (length filtered) filtered))"

primrec http_status_of :: "exn \<Rightarrow> int" where
  "http_status_of (Processing e) = 500"
| "http_status_of (JsError m) = 500"
| "http_status_of (BadRequest m) = 400"
| "http_status_of (NotFound m i) = 404"
| "http_status_of (Conflict m i st) = 409"

end
