(* ===== verification/Gateway_Registries.thy ===== *)
theory Gateway_Registries
  imports Process_Memory App_Config
begin

text \<open>
  The three per-gateway registries: \<^verbatim>\<open>src/gateway/rate-limiter.registry.ts\<close>,
  \<^verbatim>\<open>src/gateway/circuit-breaker.registry.ts\<close> and the \<open>MockGatewayRegistry\<close> of
  \<^verbatim>\<open>src/gateway/mock-gateway.service.ts\<close>. Each is a \<open>Map\<close> from gateway ids to objects that
  are created on first use and mutated in place. A reference to an object is its gateway
  id; \<open>bucket_of\<close>, \<open>breaker_of\<close> and \<open>mock_of\<close> dereference it. \<open>C\<close> is the application
  configuration.
\<close>

record tb_patch =
  pt_nominalRps :: "rat option"
  pt_burstFactor :: "rat option"
  pt_minRateFactor :: "rat option"
  pt_aiStepRps :: "rat option"
  pt_tokenWaitMs :: "rat option"

record cb_patch =
  pc_windowMs :: "rat option"
  pc_failureThreshold :: "rat option"
  pc_minSamples :: "rat option"
  pc_cooldownMs :: "rat option"

text \<open>\<open>{ ...this.paramsFor(), ...partial }\<close>\<close>

definition tb_spread :: "tb_params \<Rightarrow> tb_patch \<Rightarrow> tb_params" where
  "tb_spread p d =
     \<lparr>nominalRps = nullish (pt_nominalRps d) (nominalRps p), burstFactor = nullish (pt_burstFactor d) (burstFactor p),
      minRateFactor = nullish (pt_minRateFactor d) (minRateFactor p), aiStepRps = nullish (pt_aiStepRps d) (aiStepRps p),
      tokenWaitMs = nullish (pt_tokenWaitMs d) (tokenWaitMs p)\<rparr>"

definition cb_spread :: "cb_params \<Rightarrow> cb_patch \<Rightarrow> cb_params" where
  "cb_spread p d =
     \<lparr>windowMs = nullish (pc_windowMs d) (windowMs p), failureThreshold = nullish (pc_failureThreshold d) (failureThreshold p),
      minSamples = nullish (pc_minSamples d) (minSamples p), cooldownMs = nullish (pc_cooldownMs d) (cooldownMs p)\<rparr>"

definition bucket_of :: "app_config \<Rightarrow> mem \<Rightarrow> string \<Rightarrow> bucket" where
  "bucket_of C m gid = nullish (jget (m_buckets m) gid) (newBucket (cfg_rateLimiter C) 0)"

definition breaker_of :: "app_config \<Rightarrow> mem \<Rightarrow> string \<Rightarrow> breaker" where
  "breaker_of C m gid = nullish (jget (m_breakers m) gid) (newBreaker (cfg_circuitBreaker C))"

text \<open>A fresh provider is configured with latencies of 5 to 20 milliseconds before it is registered.\<close>

definition fresh_mock :: "string \<Rightarrow> mock_gateway" where
  "fresh_mock gid = mg_configure
     \<lparr>bp_latencyMinMs = Some 5, bp_latencyMaxMs = Some 20, bp_steps = None, bp_after = None, bp_refundSteps = None\<rparr>
     (newMockGateway gid)"

definition mock_of :: "mem \<Rightarrow> string \<Rightarrow> mock_gateway" where
  "mock_of m gid = nullish (jget (m_mocks m) gid) (fresh_mock gid)"

definition put_bucket :: "string \<Rightarrow> bucket \<Rightarrow> mem \<Rightarrow> mem" where
  "put_bucket gid b m = m\<lparr>m_buckets := jset (m_buckets m) gid b\<rparr>"

definition put_breaker :: "string \<Rightarrow> breaker \<Rightarrow> mem \<Rightarrow> mem" where
  "put_breaker gid b m = m\<lparr>m_breakers := jset (m_breakers m) gid b\<rparr>"

definition put_mock :: "string \<Rightarrow> mock_gateway \<Rightarrow> mem \<Rightarrow> mem" where
  "put_mock gid g m = m\<lparr>m_mocks := jset (m_mocks m) gid g\<rparr>"

subsection \<open>Rate limiters\<close>

definition limiter_get :: "app_config \<Rightarrow> string \<Rightarrow> unit async" where
  "limiter_get C gid =
     Get (\<lambda>m. if jhas (m_buckets m) gid then Ret ()
              else bind date_now (\<lambda>now. modify (put_bucket gid (newBucket (cfg_rateLimiter C) now))))"

definition limiter_configure :: "app_config \<Rightarrow> string \<Rightarrow> tb_patch \<Rightarrow> unit async" where
  "limiter_configure C gid partial =
     (let params = tb_spread (cfg_rateLimiter C) partial
      in Get (\<lambda>m. case jget (m_buckets m) gid of
                 Some b \<Rightarrow> modify (put_bucket gid (tb_reconfigure params b))
               | None \<Rightarrow> bind date_now (\<lambda>now. modify (put_bucket gid (newBucket params now)))))"

definition limiter_resetAll :: "app_config \<Rightarrow> unit async" where
  "limiter_resetAll C =
     modify (\<lambda>m. m\<lparr>m_buckets := map (\<lambda>(gid, b). (gid, tb_reconfigure (cfg_rateLimiter C) b)) (m_buckets m)\<rparr>)"

text \<open>The \<open>onThrottle\<close> callback of a bucket emits \<open>rate_limit.throttled\<close>.\<close>

definition limiter_throttled :: "app_config \<Rightarrow> string \<Rightarrow> unit async" where
  "limiter_throttled C gid =
     bind (modify (\<lambda>m. put_bucket gid (fst (onThrottled (bucket_of C m gid))) m)) (\<lambda>_.
     bind date_now (\<lambda>now. emit (Ev_throttled gid now)))"

definition limiter_success :: "app_config \<Rightarrow> string \<Rightarrow> unit async" where
  "limiter_success C gid = modify (\<lambda>m. put_bucket gid (onSuccess (bucket_of C m gid)) m)"

definition limiter_tryAcquire :: "app_config \<Rightarrow> string \<Rightarrow> bool async" where
  "limiter_tryAcquire C gid =
     bind date_now (\<lambda>now.
       sync_step (\<lambda>m. let (ok, b) = tryAcquire now (bucket_of C m gid) in (ok, put_bucket gid b m)))"

definition limiter_state :: "app_config \<Rightarrow> string \<Rightarrow> tb_snapshot async" where
  "limiter_state C gid =
     bind (limiter_get C gid) (\<lambda>_. bind date_now (\<lambda>now.
       sync_step (\<lambda>m. let (sn, b) = tb_getState now (bucket_of C m gid) in (sn, put_bucket gid b m))))"

text \<open>
  \<open>waitForToken\<close>: the polling loop, with fuel; \<open>wait_fuel\<close> is enough because each pass
  but the last sleeps at least five milliseconds.
\<close>

primrec wait_loop :: "nat \<Rightarrow> app_config \<Rightarrow> string \<Rightarrow> rat \<Rightarrow> bool async" where
  "wait_loop 0 C gid until = Diverge"
| "wait_loop (Suc n) C gid until =
     bind (limiter_tryAcquire C gid) (\<lambda>ok.
       if ok then Ret True
       else bind date_now (\<lambda>now.
         if of_int now \<ge> until then Ret False
         else bind (sleep (min 15 (max 5 (until - of_int now)))) (\<lambda>_. wait_loop n C gid until)))"

definition wait_fuel :: "rat \<Rightarrow> nat" where
  "wait_fuel timeoutMs = nat \<lceil>timeoutMs\<rceil> + 2"

definition waitForToken :: "app_config \<Rightarrow> string \<Rightarrow> rat \<Rightarrow> bool async" where
  "waitForToken C gid timeoutMs =
     bind date_now (\<lambda>now. wait_loop (wait_fuel timeoutMs) C gid (of_int now + timeoutMs))"

subsection \<open>Circuit breakers\<close>

definition breaker_get :: "app_config \<Rightarrow> string \<Rightarrow> unit async" where
  "breaker_get C gid =
     Get (\<lambda>m. if jhas (m_breakers m) gid then Ret ()
              else modify (put_breaker gid (newBreaker (cfg_circuitBreaker C))))"

definition breaker_configure :: "app_config \<Rightarrow> string \<Rightarrow> cb_patch \<Rightarrow> unit async" where
  "breaker_configure C gid partial =
     (let params = cb_spread (cfg_circuitBreaker C) partial
      in modify (\<lambda>m. case jget (m_breakers m) gid of
                   Some b \<Rightarrow> put_breaker gid (cb_reconfigure params b) m
                 | None \<Rightarrow> put_breaker gid (newBreaker params) m))"

definition breaker_reset :: "string \<Rightarrow> unit async" where
  "breaker_reset gid =
     modify (\<lambda>m. case jget (m_breakers m) gid of Some b \<Rightarrow> put_breaker gid (cb_reset b) m | None \<Rightarrow> m)"

definition breaker_resetAll :: "unit async" where
  "breaker_resetAll = modify (\<lambda>m. m\<lparr>m_breakers := map (\<lambda>(gid, b). (gid, cb_reset b)) (m_breakers m)\<rparr>)"

definition breaker_allow :: "app_config \<Rightarrow> string \<Rightarrow> (bool \<times> cb_state) async" where
  "breaker_allow C gid =
     bind date_now (\<lambda>now.
       sync_step (\<lambda>m. let (gate, b) = allowCall now (breaker_of C m gid) in (gate, put_breaker gid b m)))"

text \<open>The callbacks of a breaker emit \<open>circuit.opened\<close> and \<open>circuit.closed\<close>.\<close>

definition breaker_signal :: "string \<Rightarrow> cb_signal \<Rightarrow> unit async" where
  "breaker_signal gid sig =
     bind date_now (\<lambda>now. emit (case sig of OnOpened \<Rightarrow> Ev_circuit_opened gid now | OnClosed \<Rightarrow> Ev_circuit_closed gid now))"

definition breaker_record :: "app_config \<Rightarrow> string \<Rightarrow> bool \<Rightarrow> unit async" where
  "breaker_record C gid ok =
     bind date_now (\<lambda>now.
     bind (sync_step (\<lambda>m. let (b, sigs) = recordOutcome now ok (breaker_of C m gid) in (sigs, put_breaker gid b m))) (\<lambda>sigs.
       block (map (breaker_signal gid) sigs)))"

definition breaker_state :: "app_config \<Rightarrow> string \<Rightarrow> cb_snapshot async" where
  "breaker_state C gid =
     bind (breaker_get C gid) (\<lambda>_. bind date_now (\<lambda>now.
       sync_step (\<lambda>m. let (sn, b) = cb_getState now (breaker_of C m gid) in (sn, put_breaker gid b m))))"

subsection \<open>Gateways\<close>

definition mock_get :: "string \<Rightarrow> unit async" where
  "mock_get gid = Get (\<lambda>m. if jhas (m_mocks m) gid then Ret () else modify (put_mock gid (fresh_mock gid)))"

definition mock_configure :: "string \<Rightarrow> behavior_patch \<Rightarrow> unit async" where
  "mock_configure gid p = bind (mock_get gid) (\<lambda>_. modify (\<lambda>m. put_mock gid (mg_configure p (mock_of m gid)) m))"

definition mock_reset :: "string \<Rightarrow> unit async" where
  "mock_reset gid = bind (mock_get gid) (\<lambda>_. modify (\<lambda>m. put_mock gid (mg_reset (mock_of m gid)) m))"

definition mock_resetAll :: "unit async" where
  "mock_resetAll = modify (\<lambda>m. m\<lparr>m_mocks := map (\<lambda>(gid, g). (gid, mg_reset g)) (m_mocks m)\<rparr>)"

definition mock_charge :: "string \<Rightarrow> string option \<Rightarrow> charge_result async" where
  "mock_charge gid correlationId =
     bind math_random (\<lambda>rnd.
     bind (sync_step (\<lambda>m. let (r, g) = charge_begin rnd correlationId (mock_of m gid) in (r, put_mock gid g m))) (\<lambda>(step, latencyMs).
     bind (sleep latencyMs) (\<lambda>_.
     bind date_now (\<lambda>now.
       sync_step (\<lambda>m. let (r, g) = charge_finish now step latencyMs (mock_of m gid) in (r, put_mock gid g m))))))"

definition mock_refund :: "string \<Rightarrow> string \<Rightarrow> refund_result async" where
  "mock_refund gid transactionId =
     bind math_random (\<lambda>rnd.
     bind (sync_step (\<lambda>m. let (r, g) = refund_begin rnd (mock_of m gid) in (r, put_mock gid g m))) (\<lambda>(step, latencyMs).
     bind (sleep latencyMs) (\<lambda>_.
       sync_step (\<lambda>m. let (r, g) = refund_finish transactionId step latencyMs (mock_of m gid) in (r, put_mock gid g m)))))"

subsection \<open>Lemmas on the registries\<close>

lemma of_put [simp]:
  "bucket_of C (put_bucket gid b m) gid = b"
  "gid' \<noteq> gid \<Longrightarrow> bucket_of C (put_bucket gid b m) gid' = bucket_of C m gid'"
  "bucket_of C (put_breaker gid k m) x = bucket_of C m x"
  "bucket_of C (put_mock gid g m) x = bucket_of C m x"
  "breaker_of C (put_breaker gid k m) gid = k"
  "gid' \<noteq> gid \<Longrightarrow> breaker_of C (put_breaker gid k m) gid' = breaker_of C m gid'"
  "breaker_of C (put_bucket gid b m) x = breaker_of C m x"
  "breaker_of C (put_mock gid g m) x = breaker_of C m x"
  "mock_of (put_mock gid g m) gid = g"
  "gid' \<noteq> gid \<Longrightarrow> mock_of (put_mock gid g m) gid' = mock_of m gid'"
  "mock_of (put_bucket gid b m) x = mock_of m x"
  "mock_of (put_breaker gid k m) x = mock_of m x"
  by (simp_all add: bucket_of_def breaker_of_def mock_of_def put_bucket_def put_breaker_def put_mock_def)

lemma of_emitted [simp]:
  "bucket_of C (m\<lparr>m_emitted := evs\<rparr>) x = bucket_of C m x"
  "breaker_of C (m\<lparr>m_emitted := evs\<rparr>) x = breaker_of C m x"
  "mock_of (m\<lparr>m_emitted := evs\<rparr>) x = mock_of m x"
  by (simp_all add: bucket_of_def breaker_of_def mock_of_def)

lemma of_object [simp]:
  "bucket_of C (put_object ref r m) x = bucket_of C m x"
  "breaker_of C (put_object ref r m) x = breaker_of C m x"
  "mock_of (put_object ref r m) x = mock_of m x"
  "object (put_bucket gid b m) ref = object m ref"
  "object (put_breaker gid k m) ref = object m ref"
  "object (put_mock gid g m) ref = object m ref"
  by (simp_all add: bucket_of_def breaker_of_def mock_of_def object_def put_object_def
      put_bucket_def put_breaker_def put_mock_def)

lemma emitted_put [simp]:
  "m_emitted (put_bucket gid b m) = m_emitted m" "m_emitted (put_breaker gid k m) = m_emitted m"
  "m_emitted (put_mock gid g m) = m_emitted m"
  by (simp_all add: put_bucket_def put_breaker_def put_mock_def)

lemma breaker_of_fresh: "\<not> jhas (m_breakers m) gid \<Longrightarrow> breaker_of C m gid = newBreaker (cfg_circuitBreaker C)"
  by (simp add: breaker_of_def jhas_def)

lemma mock_of_fresh: "\<not> jhas (m_mocks m) gid \<Longrightarrow> mock_of m gid = fresh_mock gid"
  by (simp add: mock_of_def jhas_def)

subsection \<open>The interface of a registry\<close>

text \<open>
  What a client of a registry relies on: dereferencing after an update gives the new
  object for the gateway updated and the old ones for all others. The three registries
  of the process are instances.
\<close>

locale gateway_registry =
  fixes deref :: "mem \<Rightarrow> string \<Rightarrow> 'o"
    and put :: "string \<Rightarrow> 'o \<Rightarrow> mem \<Rightarrow> mem"
  assumes deref_put: "deref (put gid x m) gid = x"
    and deref_other: "gid' \<noteq> gid \<Longrightarrow> deref (put gid x m) gid' = deref m gid'"
    and put_put: "put gid x (put gid y m) = put gid x m"
begin

text \<open>A method call on the object of one gateway leaves the objects of the others alone.\<close>

lemma method_isolated:
  assumes "gid' \<noteq> gid"
  shows "deref (snd (let (r, x) = f (deref m gid) in (r, put gid x m))) gid' = deref m gid'"
  using assms by (simp add: deref_other split: prod.splits)

lemma method_effect:
  "deref (snd (let (r, x) = f (deref m gid) in (r, put gid x m))) gid = snd (f (deref m gid))"
  by (simp add: deref_put split: prod.splits)

end

lemma jset_jset [simp]: "jset (jset m k v) k v' = jset m k v'"
  by (induction m) (auto simp: jset_def)

interpretation limiters: gateway_registry "bucket_of C" put_bucket for C
  by unfold_locales (simp_all add: put_bucket_def bucket_of_def)

interpretation breakers: gateway_registry "breaker_of C" put_breaker for C
  by unfold_locales (simp_all add: put_breaker_def breaker_of_def)

interpretation providers: gateway_registry mock_of put_mock
  by unfold_locales (simp_all add: put_mock_def mock_of_def)

text \<open>
  \<open>elsewhere C gid m m'\<close>: between two memories, nothing that belongs to a gateway other
  than \<open>gid\<close> changed, and no payment record did.
\<close>

definition elsewhere :: "app_config \<Rightarrow> string \<Rightarrow> mem \<Rightarrow> mem \<Rightarrow> bool" where
  "elsewhere C gid m m' \<longleftrightarrow>
     (\<forall>x. x \<noteq> gid \<longrightarrow> bucket_of C m' x = bucket_of C m x \<and> breaker_of C m' x = breaker_of C m x \<and>
        mock_of m' x = mock_of m x) \<and>
     (\<forall>ref. object m' ref = object m ref) \<and> m_nextObject m' = m_nextObject m"

interpretation isolation: process_frame "elsewhere C gid" for C gid
  by unfold_locales (auto simp: elsewhere_def)

lemma next_put [simp]:
  "m_nextObject (put_bucket gid b m) = m_nextObject m"
  "m_nextObject (put_breaker gid k m) = m_nextObject m"
  "m_nextObject (put_mock gid g m) = m_nextObject m"
  by (simp_all add: put_bucket_def put_breaker_def put_mock_def)

lemma elsewhere_put [simp]:
  "elsewhere C gid m (put_bucket gid b m)" "elsewhere C gid m (put_breaker gid k m)"
  "elsewhere C gid m (put_mock gid g m)" "elsewhere C gid m (m\<lparr>m_emitted := evs\<rparr>)"
  "elsewhere C gid m m"
  by (simp_all add: elsewhere_def)

lemma elsewhere_method [simp]:
  "elsewhere C gid m (snd (let (r, b) = f m in (r, put_bucket gid b m)))"
  "elsewhere C gid m (snd (let (r, k) = f' m in (r, put_breaker gid k m)))"
  "elsewhere C gid m (snd (let (k, r) = f'' m in (r, put_breaker gid k m)))"
  "elsewhere C gid m (snd (let (r, g) = h m in (r, put_mock gid g m)))"
  by (simp_all split: prod.splits)

subsection \<open>Waiting for a token ends\<close>

context js_world
begin

lemma wp_tryAcquire:
  "wp H (limiter_tryAcquire C gid) Q m w =
     (case tryAcquire (clock w) (bucket_of C m gid) of (ok, b) \<Rightarrow> Q (Inr ok) (put_bucket gid b m) w)"
  by (simp add: limiter_tryAcquire_def split: prod.splits)

lemma wp_wait_loop:
  assumes "nat \<lceil>until - of_int (clock w)\<rceil> < n"
  shows "wp H (wait_loop n C gid until)
     (\<lambda>r m' w'. (\<exists>ok. r = Inr ok) \<and> (\<exists>b. m' = put_bucket gid b m) \<and> clock w \<le> clock w') m w"
  using assms
proof (induction n arbitrary: m w)
  case 0
  then show ?case by simp
next
  case (Suc n)
  obtain ok b where acq: "tryAcquire (clock w) (bucket_of C m gid) = (ok, b)" by fastforce
  define ms where "ms = min 15 (max 5 (until - of_int (clock w)))"
  define w1 where "w1 = snd (H (Sleep ms) w)"
  have "clock w < clock w1"
    unfolding w1_def by (rule sleep_advances) (simp add: ms_def)
  show ?case
  proof (cases "ok \<or> of_int (clock w) \<ge> until")
    case True
    with acq show ?thesis by (auto simp: wp_tryAcquire)
  next
    case False
    then have "\<lceil>until - of_int (clock w1)\<rceil> < \<lceil>until - of_int (clock w)\<rceil>" "0 < \<lceil>until - of_int (clock w)\<rceil>"
      using \<open>clock w < clock w1\<close> by linarith+
    with Suc.prems have "nat \<lceil>until - of_int (clock w1)\<rceil> < n" by linarith
    from Suc.IH [OF this, of "put_bucket gid b m"] False acq \<open>clock w < clock w1\<close> show ?thesis
      by (auto simp: wp_tryAcquire limiters.put_put ms_def [symmetric] w1_def [symmetric] elim!: wp_mono)
  qed
qed

text \<open>\<open>waitForToken\<close> answers in every world whose clock advances while it sleeps.\<close>

lemma wp_waitForToken:
  "wp H (waitForToken C gid timeoutMs)
     (\<lambda>r m' w'. (\<exists>ok. r = Inr ok) \<and> (\<exists>b. m' = put_bucket gid b m) \<and> clock w \<le> clock w') m w"
  by (simp add: waitForToken_def wait_fuel_def wp_wait_loop del: wait_loop.simps)

end

subsection \<open>Objects created on first use\<close>

text \<open>The memory after \<open>get(gatewayId)\<close> of a registry.\<close>

definition with_bucket :: "app_config \<Rightarrow> string \<Rightarrow> timestamp \<Rightarrow> mem \<Rightarrow> mem" where
  "with_bucket C gid now m = (if jhas (m_buckets m) gid then m else put_bucket gid (newBucket (cfg_rateLimiter C) now) m)"

definition with_breaker :: "app_config \<Rightarrow> string \<Rightarrow> mem \<Rightarrow> mem" where
  "with_breaker C gid m = (if jhas (m_breakers m) gid then m else put_breaker gid (newBreaker (cfg_circuitBreaker C)) m)"

definition with_mock :: "string \<Rightarrow> mem \<Rightarrow> mem" where
  "with_mock gid m = (if jhas (m_mocks m) gid then m else put_mock gid (fresh_mock gid) m)"

lemma with_breaker_views [simp]:
  "breaker_of C (with_breaker C gid m) x = breaker_of C m x"
  "bucket_of C (with_breaker C gid m) x = bucket_of C m x"
  "mock_of (with_breaker C gid m) x = mock_of m x"
  "object (with_breaker C gid m) ref = object m ref"
  "m_emitted (with_breaker C gid m) = m_emitted m"
  "m_nextObject (with_breaker C gid m) = m_nextObject m"
  by (cases "x = gid"; simp add: with_breaker_def breaker_of_fresh)
    (simp_all add: with_breaker_def)

lemma with_mock_views [simp]:
  "mock_of (with_mock gid m) x = mock_of m x"
  "breaker_of C (with_mock gid m) x = breaker_of C m x"
  "bucket_of C (with_mock gid m) x = bucket_of C m x"
  "object (with_mock gid m) ref = object m ref"
  "m_emitted (with_mock gid m) = m_emitted m"
  "m_nextObject (with_mock gid m) = m_nextObject m"
  by (cases "x = gid"; simp add: with_mock_def mock_of_fresh)
    (simp_all add: with_mock_def)

lemma with_bucket_views [simp]:
  "x \<noteq> gid \<Longrightarrow> bucket_of C (with_bucket C gid now m) x = bucket_of C m x"
  "breaker_of C (with_bucket C gid now m) x = breaker_of C m x"
  "mock_of (with_bucket C gid now m) x = mock_of m x"
  "object (with_bucket C gid now m) ref = object m ref"
  "m_emitted (with_bucket C gid now m) = m_emitted m"
  "m_nextObject (with_bucket C gid now m) = m_nextObject m"
  by (simp_all add: with_bucket_def)

lemma wp_breaker_get [simp]: "wp H (breaker_get C gid) Q m w = Q (Inr ()) (with_breaker C gid m) w"
  by (simp add: breaker_get_def with_breaker_def)

lemma wp_mock_get [simp]: "wp H (mock_get gid) Q m w = Q (Inr ()) (with_mock gid m) w"
  by (simp add: mock_get_def with_mock_def)

lemma wp_limiter_success [simp]:
  "wp H (limiter_success C gid) Q m w = Q (Inr ()) (put_bucket gid (onSuccess (bucket_of C m gid)) m) w"
  by (simp add: limiter_success_def)

definition circuit_event :: "string \<Rightarrow> timestamp \<Rightarrow> cb_signal \<Rightarrow> app_event" where
  "circuit_event gid now sig = (case sig of OnOpened \<Rightarrow> Ev_circuit_opened gid now | OnClosed \<Rightarrow> Ev_circuit_closed gid now)"

context js_world
begin

lemma wp_limiter_get [simp]: "wp H (limiter_get C gid) Q m w = Q (Inr ()) (with_bucket C gid (clock w) m) w"
  by (simp add: limiter_get_def with_bucket_def)

lemma wp_breaker_allow [simp]:
  "wp H (breaker_allow C gid) Q m w =
     Q (Inr (fst (allowCall (clock w) (breaker_of C m gid)))) (put_breaker gid (snd (allowCall (clock w) (breaker_of C m gid))) m) w"
  by (simp add: breaker_allow_def case_prod_unfold Let_def)

lemma wp_limiter_throttled [simp]:
  "wp H (limiter_throttled C gid) Q m w =
     (let m1 = put_bucket gid (fst (onThrottled (bucket_of C m gid))) m
      in Q (Inr ()) (m1\<lparr>m_emitted := m_emitted m1 @ [Ev_throttled gid (clock w)]\<rparr>) w)"
  by (simp add: limiter_throttled_def Let_def)

lemma wp_signals:
  "wp H (block (map (breaker_signal gid) sigs)) Q m w =
     Q (Inr ()) (m\<lparr>m_emitted := m_emitted m @ map (circuit_event gid (clock w)) sigs\<rparr>) w"
  by (induction sigs arbitrary: m) (simp_all add: breaker_signal_def circuit_event_def)

lemma wp_breaker_record [simp]:
  "wp H (breaker_record C gid ok) Q m w =
     (let (b, sigs) = recordOutcome (clock w) ok (breaker_of C m gid)
      in Q (Inr ()) ((put_breaker gid b m)\<lparr>m_emitted := m_emitted m @ map (circuit_event gid (clock w)) sigs\<rparr>) w)"
  by (simp add: breaker_record_def wp_signals case_prod_unfold Let_def)

lemma wp_mock_charge:
  assumes "\<And>rnd w' step lat g. clock w \<le> clock w' \<Longrightarrow> charge_begin rnd cid (mock_of m gid) = ((step, lat), g) \<Longrightarrow>
     Q (Inr (fst (charge_finish (clock w') step lat g))) (put_mock gid (snd (charge_finish (clock w') step lat g)) m) w'"
  shows "wp H (mock_charge gid cid) Q m w"
  unfolding mock_charge_def wp_bind
proof (rule wp_math_random, goal_cases)
  case (1 rnd)
  define w1 where "w1 = snd (H Math_random w)"
  obtain step lat g where b: "charge_begin rnd cid (mock_of m gid) = ((step, lat), g)" by (metis surj_pair)
  have "clock w \<le> clock (snd (H (Sleep lat) w1))"
    using clock_mono [of w Math_random] clock_mono [of w1 "Sleep lat"] by (simp add: w1_def)
  from assms [OF this b] b
  show ?case
    by (simp add: providers.put_put case_prod_unfold Let_def w1_def)
qed

lemma wp_mock_refund:
  assumes "\<And>rnd w' step lat g. clock w \<le> clock w' \<Longrightarrow> refund_begin rnd (mock_of m gid) = ((step, lat), g) \<Longrightarrow>
     Q (Inr (fst (refund_finish t step lat g))) (put_mock gid (snd (refund_finish t step lat g)) m) w'"
  shows "wp H (mock_refund gid t) Q m w"
  unfolding mock_refund_def wp_bind
proof (rule wp_math_random, goal_cases)
  case (1 rnd)
  define w1 where "w1 = snd (H Math_random w)"
  obtain step lat g where b: "refund_begin rnd (mock_of m gid) = ((step, lat), g)" by (metis surj_pair)
  have "clock w \<le> clock (snd (H (Sleep lat) w1))"
    using clock_mono [of w Math_random] clock_mono [of w1 "Sleep lat"] by (simp add: w1_def)
  from assms [OF this b] b
  show ?case
    by (simp add: providers.put_put case_prod_unfold Let_def w1_def)
qed

end

end
