(* ===== verification/Gateway_Guard.thy ===== *)
theory Gateway_Guard
  imports Gateway_Registries
begin

text \<open>
  The Gateway Guard of \<^verbatim>\<open>src/gateway/gateway-guard.ts\<close>, the one seam between the saga and
  a payment gateway: \<open>call\<close> sequences token bucket, circuit breaker, charge,
  classification and feedback; \<open>refund\<close> bypasses the gates; \<open>health\<close> observes. The lemmas
  give, for every world, what a call did to the three objects of its gateway; the
  properties are fault isolation, fast failure, the feedback rules and the fate of a
  probe that is answered with a permanent rejection.
\<close>

datatype call_outcome =
    Call_ok (co_transactionId: string) (co_httpStatus: int) (co_latencyMs: rat)
  | Call_failed (co_error: payment_processing_error)

datatype refund_outcome =
    Refund_done (ro_refundId: string) (ro_httpStatus: int) (ro_latencyMs: rat)
  | Refund_failed (ro_error: payment_processing_error)

record guard_policy =
  gp_rateLimiter :: "tb_patch option"
  gp_circuitBreaker :: "cb_patch option"

record gateway_health =
  gh_gatewayId :: string
  gh_state :: cb_state
  gh_samples :: nat
  gh_failures :: nat
  gh_failureRate :: rat
  gh_tripCount :: nat
  gh_rate :: rat
  gh_burst :: rat
  gh_tokens :: rat
  gh_throttleCount :: nat

primrec cb_state_text :: "cb_state \<Rightarrow> string" where
  "cb_state_text CLOSED = ''CLOSED''"
| "cb_state_text OPEN = ''OPEN''"
| "cb_state_text HALF_OPEN = ''HALF_OPEN''"

definition toProcessingError :: "gateway_failure \<Rightarrow> string \<Rightarrow> payment_processing_error" where
  "toProcessingError failure gatewayId =
     newPaymentProcessingError (gf_message failure) (gf_code failure) (Some (gf_httpStatus failure)) (Some gatewayId)"

definition no_token_error :: "app_config \<Rightarrow> string \<Rightarrow> payment_processing_error" where
  "no_token_error C gatewayId = newPaymentProcessingError
     (''gateway '' @ gatewayId @ '' rate limiter: no token within '' @ show_num (tokenWaitMs (cfg_rateLimiter C)) @ ''ms'')
     RATE_LIMITED (Some 429) (Some gatewayId)"

definition circuit_error :: "string \<Rightarrow> cb_state \<Rightarrow> payment_processing_error" where
  "circuit_error gatewayId st = newPaymentProcessingError
     (''gateway '' @ gatewayId @ '' circuit is '' @ cb_state_text st @ ''; call fast-failed'')
     CIRCUIT_OPEN (Some 503) (Some gatewayId)"

text \<open>The code of \<open>call\<close> after the charge: feedback into the bucket and the breaker.\<close>

definition guard_feedback :: "app_config \<Rightarrow> string \<Rightarrow> charge_result \<Rightarrow> call_outcome async" where
  "guard_feedback C gatewayId charge =
     (case charge of
        Charge_fail failure _ \<Rightarrow>
          (let error = toProcessingError failure gatewayId
           in bind (if gf_httpStatus failure = 429 \<or> gf_httpStatus failure = 503
                    then limiter_throttled C gatewayId else Ret ()) (\<lambda>_.
              bind (if pe_retryable error then breaker_record C gatewayId False else Ret ()) (\<lambda>_.
                Ret (Call_failed error))))
      | Charge_ok transactionId httpStatus latencyMs \<Rightarrow>
          bind (breaker_record C gatewayId True) (\<lambda>_.
          bind (limiter_success C gatewayId) (\<lambda>_.
            Ret (Call_ok transactionId httpStatus latencyMs))))"

definition guard_call :: "app_config \<Rightarrow> 'x payment_scheme \<Rightarrow> string option \<Rightarrow> call_outcome async" where
  "guard_call C payment correlationId =
     (let gatewayId = p_gatewayId payment
      in bind (limiter_get C gatewayId) (\<lambda>_.
         bind (waitForToken C gatewayId (tokenWaitMs (cfg_rateLimiter C))) (\<lambda>admitted.
           if \<not> admitted then Ret (Call_failed (no_token_error C gatewayId))
           else
             bind (breaker_get C gatewayId) (\<lambda>_.
             bind (breaker_allow C gatewayId) (\<lambda>(allowed, st).
               if \<not> allowed then Ret (Call_failed (circuit_error gatewayId st))
               else
                 bind (mock_get gatewayId) (\<lambda>_.
                 bind (mock_charge gatewayId correlationId) (\<lambda>charge.
                   guard_feedback C gatewayId charge)))))))"

definition guard_refund :: "string \<Rightarrow> string \<Rightarrow> refund_outcome async" where
  "guard_refund gatewayId transactionId =
     bind (mock_get gatewayId) (\<lambda>_.
     bind (mock_refund gatewayId transactionId) (\<lambda>refund.
       case refund of
         Refund_fail failure _ \<Rightarrow> Ret (Refund_failed (toProcessingError failure gatewayId))
       | Refund_ok refundId httpStatus latencyMs \<Rightarrow> Ret (Refund_done refundId httpStatus latencyMs)))"

definition guard_configure :: "app_config \<Rightarrow> string \<Rightarrow> guard_policy \<Rightarrow> unit async" where
  "guard_configure C gatewayId policy =
     bind (case gp_rateLimiter policy of None \<Rightarrow> Ret () | Some p \<Rightarrow> limiter_configure C gatewayId p) (\<lambda>_.
       case gp_circuitBreaker policy of None \<Rightarrow> Ret () | Some p \<Rightarrow> breaker_configure C gatewayId p)"

definition guard_health :: "app_config \<Rightarrow> string \<Rightarrow> gateway_health async" where
  "guard_health C gatewayId =
     bind (breaker_state C gatewayId) (\<lambda>breaker.
     bind (limiter_state C gatewayId) (\<lambda>bucket.
       Ret \<lparr>gh_gatewayId = gatewayId, gh_state = sn_state breaker, gh_samples = sn_samples breaker,
            gh_failures = sn_failures breaker, gh_failureRate = sn_failureRate breaker,
            gh_tripCount = sn_tripCount breaker, gh_rate = ts_rate bucket, gh_burst = ts_burst bucket,
            gh_tokens = ts_tokens bucket, gh_throttleCount = ts_throttleCount bucket\<rparr>))"

subsection \<open>What a guarded call does\<close>

definition classified :: "string \<Rightarrow> charge_result \<Rightarrow> call_outcome" where
  "classified gid r =
     (case r of Charge_ok tid st lat \<Rightarrow> Call_ok tid st lat | Charge_fail f _ \<Rightarrow> Call_failed (toProcessingError f gid))"

definition breaker_feedback :: "timestamp \<Rightarrow> charge_result \<Rightarrow> breaker \<Rightarrow> breaker" where
  "breaker_feedback now r b =
     (case r of
        Charge_ok _ _ _ \<Rightarrow> fst (recordOutcome now True b)
      | Charge_fail f _ \<Rightarrow> if isTransient (gf_code f) then fst (recordOutcome now False b) else b)"

definition bucket_feedback :: "charge_result \<Rightarrow> bucket \<Rightarrow> bucket" where
  "bucket_feedback r b =
     (case r of
        Charge_ok _ _ _ \<Rightarrow> onSuccess b
      | Charge_fail f _ \<Rightarrow> if gf_httpStatus f = 429 \<or> gf_httpStatus f = 503 then fst (onThrottled b) else b)"

text \<open>
  The specification of \<open>call\<close>: between times \<open>t\<close> and \<open>t'\<close>, with memories \<open>m\<close> before and
  \<open>m'\<close> after, a call ended in one of three ways.
\<close>

inductive guarded :: "app_config \<Rightarrow> string \<Rightarrow> string option \<Rightarrow> timestamp \<Rightarrow> mem \<Rightarrow> call_outcome \<Rightarrow> mem \<Rightarrow> timestamp \<Rightarrow> bool"
  for C gid cid t m where
  no_token: "mock_of m' gid = mock_of m gid \<Longrightarrow> breaker_of C m' gid = breaker_of C m gid \<Longrightarrow>
     guarded C gid cid t m (Call_failed (no_token_error C gid)) m' t'"
| fast_fail: "t \<le> now \<Longrightarrow> now \<le> t' \<Longrightarrow> allowCall now (breaker_of C m gid) = ((False, st), b) \<Longrightarrow>
     mock_of m' gid = mock_of m gid \<Longrightarrow> breaker_of C m' gid = b \<Longrightarrow>
     guarded C gid cid t m (Call_failed (circuit_error gid st)) m' t'"
| charged: "t \<le> now \<Longrightarrow> now \<le> now' \<Longrightarrow> now' \<le> t' \<Longrightarrow> allowCall now (breaker_of C m gid) = ((True, st), b) \<Longrightarrow>
     charge_begin rnd cid (mock_of m gid) = ((step, lat), g) \<Longrightarrow>
     charge_finish now' step lat g = (r, g') \<Longrightarrow> mock_of m' gid = g' \<Longrightarrow>
     breaker_of C m' gid = breaker_feedback now' r b \<Longrightarrow> bucket_of C m' gid = bucket_feedback r bk \<Longrightarrow>
     guarded C gid cid t m (classified gid r) m' t'"

inductive_cases guardedE: "guarded C gid cid t m out m' t'"

lemma toProcessingError_sel [simp]:
  "pe_code (toProcessingError f gid) = gf_code f" "pe_retryable (toProcessingError f gid) = isTransient (gf_code f)"
  "pe_message (toProcessingError f gid) = gf_message f" "wf_error (toProcessingError f gid)"
  by (simp_all add: toProcessingError_def)

context js_world
begin

lemma wp_feedback:
  "wp H (guard_feedback C gid r)
     (\<lambda>x m' w'. x = Inr (classified gid r) \<and> w' = w \<and> elsewhere C gid m m' \<and> mock_of m' gid = mock_of m gid \<and>
        breaker_of C m' gid = breaker_feedback (clock w) r (breaker_of C m gid) \<and>
        bucket_of C m' gid = bucket_feedback r (bucket_of C m gid)) m w"
  by (cases r) (auto simp: guard_feedback_def classified_def breaker_feedback_def bucket_feedback_def
      elsewhere_def Let_def split: prod.splits)

lemma wp_charge:
  "wp H (bind (mock_get gid) (\<lambda>_. bind (mock_charge gid cid) (guard_feedback C gid)))
     (\<lambda>x m' w'. \<exists>rnd step lat g r g'. charge_begin rnd cid (mock_of m gid) = ((step, lat), g) \<and>
        charge_finish (clock w') step lat g = (r, g') \<and> x = Inr (classified gid r) \<and> mock_of m' gid = g' \<and>
        breaker_of C m' gid = breaker_feedback (clock w') r (breaker_of C m gid) \<and>
        bucket_of C m' gid = bucket_feedback r (bucket_of C m gid) \<and> elsewhere C gid m m' \<and> clock w \<le> clock w') m w"
  unfolding wp_bind wp_mock_get sum.case
proof (rule wp_mock_charge, goal_cases)
  case (1 rnd w' step lat g)
  obtain r g' where f: "charge_finish (clock w') step lat g = (r, g')" by fastforce
  have e: "elsewhere C gid m (put_mock gid g' (with_mock gid m))" by (simp add: elsewhere_def)
  show ?case unfolding sum.case
  proof (rule wp_mono [OF wp_feedback], goal_cases)
    case (1 x m' w'')
    then have "elsewhere C gid m m'" using f e by (auto intro: isolation.frame_trans)
    with 1 f \<open>clock w \<le> clock w'\<close> \<open>charge_begin rnd cid _ = _\<close> show ?case
      by (intro exI [of _ rnd] exI [of _ step] exI [of _ lat] exI [of _ g] exI [of _ r] exI [of _ g']) simp
  qed
qed

lemma wp_admitted:
  "wp H (bind (breaker_get C gid) (\<lambda>_. bind (breaker_allow C gid) (\<lambda>(allowed, st).
         if \<not> allowed then Ret (Call_failed (circuit_error gid st))
         else bind (mock_get gid) (\<lambda>_. bind (mock_charge gid cid) (guard_feedback C gid)))))
     (\<lambda>r m' w'. \<exists>out. r = Inr out \<and> guarded C gid cid (clock w) m out m' (clock w') \<and>
        elsewhere C gid m m' \<and> clock w \<le> clock w') m w"
proof -
  define b where "b = breaker_of C m gid"
  obtain allowed st b' where g: "allowCall (clock w) b = ((allowed, st), b')" by (metis surj_pair)
  define m1 where "m1 = put_breaker gid b' (with_breaker C gid m)"
  have e: "elsewhere C gid m m1" by (simp add: elsewhere_def m1_def)
  show ?thesis
  proof (cases allowed)
    case False
    then have "guarded C gid cid (clock w) m (Call_failed (circuit_error gid st)) m1 (clock w)"
      using g by (intro fast_fail [of _ "clock w"]) (auto simp: m1_def b_def)
    with False g e show ?thesis by (simp add: b_def [symmetric] m1_def [symmetric])
  next
    case True
    have m1: "breaker_of C m1 gid = b'" "mock_of m1 gid = mock_of m gid" by (simp_all add: m1_def)
    have "wp H (bind (mock_get gid) (\<lambda>_. bind (mock_charge gid cid) (guard_feedback C gid)))
       (\<lambda>r m' w'. \<exists>out. r = Inr out \<and> guarded C gid cid (clock w) m out m' (clock w') \<and>
        elsewhere C gid m m' \<and> clock w \<le> clock w') m1 w"
      using g True by (intro wp_mono [OF wp_charge])
        (fastforce simp: m1 b_def intro: charged [of _ "clock w"] isolation.frame_trans [OF e])
    with True g show ?thesis
      unfolding wp_bind [of H "breaker_get C gid"] wp_bind [of H "breaker_allow C gid"] wp_breaker_get wp_breaker_allow
      by (simp add: b_def [symmetric] m1_def [symmetric] del: wp_bind)
  qed
qed

lemma guarded_from:
  assumes "guarded C gid cid t m1 out m' t'" and "s \<le> t" and "breaker_of C m1 gid = breaker_of C m gid"
    and "mock_of m1 gid = mock_of m gid"
  shows "guarded C gid cid s m out m' t'"
  using assms(1)
proof cases
  case (fast_fail now st b)
  with assms show ?thesis by (auto intro: guarded.fast_fail [of _ now])
next
  case (charged now now' st b rnd step lat g r g' bk)
  with assms show ?thesis by (auto intro!: guarded.charged [of _ now now'])
qed (use assms in \<open>auto intro: guarded.no_token\<close>)

lemma wp_guard_call:
  assumes gid: "gid = p_gatewayId p"
  shows "wp H (guard_call C p cid)
     (\<lambda>r m' w'. \<exists>out. r = Inr out \<and> guarded C gid cid (clock w) m out m' (clock w') \<and>
        elsewhere C gid m m' \<and> clock w \<le> clock w') m w"
  (is "wp H _ ?Q m w")
proof -
  define m1 where "m1 = with_bucket C gid (clock w) m"
  have step: "wp H (if \<not> ok then Ret (Call_failed (no_token_error C gid))
      else bind (breaker_get C gid) (\<lambda>_. bind (breaker_allow C gid) (\<lambda>(allowed, st).
         if \<not> allowed then Ret (Call_failed (circuit_error gid st))
         else bind (mock_get gid) (\<lambda>_. bind (mock_charge gid cid) (guard_feedback C gid))))) ?Q m2 w2"
    if "m2 = put_bucket gid b m1" "clock w \<le> clock w2" for ok b m2 w2
  proof -
    have v: "breaker_of C m2 gid = breaker_of C m gid" "mock_of m2 gid = mock_of m gid" "elsewhere C gid m m2"
      by (simp_all add: that m1_def elsewhere_def)
    show ?thesis
    proof (cases ok)
      case True
      then have t: "(\<not> ok) = False" by simp
      show ?thesis unfolding t if_False using that v
        by (intro wp_mono [OF wp_admitted]) (blast intro: guarded_from isolation.frame_trans order_trans)
    qed (use that v in \<open>auto intro: guarded.no_token\<close>)
  qed
  show ?thesis
    unfolding guard_call_def Let_def gid [symmetric] wp_bind [of H "limiter_get C gid"]
      wp_bind [of H "waitForToken C gid x" for x] wp_limiter_get sum.case
    using step unfolding m1_def by (intro wp_mono [OF wp_waitForToken]) (elim conjE exE, hypsubst, unfold sum.case, blast)
qed

end

subsection \<open>Refunds, health, and later calls\<close>

definition charges :: "mem \<Rightarrow> string \<Rightarrow> nat" where
  "charges m gid = ms_charges (mg_stats (mock_of m gid))"

definition refunds :: "mem \<Rightarrow> string \<Rightarrow> nat" where
  "refunds m gid = ms_refunds (mg_stats (mock_of m gid))"

text \<open>Calls of the guard one after another.\<close>

primrec guard_calls :: "app_config \<Rightarrow> 'x payment_scheme list \<Rightarrow> call_outcome list async" where
  "guard_calls C [] = Ret []"
| "guard_calls C (p # ps) =
     bind (guard_call C p None) (\<lambda>out. bind (guard_calls C ps) (\<lambda>outs. Ret (out # outs)))"

lemma guarded_counts:
  assumes "guarded C gid cid t m out m' t'"
  shows "(charges m' gid = charges m gid \<or> charges m' gid = charges m gid + 1) \<and> refunds m' gid = refunds m gid \<and>
    mg_id (mock_of m' gid) = mg_id (mock_of m gid) \<and>
    (case out of
       Call_ok tid st lat \<Rightarrow> charges m' gid = charges m gid + 1 \<and> mg_getStatus tid (mock_of m' gid) = Succeeded
     | Call_failed e \<Rightarrow> wf_error e)"
  using assms
proof cases
  case (charged now now' st b rnd step lat g r g' bk)
  have "ms_charges (mg_stats g) = charges m gid + 1" "ms_refunds (mg_stats g) = refunds m gid" "mg_id g = mg_id (mock_of m gid)"
    using charged(6) charge_begin_charges [of rnd cid "mock_of m gid"] charge_begin_refunds [of rnd cid "mock_of m gid"]
      charge_begin_id [of rnd cid "mock_of m gid"]
    by (simp_all add: charges_def refunds_def)
  moreover have "ms_charges (mg_stats g') = ms_charges (mg_stats g)" "ms_refunds (mg_stats g') = ms_refunds (mg_stats g)"
    "mg_id g' = mg_id g"
    using charged(7) charge_finish_charges [of now' step lat g] charge_finish_refunds [of now' step lat g]
      charge_finish_id [of now' step lat g] by simp_all
  moreover note charged(1,7,8)
  ultimately show ?thesis
    by (cases r) (simp_all add: classified_def charges_def refunds_def charge_finish_ok)
qed (auto simp: charges_def refunds_def no_token_error_def circuit_error_def)

lemma guarded_refused:
  assumes "guarded C gid cid t m out m' t'" and "\<And>now. t \<le> now \<Longrightarrow> now \<le> t' \<Longrightarrow> \<not> fst (fst (allowCall now (breaker_of C m gid)))"
  shows "(\<exists>e. out = Call_failed e \<and> pe_code e \<in> {CIRCUIT_OPEN, RATE_LIMITED}) \<and> mock_of m' gid = mock_of m gid \<and>
    breaker_of C m' gid = breaker_of C m gid"
  using assms(1)
proof cases
  case (fast_fail now st b)
  then have "snd (allowCall now (breaker_of C m gid)) = breaker_of C m gid"
    by (auto simp: allowCall_def split: cb_state.splits if_splits)
  with fast_fail show ?thesis by (simp add: circuit_error_def)
next
  case (charged now now' st b rnd step lat g r g' bk)
  with assms(2) [of now] show ?thesis by simp
qed (auto simp: no_token_error_def)

context js_world
begin

lemma wp_guard_refund:
  "wp H (guard_refund gid tid)
     (\<lambda>r m' w'. (\<exists>out. r = Inr out \<and> (case out of Refund_done _ _ _ \<Rightarrow> True | Refund_failed e \<Rightarrow> wf_error e)) \<and>
        elsewhere C gid m m' \<and> bucket_of C m' gid = bucket_of C m gid \<and> breaker_of C m' gid = breaker_of C m gid \<and>
        charges m' gid = charges m gid \<and> refunds m' gid = refunds m gid + 1 \<and> m_emitted m' = m_emitted m \<and>
        clock w \<le> clock w') m w"
  unfolding guard_refund_def wp_bind wp_mock_get sum.case
proof (rule wp_mock_refund, goal_cases)
  case (1 rnd w' step lat g)
  have g: "ms_charges (mg_stats g) = charges m gid" "ms_refunds (mg_stats g) = refunds m gid + 1"
    using 1(2) refund_begin_charges [of rnd "mock_of m gid"] refund_begin_refunds [of rnd "mock_of m gid"]
    by (simp_all add: charges_def refunds_def)
  obtain r g' where f: "refund_finish tid step lat g = (r, g')" by fastforce
  then have "ms_charges (mg_stats g') = charges m gid" "ms_refunds (mg_stats g') = refunds m gid + 1"
    using g refund_finish_charges [of tid step lat g] refund_finish_refunds [of tid step lat g] by simp_all
  with 1 f show ?case
    by (cases r) (auto simp: charges_def refunds_def elsewhere_def)
qed

lemma wp_guard_health:
  "wp H (guard_health C gid)
     (\<lambda>r m' w'. w' = w \<and> (\<exists>h. r = Inr h \<and> gh_state h = cb_state (breaker_of C m gid) \<and>
        gh_tripCount h = cb_tripCount (breaker_of C m gid)) \<and> elsewhere C gid m m' \<and> m_emitted m' = m_emitted m \<and>
        mock_of m' gid = mock_of m gid \<and> breaker_of C m' gid = prune (clock w) (breaker_of C m gid)) m w"
  by (simp add: guard_health_def breaker_state_def limiter_state_def cb_getState_def elsewhere_def
      case_prod_unfold Let_def)

lemma wp_guard_calls_refused:
  assumes "\<forall>p \<in> set ps. p_gatewayId p = gid" and "cb_state (breaker_of C m gid) = HALF_OPEN" and "cb_probeInFlight (breaker_of C m gid)"
  shows "wp H (guard_calls C ps)
     (\<lambda>r m' w'. (\<exists>outs. r = Inr outs \<and> length outs = length ps \<and> (\<forall>out \<in> set outs. \<exists>e. out = Call_failed e)) \<and>
        mock_of m' gid = mock_of m gid \<and> breaker_of C m' gid = breaker_of C m gid) m w"
  using assms
proof (induction ps arbitrary: m w)
  case (Cons p ps m w)
  have no: "\<not> fst (fst (allowCall now (breaker_of C m gid)))" for now
    using Cons.prems by (simp add: allowCall_def)
  show ?case
    unfolding guard_calls.simps wp_bind [of H "guard_call C p None"]
  proof (rule wp_mono [OF wp_guard_call [where gid = gid and w = w and m = m]], goal_cases)
    case (2 r m' w')
    then obtain out where o: "r = Inr out" "guarded C gid None (clock w) m out m' (clock w')" by auto
    note ref = guarded_refused [OF o(2) no]
    then have "cb_state (breaker_of C m' gid) = HALF_OPEN" "cb_probeInFlight (breaker_of C m' gid)"
      using Cons.prems by simp_all
    from Cons.IH [OF _ this, of w'] Cons.prems ref o(1) show ?case
      by (auto elim!: wp_mono)
  qed (use Cons.prems in auto)
qed simp

end

subsection \<open>Properties of the guard\<close>

text \<open>
  Concrete values for the instances below: the default configuration with no patience for
  tokens, one payment, and a breaker that opened at time 1000.
\<close>

definition sample_config :: app_config where
  "sample_config = default_config\<lparr>cfg_rateLimiter := (cfg_rateLimiter default_config)\<lparr>tokenWaitMs := 0\<rparr>\<rparr>"

definition sample_record :: payment_record where
  "sample_record = createPaymentRecord
     \<lparr>ci_id = ''p1'', ci_amount = 500, ci_currency = ''EUR'', ci_customerId = ''c1'', ci_gatewayId = ''stripe'',
      ci_priority = Normal, ci_maxRetries = None, ci_metadata = None, ci_scheduledAt = None,
      ci_correlationId = None, ci_createdAt = None\<rparr> 900"

definition sample_breaker :: "cb_state \<Rightarrow> breaker" where
  "sample_breaker st = (newBreaker (cfg_circuitBreaker default_config))
     \<lparr>cb_state := st, cb_openedAt := 1000, cb_tripCount := 1, cb_probeInFlight := (st = HALF_OPEN)\<rparr>"

text \<open>A provider that answers every charge with status 402.\<close>

definition sample_decliner :: mock_gateway where
  "sample_decliner = mg_configure
     \<lparr>bp_latencyMinMs = Some 5, bp_latencyMaxMs = Some 5, bp_steps = None, bp_after = Some (Step_fail 402 None),
      bp_refundSteps = None\<rparr> (newMockGateway ''stripe'')"

fun declined :: "exn + call_outcome \<Rightarrow> bool" where
  "declined (Inr (Call_failed e)) = (\<not> pe_retryable e)"
| "declined r = False"

fun_cases declinedE: "declined r"

text \<open>
  C12. Isolation and accounting of a gateway attempt, in every world (no assumption on
  Redis at all): the guard answers with an outcome and never throws or hangs; the limiter,
  the breaker and the provider of every other gateway and all payment records are as
  before; the provider is charged at most once; a reported success is exactly one charge
  whose transaction the provider knows as succeeded, and a reported failure carries an
  error whose retry flag agrees with its code.
\<close>

theorem guard_isolation:
  assumes "js_world H clock"
  shows "\<exists>out m' w'. run H (guard_call C p cid) m w = Some (Inr out, m', w') \<and>
    elsewhere C (p_gatewayId p) m m' \<and> charges m' (p_gatewayId p) \<le> charges m (p_gatewayId p) + 1 \<and>
    (case out of
       Call_ok tid st lat \<Rightarrow>
         charges m' (p_gatewayId p) = charges m (p_gatewayId p) + 1 \<and>
         mg_getStatus tid (mock_of m' (p_gatewayId p)) = Succeeded
     | Call_failed e \<Rightarrow> pe_retryable e = isTransient (pe_code e))"
proof -
  from js_world.wp_guard_call [OF assms refl, THEN wp_run]
  obtain out m' w' where o: "run H (guard_call C p cid) m w = Some (Inr out, m', w')"
    "guarded C (p_gatewayId p) cid (clock w) m out m' (clock w')" "elsewhere C (p_gatewayId p) m m'" by blast
  with guarded_counts [OF o(2)] show ?thesis
    by (cases out) (auto simp: wf_error_def)
qed

theorem guard_isolation_witness:
  "\<exists>out m' w'. run faulty_step (guard_call default_config sample_record None) empty_mem start_world = Some (Inr out, m', w') \<and>
    elsewhere default_config ''stripe'' empty_mem m'"
  using guard_isolation [OF faulty.js_world_axioms, of default_config sample_record None empty_mem start_world]
  by (auto simp: sample_record_def createPaymentRecord_def)

text \<open>
  C21. Fast failure: when the circuit of a gateway is open and the attempt ends before the
  cool-down has passed, the provider is not called, its state and the breaker are
  untouched, and the attempt fails with a retryable refusal.
\<close>

theorem guard_fast_fail:
  assumes "js_world H clock" and "cb_state (breaker_of C m (p_gatewayId p)) = OPEN"
    and "run H (guard_call C p cid) m w = Some (r, m', w')"
    and "of_int (clock w' - cb_openedAt (breaker_of C m (p_gatewayId p))) < cooldownMs (cb_params (breaker_of C m (p_gatewayId p)))"
  shows "(\<exists>e. r = Inr (Call_failed e) \<and> pe_code e \<in> {CIRCUIT_OPEN, RATE_LIMITED}) \<and>
    mock_of m' (p_gatewayId p) = mock_of m (p_gatewayId p) \<and>
    breaker_of C m' (p_gatewayId p) = breaker_of C m (p_gatewayId p)"
proof -
  obtain out where o: "r = Inr out" "guarded C (p_gatewayId p) cid (clock w) m out m' (clock w')"
    using js_world.wp_guard_call [OF assms(1) refl, THEN wp_runD, OF assms(3)] by blast
  have "\<not> fst (fst (allowCall now (breaker_of C m (p_gatewayId p))))" if "now \<le> clock w'" for now
  proof -
    have "rat_of_int now \<le> of_int (clock w')" using that by simp
    with assms(2,4) show ?thesis by (simp add: allowCall_def)
  qed
  with guarded_refused [OF o(2)] o(1) show ?thesis by blast
qed

theorem guard_fast_fail_witness:
  "\<exists>r m' w'. run world_step (guard_call sample_config sample_record None)
       (put_breaker ''stripe'' (sample_breaker OPEN) empty_mem) start_world = Some (r, m', w') \<and>
     mock_of m' ''stripe'' = mock_of empty_mem ''stripe''"
proof -
  let ?m = "put_breaker ''stripe'' (sample_breaker OPEN) empty_mem"
  have "map_option (\<lambda>(r, m', w'). w_clock w') (run world_step (guard_call sample_config sample_record None) ?m start_world) = Some 1000"
    by code_simp
  then obtain r m' w' where ran: "run world_step (guard_call sample_config sample_record None) ?m start_world = Some (r, m', w')"
    "w_clock w' = 1000" by auto
  have g: "p_gatewayId sample_record = ''stripe''" by (simp add: sample_record_def createPaymentRecord_def)
  have "cooldownMs (cfg_circuitBreaker default_config) = 30000" by code_simp
  with guard_fast_fail [OF calm.js_world_axioms _ ran(1)] ran show ?thesis
    by (simp add: g sample_breaker_def newBreaker_def)
qed

text \<open>
  Business rejections are not provider degradation: after a charge that failed with a
  permanent code, the breaker has the samples and the trip count it had. But the breaker
  is not told at all: if the call was a half-open probe, the breaker stays half-open with
  the probe marked in flight.
\<close>

theorem permanent_rejection_not_sampled:
  assumes "js_world H clock" and "run H (guard_call C p cid) m w = Some (Inr (Call_failed e), m', w')"
    and "\<not> pe_retryable e"
  shows "cb_window (breaker_of C m' (p_gatewayId p)) = cb_window (breaker_of C m (p_gatewayId p)) \<and>
    cb_tripCount (breaker_of C m' (p_gatewayId p)) = cb_tripCount (breaker_of C m (p_gatewayId p)) \<and>
    charges m' (p_gatewayId p) = charges m (p_gatewayId p) + 1 \<and>
    (if cb_state (breaker_of C m (p_gatewayId p)) = CLOSED
     then breaker_of C m' (p_gatewayId p) = breaker_of C m (p_gatewayId p)
     else cb_state (breaker_of C m' (p_gatewayId p)) = HALF_OPEN \<and> cb_probeInFlight (breaker_of C m' (p_gatewayId p)))"
proof -
  let ?gid = "p_gatewayId p"
  have "guarded C ?gid cid (clock w) m (Call_failed e) m' (clock w')"
    using js_world.wp_guard_call [OF assms(1) refl, THEN wp_runD, OF assms(2)] by blast
  then show ?thesis
  proof cases
    case (charged now now' st b rnd step lat g r g' bk)
    with assms(3) have "breaker_of C m' ?gid = b"
      by (cases r) (auto simp: classified_def breaker_feedback_def)
    moreover have "charges m' ?gid = charges m ?gid + 1"
      using charged(6-8) charge_begin_charges [of rnd cid "mock_of m ?gid"] charge_finish_charges [of now' step lat g]
      by (simp add: charges_def)
    moreover have "b = snd (allowCall now (breaker_of C m ?gid))" "fst (fst (allowCall now (breaker_of C m ?gid)))"
      using charged(5) by simp_all
    ultimately show ?thesis
      by (auto simp: allowCall_def split: cb_state.splits if_splits)
  qed (use assms(3) in \<open>auto simp: no_token_error_def circuit_error_def transient_simps\<close>)
qed

theorem permanent_rejection_not_sampled_witness:
  "\<exists>r m' w'. run world_step (guard_call sample_config sample_record None)
       (put_mock ''stripe'' sample_decliner empty_mem) start_world = Some (r, m', w') \<and>
     cb_window (breaker_of sample_config m' ''stripe'') = [] \<and> charges m' ''stripe'' = 1"
proof -
  let ?m = "put_mock ''stripe'' sample_decliner empty_mem"
  have "map_option (\<lambda>(r, m', w'). declined r)
      (run world_step (guard_call sample_config sample_record None) ?m start_world) = Some True"
    by code_simp
  then obtain e m' w' where ran: "run world_step (guard_call sample_config sample_record None) ?m start_world = Some (Inr (Call_failed e), m', w')"
    "\<not> pe_retryable e" by (auto elim: declinedE)
  have g: "p_gatewayId sample_record = ''stripe''" by (simp add: sample_record_def createPaymentRecord_def)
  have "breaker_of sample_config empty_mem ''stripe'' = newBreaker (cfg_circuitBreaker sample_config)"
    by (simp add: breaker_of_def empty_mem_def)
  with permanent_rejection_not_sampled [OF calm.js_world_axioms ran] ran(1) show ?thesis
    by (simp add: g newBreaker_def charges_def sample_decliner_def mg_configure_def newMockGateway_def)
qed



text \<open>
  Compensation bypasses the gates: a refund always reaches the provider, exactly
  once, whatever the state of limiter and breaker, and changes neither of them for any
  gateway.
\<close>

theorem refund_ungated:
  assumes "js_world H clock"
  shows "\<exists>out m' w'. run H (guard_refund gid tid) m w = Some (Inr out, m', w') \<and>
    refunds m' gid = refunds m gid + 1 \<and> charges m' gid = charges m gid \<and>
    (\<forall>x. bucket_of C m' x = bucket_of C m x \<and> breaker_of C m' x = breaker_of C m x)"
  proof -
  from js_world.wp_guard_refund [OF assms, where C = C, THEN wp_run]
  obtain out m' w' where "run H (guard_refund gid tid) m w = Some (Inr out, m', w')" "elsewhere C gid m m'"
    "bucket_of C m' gid = bucket_of C m gid" "breaker_of C m' gid = breaker_of C m gid"
    "refunds m' gid = refunds m gid + 1" "charges m' gid = charges m gid" by blast
  then show ?thesis unfolding elsewhere_def by (metis (no_types))
qed

theorem refund_ungated_witness:
  "\<exists>out m' w'. run faulty_step (guard_refund ''stripe'' ''t1'') empty_mem start_world = Some (Inr out, m', w') \<and>
    refunds m' ''stripe'' = refunds empty_mem ''stripe'' + 1"
  using refund_ungated [OF faulty.js_world_axioms, of "''stripe''" "''t1''" empty_mem start_world default_config] by blast

text \<open>
  Observing the health of a gateway is free of side effects on its gate: the breaker
  keeps its state, its trip count and its probe marker, reports its true state, and
  answers every later call as it would have without the observation.
\<close>

theorem health_observes:
  assumes "js_world H clock"
  shows "\<exists>h m' w'. run H (guard_health C gid) m w = Some (Inr h, m', w') \<and>
    gh_state h = cb_state (breaker_of C m gid) \<and> gh_tripCount h = cb_tripCount (breaker_of C m gid) \<and>
    elsewhere C gid m m' \<and> mock_of m' gid = mock_of m gid \<and>
    (\<forall>now. fst (allowCall now (breaker_of C m' gid)) = fst (allowCall now (breaker_of C m gid)))"
proof -
  obtain h m' w' where "run H (guard_health C gid) m w = Some (Inr h, m', w')" "gh_state h = cb_state (breaker_of C m gid)"
    "gh_tripCount h = cb_tripCount (breaker_of C m gid)" "elsewhere C gid m m'" "mock_of m' gid = mock_of m gid"
    "breaker_of C m' gid = prune (clock w) (breaker_of C m gid)"
    using js_world.wp_guard_health [OF assms, THEN wp_run] by blast
  then show ?thesis by (auto simp: allowCall_def split: cb_state.splits)
qed

theorem health_observes_witness:
  "\<exists>h m' w'. run faulty_step (guard_health default_config ''stripe'') empty_mem start_world = Some (Inr h, m', w') \<and>
    gh_state h = CLOSED"
  using health_observes [OF faulty.js_world_axioms, of default_config "''stripe''" empty_mem start_world]
  by (auto simp: breaker_of_def empty_mem_def newBreaker_def)

subsection \<open>The guard does not touch Redis\<close>

lemma no_redis_wait: "no_redis (wait_loop n C gid until)"
  by (induction n) (auto intro!: no_redis_bind no_redis_steps calls_in.intros simp: limiter_tryAcquire_def)

lemma no_redis_registries:
  "no_redis (limiter_get C gid)" "no_redis (waitForToken C gid ms)" "no_redis (limiter_throttled C gid)"
  "no_redis (limiter_success C gid)" "no_redis (breaker_get C gid)" "no_redis (breaker_allow C gid)"
  "no_redis (breaker_record C gid ok)" "no_redis (mock_get gid)" "no_redis (mock_charge gid cid)"
  "no_redis (mock_refund gid tid)"
  unfolding limiter_get_def waitForToken_def limiter_throttled_def limiter_success_def breaker_get_def
    breaker_allow_def breaker_record_def mock_get_def mock_charge_def mock_refund_def breaker_signal_def
  by (auto intro!: calls_in.intros no_redis_bind no_redis_steps no_redis_wait no_redis_block)

lemma no_redis_feedback: "no_redis (guard_feedback C gid r)"
  by (cases r) (auto simp: guard_feedback_def Let_def intro!: calls_in.intros no_redis_bind no_redis_registries)

lemma no_redis_guard: "no_redis (guard_call C p cid)" "no_redis (guard_refund gid tid)"
  unfolding guard_call_def guard_refund_def Let_def
  by (auto intro!: calls_in.intros no_redis_bind no_redis_registries no_redis_feedback split: refund_result.split)

end
