(* ===== verification/Database.thy ===== *)
theory Database
  imports Idempotency Tracing
begin

text \<open>
  The abstract database behind the Redis keys: documents, audit logs, the settlement
  ledger, leases and locks. Each operation of the record services and of the idempotency
  service refines an update of this database: the rules below, one per operation, are
  what the proofs about saga, worker and service use; none of them looks at a key again.
  A rule has one premise for each way the operation can end; an operation that fails
  leaves the database as it was.
\<close>

record db =
  docs :: "string \<Rightarrow> payment_record option"
  audits :: "string \<Rightarrow> audit_event list"
  ledger :: "settlement_entry list"
  leases :: "string \<Rightarrow> (idempotency_record \<times> timestamp) option"
  locks :: "string \<Rightarrow> timestamp option"

definition db_of :: "keyspace \<Rightarrow> db" where
  "db_of ks =
     \<lparr>docs = doc_of ks,
      audits = (\<lambda>pid. List.map_filter parse_audit (list_at ks (audit_key pid))),
      ledger = List.map_filter parse_settlement (list_at ks ledger_key),
      leases = (\<lambda>pid. case ks (idem_key pid) of Some (StrV (P_idem r), Some t) \<Rightarrow> Some (r, t) | _ \<Rightarrow> None),
      locks = (\<lambda>pid. case ks (lock_key pid) of Some (v, Some t) \<Rightarrow> Some t | _ \<Rightarrow> None)\<rparr>"

text \<open>The lease and the lock as a reader at time \<open>t\<close> sees them.\<close>

definition lease_at :: "db \<Rightarrow> timestamp \<Rightarrow> string \<Rightarrow> idempotency_record option" where
  "lease_at d t pid = (case leases d pid of Some (r, e) \<Rightarrow> if t < e then Some r else None | None \<Rightarrow> None)"

definition locked_at :: "db \<Rightarrow> timestamp \<Rightarrow> string \<Rightarrow> bool" where
  "locked_at d t pid = (case locks d pid of Some e \<Rightarrow> t < e | None \<Rightarrow> False)"

text \<open>\<open>holds clock ks t d w\<close>: world \<open>w\<close> is at time \<open>t\<close> or later and its database is \<open>d\<close>.\<close>

definition holds :: "('w \<Rightarrow> timestamp) \<Rightarrow> ('w \<Rightarrow> keyspace) \<Rightarrow> timestamp \<Rightarrow> db \<Rightarrow> 'w \<Rightarrow> bool" where
  "holds clock ks t d w \<longleftrightarrow> t \<le> clock w \<and> typed (ks w) \<and> db_of (ks w) = d"

text \<open>No command of this connection ever fails.\<close>

definition never_fails :: "(cmd \<Rightarrow> 'w \<Rightarrow> reply \<times> 'w) \<Rightarrow> ('w \<Rightarrow> timestamp) \<Rightarrow> ('w \<Rightarrow> keyspace) \<Rightarrow> bool" where
  "never_fails H clock ks \<longleftrightarrow>
     (\<forall>c w. is_redis c \<longrightarrow> (fst (H c w), ks (snd (H c w))) = redis_sem c (clock (snd (H c w))) (ks w))"

lemma holds_quiet: "holds clock ks t d w \<Longrightarrow> quiet clock ks w w' \<Longrightarrow> holds clock ks t d w'"
  by (simp add: holds_def quiet_def)

lemma holds_now: "holds clock ks t d w \<Longrightarrow> holds clock ks (clock w) d w"
  by (simp add: holds_def)

lemma map_filter_parse [simp]:
  "List.map_filter parse_audit (map P_audit as) = as"
  "List.map_filter parse_settlement (map P_settlement ss) = ss"
  by (induction as, simp_all add: List.map_filter_def parse_audit_def)
    (induction ss, simp_all add: List.map_filter_def parse_settlement_def)

subsection \<open>The keyspace and the database\<close>

lemma live_doc:
  assumes "typed ks"
  shows "live t ks (payment_key pid) =
    (case ks (payment_key pid) of None \<Rightarrow> None | Some (v, e) \<Rightarrow> Some v)"
  using assms by (auto simp: live_def typed_def split: option.splits)

lemma hget_sem:
  assumes "typed ks"
  shows "\<exists>p. redis_sem (Redis_hget (payment_key pid) ''doc'') t ks = (p, ks) \<and>
    (p = R_nil \<and> docs (db_of ks) pid = None \<or>
     (\<exists>q. p = R_payload q \<and> docs (db_of ks) pid = parse_payment (Some q)))"
proof (cases "ks (payment_key pid)")
  case None
  then show ?thesis by (simp add: live_doc [OF assms] db_of_def doc_of_def)
next
  case (Some ve)
  with assms obtain h where h: "ks (payment_key pid) = Some (HashV h, None)"
    using typed_at(1) by blast
  then show ?thesis
    by (cases "jget h ''doc''") (simp_all add: live_doc [OF assms] db_of_def doc_of_def parse_payment_def)
qed

lemma hset_sem:
  assumes "typed ks"
  shows "p_id r = pid \<Longrightarrow> \<exists>n ks'. redis_sem (Redis_hset (payment_key pid) ''doc'' (P_payment r)) t ks = (R_int n, ks') \<and> typed ks' \<and>
    db_of ks' = (db_of ks)\<lparr>docs := (docs (db_of ks))(pid \<mapsto> r)\<rparr>"
proof -
  obtain n h where sem: "redis_sem (Redis_hset (payment_key pid) ''doc'' (P_payment r)) t ks =
      (R_int n, ks(payment_key pid \<mapsto> (HashV h, None)))" and h: "jget h ''doc'' = Some (P_payment r)"
  proof (cases "ks (payment_key pid)")
    case None
    then show ?thesis using that [of 1 "[(''doc'', P_payment r)]"]
      by (simp add: live_doc [OF assms] jget_def)
  next
    case (Some ve)
    with assms obtain h where h: "ks (payment_key pid) = Some (HashV h, None)"
      using typed_at(1) by blast
    then show ?thesis using that [of "if jhas h ''doc'' then 0 else 1" "jset h ''doc'' (P_payment r)"]
      by (simp add: live_doc [OF assms] expiry_of_def)
  qed
  have "db_of (ks(payment_key pid \<mapsto> (HashV h, None))) = (db_of ks)\<lparr>docs := (docs (db_of ks))(pid \<mapsto> r)\<rparr>"
    using h by (auto simp: db_of_def doc_of_def list_at_def parse_payment_def fun_eq_iff)
  moreover assume "p_id r = pid"
  then have "typed (ks(payment_key pid \<mapsto> (HashV h, None)))" by (intro typed_updates(1) [OF assms]) (use h in simp)
  ultimately show "\<exists>n ks'. redis_sem (Redis_hset (payment_key pid) ''doc'' (P_payment r)) t ks = (R_int n, ks') \<and> typed ks' \<and>
    db_of ks' = (db_of ks)\<lparr>docs := (docs (db_of ks))(pid \<mapsto> r)\<rparr>" using sem by blast
qed

lemma docs_id: "typed ks \<Longrightarrow> docs (db_of ks) pid = Some r \<Longrightarrow> p_id r = pid"
  using typed_at(1) [of ks pid]
  by (fastforce simp: db_of_def doc_of_def parse_payment_def split: option.splits redis_value.splits payload.splits prod.splits)

lemma rpush_audit_sem:
  assumes "typed ks"
  shows "\<exists>n ks'. redis_sem (Redis_rpush (audit_key pid) (P_audit e)) t ks = (R_int n, ks') \<and> typed ks' \<and>
    db_of ks' = (db_of ks)\<lparr>audits := (audits (db_of ks))(pid := audits (db_of ks) pid @ [e])\<rparr>"
proof -
  obtain n where sem: "redis_sem (Redis_rpush (audit_key pid) (P_audit e)) t ks =
      (R_int n, ks(audit_key pid \<mapsto> (ListV (map P_audit (audits (db_of ks) pid @ [e])), None)))"
  proof (cases "ks (audit_key pid)")
    case None
    then show ?thesis using that by (simp add: live_def db_of_def list_at_def List.map_filter_def)
  next
    case (Some ve)
    with assms obtain as where "ks (audit_key pid) = Some (ListV (map P_audit as), None)"
      using typed_at(2) by blast
    then show ?thesis using that by (simp add: live_def expiry_of_def db_of_def list_at_def)
  qed
  have "db_of (ks(audit_key pid \<mapsto> (ListV (map P_audit as), None))) = (db_of ks)\<lparr>audits := (audits (db_of ks))(pid := as)\<rparr>" for as
    by (auto simp: db_of_def doc_of_def list_at_def fun_eq_iff)
  with sem typed_updates(2) [OF assms] show ?thesis by blast
qed

lemma rpush_ledger_sem:
  assumes "typed ks"
  shows "\<exists>n ks'. redis_sem (Redis_rpush ledger_key (P_settlement e)) t ks = (R_int n, ks') \<and> typed ks' \<and>
    db_of ks' = (db_of ks)\<lparr>ledger := ledger (db_of ks) @ [e]\<rparr>"
proof -
  obtain n where sem: "redis_sem (Redis_rpush ledger_key (P_settlement e)) t ks =
      (R_int n, ks(ledger_key \<mapsto> (ListV (map P_settlement (ledger (db_of ks) @ [e])), None)))"
  proof (cases "ks ledger_key")
    case None
    then show ?thesis using that by (simp add: live_def db_of_def list_at_def List.map_filter_def)
  next
    case (Some ve)
    with assms obtain as where "ks ledger_key = Some (ListV (map P_settlement as), None)"
      using typed_at(3) by blast
    then show ?thesis using that by (simp add: live_def expiry_of_def db_of_def list_at_def)
  qed
  have "db_of (ks(ledger_key \<mapsto> (ListV (map P_settlement as), None))) = (db_of ks)\<lparr>ledger := as\<rparr>" for as
    by (auto simp: db_of_def doc_of_def list_at_def fun_eq_iff)
  with sem typed_updates(3) [OF assms] show ?thesis by blast
qed

lemma idem_live:
  assumes "typed ks"
  shows "live t ks (idem_key pid) = map_option (\<lambda>r. StrV (P_idem r)) (lease_at (db_of ks) t pid)"
proof (cases "ks (idem_key pid)")
  case (Some ve)
  with assms obtain r e where "ks (idem_key pid) = Some (StrV (P_idem r), Some e)" using typed_at(4) by blast
  then show ?thesis by (simp add: live_def lease_at_def db_of_def)
qed (simp add: live_def lease_at_def db_of_def)

lemma lock_live:
  assumes "typed ks"
  shows "live t ks (lock_key pid) = None \<longleftrightarrow> \<not> locked_at (db_of ks) t pid"
proof (cases "ks (lock_key pid)")
  case (Some ve)
  with assms obtain p e where "ks (lock_key pid) = Some (StrV p, Some e)" using typed_at(5) by blast
  then show ?thesis by (simp add: live_def locked_at_def db_of_def)
qed (simp add: live_def locked_at_def db_of_def)

lemma get_idem_sem:
  "typed ks \<Longrightarrow> redis_sem (Redis_get (idem_key pid)) t ks =
     (case lease_at (db_of ks) t pid of None \<Rightarrow> R_nil | Some r \<Rightarrow> R_payload (P_idem r), ks)"
  by (simp add: idem_live split: option.splits)

lemma db_of_idem:
  "db_of (ks(idem_key pid \<mapsto> (StrV (P_idem r), Some e))) = (db_of ks)\<lparr>leases := (leases (db_of ks))(pid \<mapsto> (r, e))\<rparr>"
  "db_of (ks(idem_key pid := None)) = (db_of ks)\<lparr>leases := (leases (db_of ks))(pid := None)\<rparr>"
  by (auto simp: db_of_def doc_of_def list_at_def fun_eq_iff)

lemma db_of_lock:
  "db_of (ks(lock_key pid \<mapsto> (StrV p, Some e))) = (db_of ks)\<lparr>locks := (locks (db_of ks))(pid \<mapsto> e)\<rparr>"
  "db_of (ks(lock_key pid := None)) = (db_of ks)\<lparr>locks := (locks (db_of ks))(pid := None)\<rparr>"
  by (auto simp: db_of_def doc_of_def list_at_def fun_eq_iff)

subsection \<open>The rules\<close>

context redis_world
begin

lemma wp_redis_call:
  assumes "is_redis c" and h: "holds clock ks t d w"
    and "\<And>w' e. holds clock ks t d w' \<Longrightarrow> clock w \<le> clock w' \<Longrightarrow> \<not> never_fails H clock ks \<Longrightarrow> wp H (k (R_error e)) Q m w'"
    and "\<And>w' r. clock w \<le> clock w' \<Longrightarrow> redis_sem c (clock w') (ks w) = (r, ks w') \<Longrightarrow> wp H (k r) Q m w'"
  shows "wp H (Call c k) Q m w"
proof -
  obtain r w' where c: "H c w = (r, w')" by fastforce
  have le: "clock w \<le> clock w'" using clock_mono [of w c] c by simp
  consider "redis_sem c (clock w') (ks w) = (r, ks w')" |
    "\<not> never_fails H clock ks" "\<exists>e. r = R_error e" "ks w' = ks w"
    using command [OF assms(1), of w] c assms(1) unfolding never_fails_def by (metis fst_conv snd_conv)
  then show ?thesis
  proof cases
    case 1
    with assms(4) [OF le] c show ?thesis by (simp add: wp_Call)
  next
    case 2
    then have "holds clock ks t d w'" using h le by (simp add: holds_def)
    with assms(3) 2 c le show ?thesis by (auto simp: wp_Call)
  qed
qed

lemma wp_store_save:
  assumes h: "holds clock ks t d w"
    and "\<And>w' e. holds clock ks t d w' \<Longrightarrow> \<not> never_fails H clock ks \<Longrightarrow> Q (Inl (JsError e)) m w'"
    and "\<And>w'. holds clock ks t (d\<lparr>docs := (docs d)(p_id r \<mapsto> r)\<rparr>) w' \<Longrightarrow> Q (Inr ()) m w'"
  shows "wp H (store_save r) Q m w"
  unfolding store_save_def redis_hset_def
proof (rule wp_redis_call [OF _ h], goal_cases)
  case (3 w' rep)
  from h have ty: "typed (ks w)" "db_of (ks w) = d" "t \<le> clock w" by (simp_all add: holds_def)
  from hset_sem [OF ty(1) refl, of r "clock w'"] 3 ty assms(3) [of w'] show ?case
    by (auto simp: holds_def simp del: redis_sem.simps)
qed (use assms(2) in \<open>auto simp: unexpected_def\<close>)

lemma wp_store_get:
  assumes h: "holds clock ks t d w"
    and "\<And>w' e. holds clock ks t d w' \<Longrightarrow> clock w \<le> clock w' \<Longrightarrow> \<not> never_fails H clock ks \<Longrightarrow> Q (Inl (JsError e)) m w'"
    and "\<And>w'. holds clock ks t d w' \<Longrightarrow> clock w \<le> clock w' \<Longrightarrow> \<forall>r. docs d pid = Some r \<longrightarrow> p_id r = pid \<Longrightarrow> Q (Inr (docs d pid)) m w'"
  shows "wp H (store_get pid) Q m w"
  unfolding store_get_def redis_hget_def bind.simps
proof (rule wp_redis_call [OF _ h], goal_cases)
  case (3 w' rep)
  from h have ty: "typed (ks w)" "db_of (ks w) = d" "t \<le> clock w" by (simp_all add: holds_def)
  from hget_sem [OF ty(1), of pid "clock w'"] 3 have "ks w' = ks w" by (auto simp del: redis_sem.simps)
  with ty 3 have "holds clock ks t d w'" by (simp add: holds_def)
  with assms(3) [of w'] hget_sem [OF ty(1), of pid "clock w'"] 3 ty docs_id [OF ty(1)] show ?case
    by (auto simp: parse_payment_def simp del: redis_sem.simps)
qed (use assms(2) in \<open>auto simp: unexpected_def\<close>)

lemma wp_audit:
  assumes h: "holds clock ks t d w"
    and "\<And>w' e. holds clock ks t d w' \<Longrightarrow> \<not> never_fails H clock ks \<Longrightarrow> Q (Inl (JsError e)) m w'"
    and "\<And>w' now. holds clock ks t (d\<lparr>audits := (audits d)(pid := audits d pid @
           [\<lparr>a_paymentId = pid, a_type = ty, a_at = now, a_detail = detail\<rparr>])\<rparr>) w' \<Longrightarrow> Q (Inr ()) m w'"
  shows "wp H (audit_record pid ty detail None) Q m w"
  unfolding audit_record_def option.case wp_bind wp_date_now sum.case redis_rpush_def
proof (rule wp_redis_call [OF _ h], goal_cases)
  case (3 w' rep)
  from h have ty: "typed (ks w)" "db_of (ks w) = d" "t \<le> clock w" by (simp_all add: holds_def)
  let ?e = "\<lparr>a_paymentId = pid, a_type = ty, a_at = clock w, a_detail = detail\<rparr>"
  from rpush_audit_sem [OF ty(1), of pid ?e "clock w'"] 3 ty assms(3) [of "clock w" w'] show ?case
    by (auto simp: holds_def simp del: redis_sem.simps)
qed (use assms(2) in \<open>auto simp: unexpected_def\<close>)

lemma wp_settle:
  assumes h: "holds clock ks t d w"
    and "\<And>w' e. holds clock ks t d w' \<Longrightarrow> \<not> never_fails H clock ks \<Longrightarrow> Q (Inl (JsError e)) m w'"
    and "\<And>w' now. holds clock ks t (d\<lparr>ledger := ledger d @ [settlement_of p tid now]\<rparr>) w' \<Longrightarrow>
           Q (Inr (settlement_of p tid now)) m w'"
  shows "wp H (ledger_settle p tid) Q m w"
  unfolding ledger_settle_def wp_bind wp_date_now sum.case redis_rpush_def
proof (rule wp_redis_call [OF _ h], goal_cases)
  case (3 w' rep)
  from h have ty: "typed (ks w)" "db_of (ks w) = d" "t \<le> clock w" by (simp_all add: holds_def)
  from rpush_ledger_sem [OF ty(1), of "settlement_of p tid (clock w)" "clock w'"] 3 ty assms(3) [of "clock w" w'] show ?case
    by (auto simp: holds_def simp del: redis_sem.simps)
qed (use assms(2) in \<open>auto simp: unexpected_def\<close>)

lemma wp_idem_get:
  assumes h: "holds clock ks t d w"
    and "\<And>w' e. holds clock ks t d w' \<Longrightarrow> clock w \<le> clock w' \<Longrightarrow> \<not> never_fails H clock ks \<Longrightarrow> Q (Inl (JsError e)) m w'"
    and "\<And>w'. holds clock ks t d w' \<Longrightarrow> clock w \<le> clock w' \<Longrightarrow> Q (Inr (lease_at d (clock w') pid)) m w'"
  shows "wp H (idem_get pid) Q m w"
  unfolding idem_get_def redis_get_def bind.simps
proof (rule wp_redis_call [OF _ h], goal_cases)
  case (3 w' rep)
  from h have ty: "typed (ks w)" "db_of (ks w) = d" "t \<le> clock w" by (simp_all add: holds_def)
  from get_idem_sem [OF ty(1), of pid "clock w'"] 3 have e: "ks w' = ks w" "rep = (case lease_at d (clock w') pid of None \<Rightarrow> R_nil | Some r \<Rightarrow> R_payload (P_idem r))"
    by (simp_all add: ty del: redis_sem.simps)
  with ty 3 have "holds clock ks t d w'" by (simp add: holds_def)
  with assms(3) [of w'] 3 e show ?case
    by (auto simp: parse_idem_def split: option.splits)
qed (use assms(2) in \<open>auto simp: unexpected_def\<close>)

lemma wp_idem_set:
  assumes h: "holds clock ks t d w" and ttl: "valid_ttl ttl"
    and "\<And>w' e. holds clock ks t d w' \<Longrightarrow> clock w \<le> clock w' \<Longrightarrow> \<not> never_fails H clock ks \<Longrightarrow> Q (Inl (JsError e)) m w'"
    and "\<And>w'. holds clock ks t (d\<lparr>leases := (leases d)(pid \<mapsto> (r, deadline (clock w') ttl))\<rparr>) w' \<Longrightarrow> clock w \<le> clock w' \<Longrightarrow>
           Q (Inr ()) m w'"
  shows "wp H (redis_set_ex (idem_key pid) (P_idem r) ttl) Q m w"
  unfolding redis_set_ex_def
proof (rule wp_redis_call [OF _ h], goal_cases)
  case (3 w' rep)
  from h have ty: "typed (ks w)" "db_of (ks w) = d" "t \<le> clock w" by (simp_all add: holds_def)
  with 3(1) 3(2) [symmetric] ttl assms(4) [of w'] typed_updates(4) [OF ty(1)] show ?case
    by (auto simp: holds_def db_of_idem)
qed (use assms(3) in \<open>auto simp: unexpected_def\<close>)

lemma wp_lock_nx:
  assumes h: "holds clock ks t d w" and ttl: "valid_ttl ttl"
    and "\<And>w' e. holds clock ks t d w' \<Longrightarrow> clock w \<le> clock w' \<Longrightarrow> \<not> never_fails H clock ks \<Longrightarrow> Q (Inl (JsError e)) m w'"
    and "\<And>w'. holds clock ks t d w' \<Longrightarrow> clock w \<le> clock w' \<Longrightarrow> locked_at d (clock w') pid \<Longrightarrow> Q (Inr False) m w'"
    and "\<And>w'. holds clock ks t (d\<lparr>locks := (locks d)(pid \<mapsto> deadline (clock w') ttl)\<rparr>) w' \<Longrightarrow> clock w \<le> clock w' \<Longrightarrow>
           \<not> locked_at d (clock w') pid \<Longrightarrow> Q (Inr True) m w'"
  shows "wp H (redis_set_ex_nx (lock_key pid) p ttl) Q m w"
  unfolding redis_set_ex_nx_def
proof (rule wp_redis_call [OF _ h], goal_cases)
  case (3 w' rep)
  from h have ty: "typed (ks w)" "db_of (ks w) = d" "t \<le> clock w" by (simp_all add: holds_def)
  with 3(1) 3(2) [symmetric] ttl assms(4,5) [of w'] typed_updates(5) [OF ty(1)] show ?case
    by (auto simp: holds_def db_of_lock lock_live split: if_splits)
qed (use assms(3) in \<open>auto simp: unexpected_def\<close>)

lemma wp_idem_nx:
  assumes h: "holds clock ks t d w" and ttl: "valid_ttl ttl"
    and "\<And>w' e. holds clock ks t d w' \<Longrightarrow> clock w \<le> clock w' \<Longrightarrow> \<not> never_fails H clock ks \<Longrightarrow> Q (Inl (JsError e)) m w'"
    and "\<And>w' x. holds clock ks t d w' \<Longrightarrow> clock w \<le> clock w' \<Longrightarrow> lease_at d (clock w') pid = Some x \<Longrightarrow> Q (Inr False) m w'"
    and "\<And>w'. holds clock ks t (d\<lparr>leases := (leases d)(pid \<mapsto> (r, deadline (clock w') ttl))\<rparr>) w' \<Longrightarrow> clock w \<le> clock w' \<Longrightarrow>
           lease_at d (clock w') pid = None \<Longrightarrow> Q (Inr True) m w'"
  shows "wp H (redis_set_ex_nx (idem_key pid) (P_idem r) ttl) Q m w"
  unfolding redis_set_ex_nx_def
proof (rule wp_redis_call [OF _ h], goal_cases)
  case (3 w' rep)
  from h have ty: "typed (ks w)" "db_of (ks w) = d" "t \<le> clock w" by (simp_all add: holds_def)
  with 3(1) 3(2) [symmetric] ttl assms(4,5) [of w'] typed_updates(4) [OF ty(1)] show ?case
    by (auto simp: holds_def db_of_idem idem_live split: if_splits)
qed (use assms(3) in \<open>auto simp: unexpected_def\<close>)

lemma wp_unlock:
  assumes h: "holds clock ks t d w"
    and "\<And>w' e. holds clock ks t d w' \<Longrightarrow> clock w \<le> clock w' \<Longrightarrow> \<not> never_fails H clock ks \<Longrightarrow> Q (Inl (JsError e)) m w'"
    and "\<And>w'. holds clock ks t (d\<lparr>locks := (locks d)(pid := None)\<rparr>) w' \<Longrightarrow> clock w \<le> clock w' \<Longrightarrow> Q (Inr ()) m w'"
  shows "wp H (releaseExecutionLock pid) Q m w"
  unfolding releaseExecutionLock_def redis_del_def
proof (rule wp_redis_call [OF _ h], goal_cases)
  case (3 w' rep)
  from h have ty: "typed (ks w)" "db_of (ks w) = d" "t \<le> clock w" by (simp_all add: holds_def)
  with 3(1) 3(2) [symmetric] assms(3) [of w'] typed_updates(7) [OF ty(1)] show ?case
    by (auto simp: holds_def db_of_lock)
qed (use assms(2) in \<open>auto simp: unexpected_def\<close>)

lemma wp_idem_release:
  assumes h: "holds clock ks t d w"
    and "\<And>w' e. holds clock ks t d w' \<Longrightarrow> clock w \<le> clock w' \<Longrightarrow> \<not> never_fails H clock ks \<Longrightarrow> Q (Inl (JsError e)) m w'"
    and "\<And>w'. holds clock ks t (d\<lparr>leases := (leases d)(pid := None)\<rparr>) w' \<Longrightarrow> clock w \<le> clock w' \<Longrightarrow> Q (Inr ()) m w'"
  shows "wp H (idem_release pid) Q m w"
  unfolding idem_release_def redis_del_def
proof (rule wp_redis_call [OF _ h], goal_cases)
  case (3 w' rep)
  from h have ty: "typed (ks w)" "db_of (ks w) = d" "t \<le> clock w" by (simp_all add: holds_def)
  with 3(1) 3(2) [symmetric] assms(3) [of w'] typed_updates(6) [OF ty(1)] show ?case
    by (auto simp: holds_def db_of_idem)
qed (use assms(2) in \<open>auto simp: unexpected_def\<close>)

end

context reliable_world
begin

lemma reliable: "never_fails H clock ks"
  by (simp add: never_fails_def no_failure)

end

subsection \<open>Outcomes over memory and database\<close>

text \<open>
  \<open>does H clock ks t p m d R\<close>: from memory \<open>m\<close>, in any world at time \<open>t\<close> or later whose
  database is \<open>d\<close>, program \<open>p\<close> ends, and \<open>R\<close> holds of its result, the memory and the
  database it leaves. The world is abstracted away; the rules of the collection below take
  a program apart construct by construct, \<open>after R q\<close> being the postcondition of the first
  part of a sequence.
\<close>

definition does :: "(cmd \<Rightarrow> 'w \<Rightarrow> reply \<times> 'w) \<Rightarrow> ('w \<Rightarrow> timestamp) \<Rightarrow> ('w \<Rightarrow> keyspace) \<Rightarrow> timestamp \<Rightarrow> 'a async \<Rightarrow> mem \<Rightarrow> db \<Rightarrow>
    (exn + 'a \<Rightarrow> mem \<Rightarrow> db \<Rightarrow> bool) \<Rightarrow> bool" where
  "does H clock ks t p m d R \<longleftrightarrow>
     (\<forall>w. holds clock ks t d w \<longrightarrow> wp H p (\<lambda>r m' w'. \<exists>d'. holds clock ks t d' w' \<and> R r m' d') m w)"

definition after :: "(exn + 'b \<Rightarrow> mem \<Rightarrow> db \<Rightarrow> bool) \<Rightarrow> ('a \<Rightarrow> mem \<Rightarrow> db \<Rightarrow> bool) \<Rightarrow> exn + 'a \<Rightarrow> mem \<Rightarrow> db \<Rightarrow> bool" where
  "after R K r m d = (case r of Inl e \<Rightarrow> R (Inl e) m d | Inr a \<Rightarrow> K a m d)"

definition caught :: "(exn + 'a \<Rightarrow> mem \<Rightarrow> db \<Rightarrow> bool) \<Rightarrow> (exn \<Rightarrow> mem \<Rightarrow> db \<Rightarrow> bool) \<Rightarrow> exn + 'a \<Rightarrow> mem \<Rightarrow> db \<Rightarrow> bool" where
  "caught R K r m d = (case r of Inl e \<Rightarrow> K e m d | Inr a \<Rightarrow> R (Inr a) m d)"

lemma after_Inl: "R (Inl e) m d \<Longrightarrow> after R K (Inl e) m d"
  by (simp add: after_def)

lemma after_Inr: "K a m d \<Longrightarrow> after R K (Inr a) m d"
  by (simp add: after_def)

lemma caught_Inl: "K e m d \<Longrightarrow> caught R K (Inl e) m d"
  by (simp add: caught_def)

lemma caught_Inr: "R (Inr a) m d \<Longrightarrow> caught R K (Inr a) m d"
  by (simp add: caught_def)

lemma do_conseq: "does H clock ks t p m d R \<Longrightarrow> (\<And>r m' d'. R r m' d' \<Longrightarrow> R' r m' d') \<Longrightarrow> does H clock ks t p m d R'"
  unfolding does_def by (blast intro: wp_mono)

lemma do_wp: "does H clock ks t p m d R \<Longrightarrow> holds clock ks t d w \<Longrightarrow>
    wp H p (\<lambda>r m' w'. \<exists>d'. holds clock ks t d' w' \<and> R r m' d') m w"
  by (simp add: does_def)

lemma do_bind:
  assumes "does H clock ks t p m d (after R (\<lambda>a m d. does H clock ks t (q a) m d R))"
  shows "does H clock ks t (bind p q) m d R"
  unfolding does_def wp_bind
proof (intro allI impI)
  fix w
  assume "holds clock ks t d w"
  from do_wp [OF assms this] show "wp H p (\<lambda>r s w. case r of Inl e \<Rightarrow> \<exists>d'. holds clock ks t d' w \<and> R (Inl e) s d'
      | Inr a \<Rightarrow> wp H (q a) (\<lambda>r m' w'. \<exists>d'. holds clock ks t d' w' \<and> R r m' d') s w) m w"
    by (rule wp_mono) (auto simp: after_def does_def split: sum.splits)
qed

lemma do_catch:
  assumes "does H clock ks t p m d (caught R (\<lambda>e m d. does H clock ks t (h e) m d R))"
  shows "does H clock ks t (catch p h) m d R"
  unfolding does_def wp_catch
proof (intro allI impI)
  fix w
  assume "holds clock ks t d w"
  from do_wp [OF assms this] show "wp H p (\<lambda>r s w. case r of Inl e \<Rightarrow> wp H (h e) (\<lambda>r m' w'. \<exists>d'. holds clock ks t d' w' \<and> R r m' d') s w
      | Inr a \<Rightarrow> \<exists>d'. holds clock ks t d' w \<and> R (Inr a) s d') m w"
    by (rule wp_mono) (auto simp: caught_def does_def split: sum.splits)
qed

lemma do_finally:
  assumes "does H clock ks t p m d (\<lambda>r m d. does H clock ks t q m d (after R (\<lambda>_. R r)))"
  shows "does H clock ks t (finally_do p q) m d R"
  unfolding does_def wp_finally
proof (intro allI impI)
  fix w
  assume "holds clock ks t d w"
  from do_wp [OF assms this]
  show "wp H p (\<lambda>r. wp H q (\<lambda>r'. case r' of Inl e \<Rightarrow> \<lambda>m' w'. \<exists>d'. holds clock ks t d' w' \<and> R (Inl e) m' d'
      | Inr _ \<Rightarrow> \<lambda>m' w'. \<exists>d'. holds clock ks t d' w' \<and> R r m' d')) m w"
  proof (rule wp_mono)
    fix r m1 w1
    assume "\<exists>d1. holds clock ks t d1 w1 \<and> does H clock ks t q m1 d1 (after R (\<lambda>_. R r))"
    then obtain d1 where "holds clock ks t d1 w1" "does H clock ks t q m1 d1 (after R (\<lambda>_. R r))" by blast
    from do_wp [OF this(2,1)]
    show "wp H q (\<lambda>r'. case r' of Inl e \<Rightarrow> \<lambda>m' w'. \<exists>d'. holds clock ks t d' w' \<and> R (Inl e) m' d'
      | Inr _ \<Rightarrow> \<lambda>m' w'. \<exists>d'. holds clock ks t d' w' \<and> R r m' d') m1 w1"
      by (rule wp_mono) (auto simp: after_def split: sum.splits)
  qed
qed

lemma do_Ret: "R (Inr a) m d \<Longrightarrow> does H clock ks t (Ret a) m d R"
  by (auto simp: does_def)

lemma do_Throw: "R (Inl e) m d \<Longrightarrow> does H clock ks t (Throw e) m d R"
  by (auto simp: does_def)

lemma do_Get: "does H clock ks t (k m) m d R \<Longrightarrow> does H clock ks t (Get k) m d R"
  by (auto simp: does_def)

lemma do_mutate: "R (Inr ()) (put_object ref (f (object m ref)) m) d \<Longrightarrow> does H clock ks t (mutate ref f) m d R"
  by (auto simp: does_def)

lemma do_emit: "R (Inr ()) (m\<lparr>m_emitted := m_emitted m @ [ev]\<rparr>) d \<Longrightarrow> does H clock ks t (emit ev) m d R"
  by (auto simp: does_def)

lemma do_new_object:
  "R (Inr (m_nextObject m)) (put_object (m_nextObject m) x (m\<lparr>m_nextObject := Suc (m_nextObject m)\<rparr>)) d \<Longrightarrow>
     does H clock ks t (new_object x) m d R"
  by (auto simp: does_def new_object_def)

context redis_world
begin

lemma do_date: "(\<And>now. t \<le> now \<Longrightarrow> R (Inr now) m d) \<Longrightarrow> does H clock ks t date_now m d R"
  by (auto simp: does_def holds_def)

lemma do_span: "does H clock ks t fn m d R \<Longrightarrow> does H clock ks t (withSpan n as fn) m d R"
  unfolding does_def
proof (intro allI impI)
  fix w
  assume fn: "\<forall>w. holds clock ks t d w \<longrightarrow> wp H fn (\<lambda>r m' w'. \<exists>d'. holds clock ks t d' w' \<and> R r m' d') m w"
    and w: "holds clock ks t d w"
  show "wp H (withSpan n as fn) (\<lambda>r m' w'. \<exists>d'. holds clock ks t d' w' \<and> R r m' d') m w"
  proof (rule wp_withSpan_keys)
    fix w0
    assume "quiet clock ks w w0"
    then have "holds clock ks t d w0" using w by (rule holds_quiet [rotated])
    with fn have "wp H fn (\<lambda>r m' w'. \<exists>d'. holds clock ks t d' w' \<and> R r m' d') m w0" by blast
    then show "wp H fn (\<lambda>r m' w1. \<forall>w2. quiet clock ks w1 w2 \<longrightarrow> (\<exists>d'. holds clock ks t d' w2 \<and> R r m' d')) m w0"
      by (rule wp_mono) (blast intro: holds_quiet)
  qed
qed

lemma do_save:
  assumes "\<And>e. \<not> never_fails H clock ks \<Longrightarrow> R (Inl (JsError e)) m d" and "R (Inr ()) m (d\<lparr>docs := (docs d)(p_id r \<mapsto> r)\<rparr>)"
  shows "does H clock ks t (store_save r) m d R"
  unfolding does_def using assms by (blast intro: wp_store_save)

lemma do_store_get:
  assumes "\<And>e. \<not> never_fails H clock ks \<Longrightarrow> R (Inl (JsError e)) m d"
    and "\<forall>r. docs d pid = Some r \<longrightarrow> p_id r = pid \<Longrightarrow> R (Inr (docs d pid)) m d"
  shows "does H clock ks t (store_get pid) m d R"
  unfolding does_def using assms by (blast intro: wp_store_get)

lemma do_audit:
  assumes "\<And>e. \<not> never_fails H clock ks \<Longrightarrow> R (Inl (JsError e)) m d"
    and "\<And>now. R (Inr ()) m (d\<lparr>audits := (audits d)(pid := audits d pid @
           [\<lparr>a_paymentId = pid, a_type = ty, a_at = now, a_detail = detail\<rparr>])\<rparr>)"
  shows "does H clock ks t (audit_record pid ty detail None) m d R"
  unfolding does_def using assms by (blast intro: wp_audit)

lemma do_settle:
  assumes "\<And>e. \<not> never_fails H clock ks \<Longrightarrow> R (Inl (JsError e)) m d"
    and "\<And>now. R (Inr (settlement_of p tid now)) m (d\<lparr>ledger := ledger d @ [settlement_of p tid now]\<rparr>)"
  shows "does H clock ks t (ledger_settle p tid) m d R"
  unfolding does_def using assms by (blast intro: wp_settle)

lemma do_idem_get:
  assumes "\<And>e. \<not> never_fails H clock ks \<Longrightarrow> R (Inl (JsError e)) m d" and "\<And>now. t \<le> now \<Longrightarrow> R (Inr (lease_at d now pid)) m d"
  shows "does H clock ks t (idem_get pid) m d R"
  unfolding does_def
proof (intro allI impI)
  fix w
  assume w: "holds clock ks t d w"
  have "R (Inr (lease_at d (clock w') pid)) m d" if "holds clock ks t d w'" for w'
    using assms(2) that by (simp add: holds_def)
  with w assms(1) show "wp H (idem_get pid) (\<lambda>r m' w'. \<exists>d'. holds clock ks t d' w' \<and> R r m' d') m w"
    by (blast intro: wp_idem_get)
qed

lemma do_idem_set:
  assumes "valid_ttl ttl" and "\<And>e. \<not> never_fails H clock ks \<Longrightarrow> R (Inl (JsError e)) m d"
    and "\<And>now. t \<le> now \<Longrightarrow> R (Inr ()) m (d\<lparr>leases := (leases d)(pid \<mapsto> (r, deadline now ttl))\<rparr>)"
  shows "does H clock ks t (redis_set_ex (idem_key pid) (P_idem r) ttl) m d R"
  unfolding does_def
proof (intro allI impI)
  fix w
  assume w: "holds clock ks t d w"
  then have "R (Inr ()) m (d\<lparr>leases := (leases d)(pid \<mapsto> (r, deadline (clock w') ttl))\<rparr>)" if "clock w \<le> clock w'" for w'
    using assms(3) that by (simp add: holds_def)
  with w assms(1,2) show "wp H (redis_set_ex (idem_key pid) (P_idem r) ttl) (\<lambda>r m' w'. \<exists>d'. holds clock ks t d' w' \<and> R r m' d') m w"
    by (blast intro: wp_idem_set)
qed

lemma do_lock_nx:
  assumes "valid_ttl ttl" and "\<And>e. \<not> never_fails H clock ks \<Longrightarrow> R (Inl (JsError e)) m d"
    and "\<And>now. t \<le> now \<Longrightarrow> locked_at d now pid \<Longrightarrow> R (Inr False) m d"
    and "\<And>now. t \<le> now \<Longrightarrow> \<not> locked_at d now pid \<Longrightarrow> R (Inr True) m (d\<lparr>locks := (locks d)(pid \<mapsto> deadline now ttl)\<rparr>)"
  shows "does H clock ks t (redis_set_ex_nx (lock_key pid) p ttl) m d R"
  unfolding does_def
proof (intro allI impI)
  fix w
  assume w: "holds clock ks t d w"
  then have "t \<le> clock w'" if "clock w \<le> clock w'" for w' using that by (simp add: holds_def)
  with w assms show "wp H (redis_set_ex_nx (lock_key pid) p ttl) (\<lambda>r m' w'. \<exists>d'. holds clock ks t d' w' \<and> R r m' d') m w"
    by (blast intro: wp_lock_nx)
qed

lemma do_idem_nx:
  assumes "valid_ttl ttl" and "\<And>e. \<not> never_fails H clock ks \<Longrightarrow> R (Inl (JsError e)) m d"
    and "\<And>now x. t \<le> now \<Longrightarrow> lease_at d now pid = Some x \<Longrightarrow> R (Inr False) m d"
    and "\<And>now. t \<le> now \<Longrightarrow> lease_at d now pid = None \<Longrightarrow> R (Inr True) m (d\<lparr>leases := (leases d)(pid \<mapsto> (r, deadline now ttl))\<rparr>)"
  shows "does H clock ks t (redis_set_ex_nx (idem_key pid) (P_idem r) ttl) m d R"
  unfolding does_def
proof (intro allI impI)
  fix w
  assume w: "holds clock ks t d w"
  then have "t \<le> clock w'" if "clock w \<le> clock w'" for w' using that by (simp add: holds_def)
  with w assms show "wp H (redis_set_ex_nx (idem_key pid) (P_idem r) ttl) (\<lambda>r m' w'. \<exists>d'. holds clock ks t d' w' \<and> R r m' d') m w"
    by (blast intro: wp_idem_nx)
qed

lemma do_unlock:
  assumes "\<And>e. \<not> never_fails H clock ks \<Longrightarrow> R (Inl (JsError e)) m d" and "R (Inr ()) m (d\<lparr>locks := (locks d)(pid := None)\<rparr>)"
  shows "does H clock ks t (releaseExecutionLock pid) m d R"
  unfolding does_def using assms by (blast intro: wp_unlock)

lemma do_idem_release:
  assumes "\<And>e. \<not> never_fails H clock ks \<Longrightarrow> R (Inl (JsError e)) m d" and "R (Inr ()) m (d\<lparr>leases := (leases d)(pid := None)\<rparr>)"
  shows "does H clock ks t (idem_release pid) m d R"
  unfolding does_def using assms by (blast intro: wp_idem_release)

lemmas do_rules = do_bind do_catch do_finally do_Ret do_Throw do_Get do_mutate do_emit do_new_object do_date do_span
  do_save do_store_get do_audit do_settle do_idem_get do_idem_set do_lock_nx do_idem_nx do_unlock do_idem_release
  after_Inl after_Inr caught_Inl caught_Inr

end

lemma do_honours:
  assumes "honours H B p" and "does H clock ks t p m d R"
  shows "does H clock ks t p m d (\<lambda>r m' d'. R r m' d' \<and> B m m')"
  unfolding does_def
proof (intro allI impI)
  fix w
  assume "holds clock ks t d w"
  from wp_conj [OF do_wp [OF assms(2) this] assms(1) [unfolded honours_def, rule_format]]
  show "wp H p (\<lambda>r m' w'. \<exists>d'. holds clock ks t d' w' \<and> R r m' d' \<and> B m m') m w"
    by (rule wp_mono) blast
qed

lemma do_conj:
  assumes "\<And>w. wp H p (\<lambda>r m' w'. S r m') m w" and "does H clock ks t p m d R"
  shows "does H clock ks t p m d (\<lambda>r m' d'. R r m' d' \<and> S r m')"
  unfolding does_def
proof (intro allI impI)
  fix w
  assume "holds clock ks t d w"
  from wp_conj [OF do_wp [OF assms(2) this] assms(1)]
  show "wp H p (\<lambda>r m' w'. \<exists>d'. holds clock ks t d' w' \<and> R r m' d' \<and> S r m') m w"
    by (rule wp_mono) blast
qed

text \<open>
  \<open>own_rows pid d d'\<close>: only the document and the audit log of \<open>pid\<close> changed, and the log only
  grew.
\<close>

definition own_rows :: "string \<Rightarrow> db \<Rightarrow> db \<Rightarrow> bool" where
  "own_rows pid d d' \<longleftrightarrow>
     (\<forall>x. x \<noteq> pid \<longrightarrow> docs d' x = docs d x \<and> audits d' x = audits d x) \<and>
     leases d' = leases d \<and> locks d' = locks d \<and> prefix (audits d pid) (audits d' pid)"

lemma own_rows_refl [simp]: "own_rows pid d d"
  by (simp add: own_rows_def)

lemma own_rows_trans: "own_rows pid d d1 \<Longrightarrow> own_rows pid d1 d2 \<Longrightarrow> own_rows pid d d2"
  by (auto simp: own_rows_def intro: prefix_order.trans)

text \<open>The types of the audit entries of a payment, oldest first.\<close>

definition trail :: "db \<Rightarrow> string \<Rightarrow> audit_type list" where
  "trail d pid = map a_type (audits d pid)"

lemma ledger_frame [simp]:
  "own_rows pid d (d'\<lparr>ledger := l\<rparr>) = own_rows pid d d'" "own_rows pid (d\<lparr>ledger := l\<rparr>) d' = own_rows pid d d'"
  "trail (d\<lparr>ledger := l\<rparr>) pid = trail d pid"
  by (simp_all add: own_rows_def trail_def)

end
