(* ===== verification/Payment_Saga.thy ===== *)
theory Payment_Saga
  imports Gateway_Guard Database
begin

text \<open>
  The payment saga of \<^verbatim>\<open>src/payments/payment-saga.service.ts\<close>: reserve, charge, settle, with
  compensation. \<open>ref\<close> is the reference to the payment record the worker passes; the saga
  mutates that object step by step and the worker sees every mutation, whether the saga
  returns or throws. Log lines are not part of the model.
\<close>

record saga_outcome =
  so_transactionId :: string
  so_reservationId :: string

definition history :: "nat \<Rightarrow> saga_phase \<Rightarrow> string \<Rightarrow> string option \<Rightarrow> unit async" where
  "history ref phase event detail =
     bind date_now (\<lambda>now. mutate ref (\<lambda>r. push_history r phase event detail now))"

definition saga_attributes :: "payment_record \<Rightarrow> span_attributes" where
  "saga_attributes r =
     [(''paymentId'', Some (p_id r)), (''gatewayId'', Some (p_gatewayId r)),
      (''correlationId'', Some (nullish (r_correlationId r) []))]"

text \<open>\<open>this.store.save(record)\<close> on the object behind a reference.\<close>

definition save_object :: "nat \<Rightarrow> unit async" where
  "save_object ref = Get (\<lambda>m. store_save (object m ref))"

definition emit_phase :: "nat \<Rightarrow> saga_phase \<Rightarrow> bool \<Rightarrow> unit async" where
  "emit_phase ref phase ok =
     Get (\<lambda>m. bind date_now (\<lambda>now.
       emit (Ev_saga_phase (p_id (object m ref)) (p_gatewayId (object m ref)) phase ok now)))"

definition withCompensation :: "nat \<Rightarrow> string \<Rightarrow> 'a async \<Rightarrow> 'a async" where
  "withCompensation ref phase fn =
     Get (\<lambda>m. withSpan SPAN_COMPENSATION (saga_attributes (object m ref) @ [(''phase'', Some phase)]) fn)"

definition releaseFunds :: "nat \<Rightarrow> string \<Rightarrow> unit async" where
  "releaseFunds ref reservationId =
     bind (history ref Ph_compensation ''release_funds'' (Some reservationId)) (\<lambda>_.
       Get (\<lambda>m. audit_record (p_id (object m ref)) A_release_funds (Some [(''reservationId'', JStr reservationId)]) None))"

definition refund_alert :: "string \<Rightarrow> string \<Rightarrow> payment_processing_error \<Rightarrow> timestamp \<Rightarrow> alert" where
  "refund_alert paymentId transactionId err now =
     \<lparr>al_id = ''saga.compensation_failed.'' @ paymentId, al_severity = Critical,
      al_message = ''CRITICAL: Payment '' @ paymentId @ '' compensation refund failed for charge '' @ transactionId @
        '': '' @ pe_message err,
      al_value = None, al_threshold = None, al_raisedAt = now\<rparr>"

text \<open>What follows the refund call: its outcome is recorded, a failed refund raises an alert.\<close>

definition record_refund :: "nat \<Rightarrow> string \<Rightarrow> string \<Rightarrow> refund_outcome \<Rightarrow> unit async" where
  "record_refund ref pid transactionId refund =
     (case refund of
        Refund_failed err \<Rightarrow>
          bind (history ref Ph_compensation ''refund_failed'' (Some (code_text (pe_code err) @ '': '' @ pe_message err))) (\<lambda>_.
          bind (audit_record pid A_refund_charge
                  (Some [(''transactionId'', JStr transactionId), (''ok'', JBool False), (''failure'', JStr (pe_message err))]) None) (\<lambda>_.
          bind date_now (\<lambda>raised. bind date_now (\<lambda>now.
            emit (Ev_alert (refund_alert pid transactionId err raised) now)))))
      | Refund_done refundId _ _ \<Rightarrow>
          bind (mutate ref (\<lambda>r. r\<lparr>r_refundId := Some refundId\<rparr>)) (\<lambda>_.
          bind (history ref Ph_compensation ''refund_charge'' (Some refundId)) (\<lambda>_.
            audit_record pid A_refund_charge
              (Some [(''transactionId'', JStr transactionId), (''ok'', JBool True), (''refundId'', JStr refundId)]) None)))"

definition refundCharge :: "nat \<Rightarrow> string \<Rightarrow> unit async" where
  "refundCharge ref transactionId =
     Get (\<lambda>m. bind (guard_refund (p_gatewayId (object m ref)) transactionId)
                    (record_refund ref (p_id (object m ref)) transactionId))"

subsection \<open>The steps\<close>

definition saga_reserve :: "nat \<Rightarrow> string async" where
  "saga_reserve ref =
     Get (\<lambda>m. let r = object m ref in
       bind (withSpan SPAN_RESERVE (saga_attributes r)
         (bind date_now (\<lambda>now.
            let reservationId = ''res_'' @ p_id r @ ''_'' @ base36 now
            in bind (history ref Ph_reserve ''ok'' (Some reservationId)) (\<lambda>_. Ret reservationId)))) (\<lambda>reservationId.
       bind (mutate ref (\<lambda>r. r\<lparr>r_sagaState := Saga_reserved\<rparr>)) (\<lambda>_.
       bind (save_object ref) (\<lambda>_.
       bind (audit_record (p_id r) A_saga_reserve (Some [(''reservationId'', JStr reservationId)]) None) (\<lambda>_.
       bind (emit_phase ref Ph_reserve True) (\<lambda>_.
         Ret reservationId))))))"

definition saga_charge :: "app_config \<Rightarrow> nat \<Rightarrow> call_outcome async" where
  "saga_charge C ref =
     Get (\<lambda>m. let r = object m ref in withSpan SPAN_CHARGE (saga_attributes r) (guard_call C r (r_correlationId r)))"

definition charge_failed :: "nat \<Rightarrow> string \<Rightarrow> payment_processing_error \<Rightarrow> 'a async" where
  "charge_failed ref reservationId err =
     bind (history ref Ph_charge ''failure'' (Some (code_text (pe_code err)))) (\<lambda>_.
     bind (withCompensation ref ''release_funds'' (releaseFunds ref reservationId)) (\<lambda>_.
     bind (save_object ref) (\<lambda>_.
     bind (emit_phase ref Ph_charge False) (\<lambda>_.
       Throw (Processing err)))))"

definition charge_done :: "nat \<Rightarrow> string \<Rightarrow> string \<Rightarrow> int \<Rightarrow> unit async" where
  "charge_done ref reservationId transactionId httpStatus =
     bind (mutate ref (\<lambda>r. r\<lparr>r_transactionId := Some transactionId, r_reservationId := Some reservationId,
                               r_sagaState := Saga_charged\<rparr>)) (\<lambda>_.
     bind (history ref Ph_charge ''ok'' (Some transactionId)) (\<lambda>_.
     bind (save_object ref) (\<lambda>_.
     bind (Get (\<lambda>m. audit_record (p_id (object m ref)) A_saga_charge
             (Some [(''transactionId'', JStr transactionId), (''httpStatus'', JNum (of_int httpStatus))]) None)) (\<lambda>_.
       emit_phase ref Ph_charge True))))"

text \<open>The end of the settle-failure path, after the refund.\<close>

definition settle_aborted :: "nat \<Rightarrow> string \<Rightarrow> string \<Rightarrow> string \<Rightarrow> 'a async" where
  "settle_aborted ref reservationId transactionId message =
     bind (withCompensation ref ''release_funds'' (releaseFunds ref reservationId)) (\<lambda>_.
     bind (mutate ref (\<lambda>r. r\<lparr>r_sagaState := Saga_compensated\<rparr>)) (\<lambda>_.
     bind (save_object ref) (\<lambda>_.
     bind (emit_phase ref Ph_settle False) (\<lambda>_.
       Get (\<lambda>m. Throw (Processing (newPaymentProcessingError
         (''settle failed after successful charge ('' @ message @ ''); charge '' @ transactionId @ '' was refunded'')
         SETTLE_FAILED None (Some (p_gatewayId (object m ref)))))))))) "

definition settle_failed :: "nat \<Rightarrow> string \<Rightarrow> string \<Rightarrow> exn \<Rightarrow> 'a async" where
  "settle_failed ref reservationId transactionId err =
     bind (history ref Ph_settle ''failure'' (Some (exn_message err))) (\<lambda>_.
     bind (withCompensation ref ''refund_charge'' (refundCharge ref transactionId)) (\<lambda>_.
       settle_aborted ref reservationId transactionId (exn_message err)))"

definition saga_settle :: "nat \<Rightarrow> string \<Rightarrow> unit async" where
  "saga_settle ref transactionId =
     Get (\<lambda>m. withSpan SPAN_SETTLE (saga_attributes (object m ref))
       (Get (\<lambda>m. bind (ledger_settle (object m ref) transactionId) (\<lambda>_. Ret ()))))"

definition settle_done :: "nat \<Rightarrow> string \<Rightarrow> unit async" where
  "settle_done ref transactionId =
     bind (mutate ref (\<lambda>r. r\<lparr>r_sagaState := Saga_settled\<rparr>)) (\<lambda>_.
     bind (history ref Ph_settle ''ok'' (Some transactionId)) (\<lambda>_.
     bind (Get (\<lambda>m. audit_record (p_id (object m ref)) A_saga_settle (Some [(''transactionId'', JStr transactionId)]) None)) (\<lambda>_.
       emit_phase ref Ph_settle True)))"

definition saga_step3 :: "nat \<Rightarrow> string \<Rightarrow> string \<Rightarrow> saga_outcome async" where
  "saga_step3 ref reservationId transactionId =
     bind (catch (saga_settle ref transactionId) (settle_failed ref reservationId transactionId)) (\<lambda>_.
     bind (settle_done ref transactionId) (\<lambda>_.
       Ret \<lparr>so_transactionId = transactionId, so_reservationId = reservationId\<rparr>))"

definition execute :: "app_config \<Rightarrow> nat \<Rightarrow> saga_outcome async" where
  "execute C ref =
     bind (saga_reserve ref) (\<lambda>reservationId.
     bind (saga_charge C ref) (\<lambda>outcome.
       case outcome of
         Call_failed err \<Rightarrow> charge_failed ref reservationId err
       | Call_ok transactionId httpStatus _ \<Rightarrow>
           bind (charge_done ref reservationId transactionId httpStatus) (\<lambda>_.
             saga_step3 ref reservationId transactionId)))"

subsection \<open>What the saga leaves alone\<close>

text \<open>
  \<open>beside ref m m'\<close>: no gateway object changed, no payment record but the one behind
  \<open>ref\<close>, and that one only evolved. Every step of the saga except the two that cross the
  guard is of this kind, whatever the outside world does.
\<close>

definition beside :: "nat \<Rightarrow> mem \<Rightarrow> mem \<Rightarrow> bool" where
  "beside ref m m' \<longleftrightarrow>
     m_buckets m' = m_buckets m \<and> m_breakers m' = m_breakers m \<and> m_mocks m' = m_mocks m \<and>
     (\<forall>x. x \<noteq> ref \<longrightarrow> object m' x = object m x) \<and> m_nextObject m' = m_nextObject m \<and>
     evolves (object m ref) (object m' ref)"

interpretation own_record: process_frame "beside ref" for ref
  by unfold_locales (auto simp: beside_def intro: evolves_trans)

lemma beside_mutate: "(\<And>r. evolves r (f r)) \<Longrightarrow> beside ref m (put_object ref (f (object m ref)) m)"
  by (auto simp: beside_def) (simp add: put_object_def)

lemma beside_emit [simp]: "beside ref m (m\<lparr>m_emitted := evs\<rparr>)"
  by (simp add: beside_def)

lemma beside_views:
  assumes "beside ref m m'"
  shows "bucket_of C m' x = bucket_of C m x" "breaker_of C m' x = breaker_of C m x" "mock_of m' x = mock_of m x"
    "charges m' x = charges m x" "refunds m' x = refunds m x" "p_gatewayId (object m' ref) = p_gatewayId (object m ref)"
    "p_id (object m' ref) = p_id (object m ref)"
  using assms by (simp_all add: beside_def bucket_of_def breaker_of_def mock_of_def charges_def refunds_def evolves_fields)

lemma beside_counts:
  "beside ref m m' \<Longrightarrow> charges m' = charges m \<and> refunds m' = refunds m \<and> mock_of m' = mock_of m \<and>
     p_id (object m' ref) = p_id (object m ref) \<and> p_gatewayId (object m' ref) = p_gatewayId (object m ref) \<and>
     evolves (object m ref) (object m' ref)"
  by (intro conjI ext; (erule beside_views)?) (simp add: beside_def)

lemma own_mutate: "(\<And>r. evolves r (f r)) \<Longrightarrow> honours H (beside ref) (mutate ref f)"
  by (simp add: honours_def beside_mutate)

lemma own_emit: "honours H (beside ref) (emit ev)"
  by (simp add: honours_def)

lemma own_history: "honours H (beside ref) (history ref phase event detail)"
  unfolding history_def by (intro own_record.honours_bind own_record.honours_only_calls own_mutate) simp_all

lemma own_audit: "honours H (beside ref) (audit_record pid ty detail ts)"
  unfolding audit_record_def
  by (intro own_record.honours_bind own_record.honours_only_calls) (auto intro: only_calls.intros split: option.splits)

lemma own_save: "honours H (beside ref) (save_object ref)"
  unfolding save_object_def store_save_def by (intro own_record.honours_Get own_record.honours_only_calls) simp

lemma own_phase: "honours H (beside ref) (emit_phase ref phase ok)"
  unfolding emit_phase_def
  by (intro own_record.honours_Get own_record.honours_bind own_record.honours_only_calls own_emit) simp

lemma own_span: "honours H (beside ref) fn \<Longrightarrow> honours H (beside ref) (withSpan n as fn)"
  unfolding withSpan_def span_start_def span_call_def
  by (intro own_record.honours_bind own_record.honours_finally own_record.honours_catch own_record.honours_Call
      own_record.honours_Ret own_record.honours_Throw)

lemmas own_steps = own_mutate own_emit own_history own_audit own_save own_phase own_span
  own_record.honours_bind own_record.honours_Get own_record.honours_Ret own_record.honours_Throw

lemma own_compensation: "honours H (beside ref) fn \<Longrightarrow> honours H (beside ref) (withCompensation ref phase fn)"
  unfolding withCompensation_def by (intro own_steps)

lemma own_release: "honours H (beside ref) (releaseFunds ref reservationId)"
  unfolding releaseFunds_def by (intro own_steps)

lemma own_reserve: "honours H (beside ref) (saga_reserve ref)"
  unfolding saga_reserve_def Let_def
  by (intro own_steps own_record.honours_only_calls) simp_all

lemma own_charge_failed: "honours H (beside ref) (charge_failed ref reservationId err)"
  unfolding charge_failed_def by (intro own_steps own_compensation own_release)

lemma own_charge_done: "honours H (beside ref) (charge_done ref reservationId tid st)"
  unfolding charge_done_def
  by (intro own_steps) (simp add: evolves_def core_def)

lemma own_settle_aborted: "honours H (beside ref) (settle_aborted ref rid tid message)"
  unfolding settle_aborted_def by (intro own_steps own_compensation own_release) simp

lemma own_record_refund: "honours H (beside ref) (record_refund ref pid tid out)"
  unfolding record_refund_def
  by (cases out; simp; intro own_steps own_record.honours_only_calls) simp_all

lemma own_settle: "honours H (beside ref) (saga_settle ref tid)"
  unfolding saga_settle_def ledger_settle_def
  by (intro own_steps own_record.honours_only_calls only_calls_bind only_calls_wrapped) (auto intro: only_calls.intros)

lemma own_settle_done: "honours H (beside ref) (settle_done ref tid)"
  unfolding settle_done_def by (intro own_steps) simp

subsection \<open>Counting charges and refunds\<close>

text \<open>
  \<open>spends C gid ref c f m m'\<close>: between \<open>m\<close> and \<open>m'\<close> at most \<open>c\<close> charges and \<open>f\<close> refunds went
  to gateway \<open>gid\<close>, and nothing changed but the objects of \<open>gid\<close> and the record behind
  \<open>ref\<close>.
\<close>

definition spends :: "app_config \<Rightarrow> string \<Rightarrow> nat \<Rightarrow> nat \<Rightarrow> nat \<Rightarrow> mem \<Rightarrow> mem \<Rightarrow> bool" where
  "spends C gid ref c f m m' \<longleftrightarrow>
     (\<forall>x. x \<noteq> gid \<longrightarrow> bucket_of C m' x = bucket_of C m x \<and> breaker_of C m' x = breaker_of C m x \<and>
        mock_of m' x = mock_of m x) \<and>
     (\<forall>x. x \<noteq> ref \<longrightarrow> object m' x = object m x) \<and> m_nextObject m' = m_nextObject m \<and>
     evolves (object m ref) (object m' ref) \<and>
     charges m gid \<le> charges m' gid \<and> charges m' gid \<le> charges m gid + c \<and>
     refunds m gid \<le> refunds m' gid \<and> refunds m' gid \<le> refunds m gid + f"

interpretation spending: graded_frame "spends C gid ref" for C gid ref
proof
  show "spends C gid ref c1 f1 m m1 \<Longrightarrow> spends C gid ref c2 f2 m1 m2 \<Longrightarrow> spends C gid ref (c1 + c2) (f1 + f2) m m2"
    for c1 f1 m m1 c2 f2 m2
    unfolding spends_def by (intro conjI) (simp_all, meson evolves_trans)
  show "spends C gid ref c f m m' \<Longrightarrow> c \<le> c' \<Longrightarrow> f \<le> f' \<Longrightarrow> spends C gid ref c' f' m m'" for c f m m' c' f'
    by (simp add: spends_def)
qed

lemmas spends_trans = spending.grade_trans
lemmas spends_weaken = spending.grade_weaken
lemmas wp_seq_spends = spending.wp_seq_grade
lemmas wp_catch_spends = spending.wp_catch_grade

lemma spends_beside: "beside ref m m' \<Longrightarrow> spends C gid ref 0 0 m m'"
  by (simp add: spends_def beside_views) (simp add: beside_def)

lemma wp_own_spends: "honours H (beside ref) p \<Longrightarrow> wp H p (\<lambda>r m' w'. spends C gid ref 0 0 m m') m w"
  unfolding honours_def using spends_beside by (blast intro: wp_mono)

context js_world
begin

lemma wp_refundCharge_spends:
  assumes gid: "p_gatewayId (object m ref) = gid"
  shows "wp H (refundCharge ref tid) (\<lambda>r m' w'. spends C gid ref 0 1 m m') m w"
proof -
  have "wp H (guard_refund gid tid) (\<lambda>r m' w'. spends C gid ref 0 1 m m') m w"
    by (rule wp_mono [OF wp_guard_refund [where C = C]]) (auto simp: spends_def elsewhere_def)
  from wp_seq_spends [OF this wp_own_spends [OF own_record_refund]] show ?thesis
    unfolding refundCharge_def wp_Get gid by (simp del: wp_bind)
qed

lemma spends_fields: "spends C gid ref c f m m' \<Longrightarrow> p_gatewayId (object m' ref) = p_gatewayId (object m ref)"
  using evolves_fields by (simp add: spends_def)

lemma wp_compensation_spends:
  assumes "\<And>w0. wp H fn (\<lambda>r m' w'. spends C gid ref c f m m') m w0"
  shows "wp H (withCompensation ref phase fn) (\<lambda>r m' w'. spends C gid ref c f m m') m w"
  unfolding withCompensation_def wp_Get by (rule wp_withSpan) (rule wp_mono [OF assms], simp)

lemma wp_settle_failed_spends:
  assumes gid: "p_gatewayId (object m ref) = gid"
  shows "wp H (settle_failed ref rid tid err) (\<lambda>r m' w'. spends C gid ref 0 1 m m') m w"
proof -
  have refund: "wp H (withCompensation ref ''refund_charge'' (refundCharge ref tid)) (\<lambda>r m' w'. spends C gid ref 0 1 m1 m') m1 w1"
    if "spends C gid ref 0 0 m m1" for m1 w1
    by (intro wp_compensation_spends wp_refundCharge_spends) (use that gid spends_fields in auto)
  from wp_seq_spends [OF wp_own_spends [OF own_history]
      wp_seq_spends [OF refund wp_own_spends [OF own_settle_aborted]]]
  show ?thesis unfolding settle_failed_def by (simp del: wp_bind)
qed

lemma wp_charge_spends:
  assumes gid: "p_gatewayId (object m ref) = gid"
  shows "wp H (saga_charge C ref) (\<lambda>r m' w'. spends C gid ref 1 0 m m') m w"
  unfolding saga_charge_def wp_Get Let_def
proof (rule wp_withSpan)
  fix w0
  show "wp H (guard_call C (object m ref) (r_correlationId (object m ref)))
     (\<lambda>r m' w1. \<forall>w2. clock w1 \<le> clock w2 \<longrightarrow> spends C gid ref 1 0 m m') m w0"
    by (rule wp_mono [OF wp_guard_call [OF gid [symmetric]]])
      (auto dest!: guarded_counts simp: spends_def elsewhere_def)
qed

lemma wp_step3_spends:
  assumes gid: "p_gatewayId (object m ref) = gid"
  shows "wp H (saga_step3 ref rid tid) (\<lambda>r m' w'. spends C gid ref 0 1 m m') m w"
proof -
  have "wp H (settle_failed ref rid tid err) (\<lambda>r m' w'. spends C gid ref 0 1 m1 m') m1 w1"
    if "spends C gid ref 0 0 m m1" for err m1 w1
    by (rule wp_settle_failed_spends) (use that gid spends_fields in auto)
  then have "wp H (catch (saga_settle ref tid) (settle_failed ref rid tid)) (\<lambda>r m' w'. spends C gid ref (0 + 0) (0 + 1) m m') m w"
    by (intro wp_catch_spends wp_own_spends own_settle)
  moreover have "honours H (beside ref) (bind (settle_done ref tid) (\<lambda>_. Ret \<lparr>so_transactionId = tid, so_reservationId = rid\<rparr>))"
    by (intro own_steps own_settle_done)
  ultimately show ?thesis
    unfolding saga_step3_def using wp_seq_spends [OF _ wp_own_spends] by (fastforce simp del: wp_bind)
qed

lemma wp_execute_spends:
  assumes gid: "p_gatewayId (object m ref) = gid"
  shows "wp H (execute C ref) (\<lambda>r m' w'. spends C gid ref 1 1 m m') m w"
proof -
  have g: "p_gatewayId (object m1 ref) = gid" if "spends C gid ref c f m m1" for m1 c f
    using that gid spends_fields by auto
  have done1: "wp H (bind (charge_done ref rid tid st) (\<lambda>_. saga_step3 ref rid tid)) (\<lambda>r m' w'. spends C gid ref 0 1 m1 m') m1 w1"
    if "spends C gid ref c f m m1" for m1 w1 rid tid st c f
  proof -
    have "wp H (saga_step3 ref rid tid) (\<lambda>r m' w'. spends C gid ref 0 1 m2 m') m2 w2" if "spends C gid ref 0 0 m1 m2" for m2 w2
      by (rule wp_step3_spends) (use g [OF spends_trans [OF \<open>spends C gid ref c f m m1\<close> that]] in simp)
    from wp_seq_spends [OF wp_own_spends [OF own_charge_done] this] show ?thesis by (simp del: wp_bind)
  qed
  have case_out: "wp H (case out of Call_failed err \<Rightarrow> charge_failed ref rid err
       | Call_ok tid st _ \<Rightarrow> bind (charge_done ref rid tid st) (\<lambda>_. saga_step3 ref rid tid))
     (\<lambda>r m' w'. spends C gid ref 0 1 m1 m') m1 w1" if "spends C gid ref c f m m1" for out m1 w1 rid c f
  proof (cases out)
    case (Call_ok tid st lat)
    then show ?thesis using done1 [OF that] by (simp del: wp_bind)
  next
    case (Call_failed err)
    have "wp H (charge_failed ref rid err) (\<lambda>r m' w'. spends C gid ref 0 1 m1 m') m1 w1"
      by (rule wp_mono [OF wp_own_spends [OF own_charge_failed, of _ _ _ _ C gid]]) (erule spends_weaken, simp_all)
    with Call_failed show ?thesis by simp
  qed
  have charge: "wp H (bind (saga_charge C ref) (\<lambda>out. case out of Call_failed err \<Rightarrow> charge_failed ref rid err
       | Call_ok tid st _ \<Rightarrow> bind (charge_done ref rid tid st) (\<lambda>_. saga_step3 ref rid tid)))
     (\<lambda>r m' w'. spends C gid ref (1 + 0) (0 + 1) m1 m') m1 w1" if "spends C gid ref 0 0 m m1" for m1 w1 rid
    by (rule wp_seq_spends [OF wp_charge_spends case_out]) (use g that spends_trans in fastforce)+
  from wp_seq_spends [OF wp_own_spends [OF own_reserve] charge] show ?thesis
    unfolding execute_def by (simp del: wp_bind)
qed

end

subsection \<open>The specification of the saga\<close>

text \<open>
  The four ways an execution ends, from memory \<open>m\<close> and database \<open>d\<close>. \<open>ok\<close> says that no
  Redis command fails; the first and the third case cannot happen then.
\<close>

inductive saga_ends :: "bool \<Rightarrow> nat \<Rightarrow> mem \<Rightarrow> db \<Rightarrow> exn + saga_outcome \<Rightarrow> mem \<Rightarrow> db \<Rightarrow> bool"
  for ok ref m d where
  broken: "\<not> ok \<Longrightarrow> own_rows (p_id (object m ref)) d d' \<Longrightarrow> saga_ends ok ref m d (Inl (JsError x)) m' d'"
| charge_refused:
    "own_rows (p_id (object m ref)) d d' \<Longrightarrow> ledger d' = ledger d \<Longrightarrow>
     trail d' (p_id (object m ref)) = trail d (p_id (object m ref)) @ [A_saga_reserve, A_release_funds] \<Longrightarrow>
     docs d' (p_id (object m ref)) = Some (object m' ref) \<Longrightarrow> r_status (object m' ref) = r_status (object m ref) \<Longrightarrow>
     refunds m' (p_gatewayId (object m ref)) = refunds m (p_gatewayId (object m ref)) \<Longrightarrow> wf_error err \<Longrightarrow>
     saga_ends ok ref m d (Inl (Processing err)) m' d'"
| compensated:
    "\<not> ok \<Longrightarrow> own_rows (p_id (object m ref)) d d' \<Longrightarrow> ledger d' = ledger d \<Longrightarrow>
     trail d' (p_id (object m ref)) =
       trail d (p_id (object m ref)) @ [A_saga_reserve, A_saga_charge, A_refund_charge, A_release_funds] \<Longrightarrow>
     docs d' (p_id (object m ref)) = Some (object m' ref) \<Longrightarrow> r_status (object m' ref) = r_status (object m ref) \<Longrightarrow>
     r_sagaState (object m' ref) = Saga_compensated \<Longrightarrow>
     charges m' (p_gatewayId (object m ref)) = charges m (p_gatewayId (object m ref)) + 1 \<Longrightarrow>
     refunds m' (p_gatewayId (object m ref)) = refunds m (p_gatewayId (object m ref)) + 1 \<Longrightarrow>
     wf_error err \<Longrightarrow> pe_code err = SETTLE_FAILED \<Longrightarrow> saga_ends ok ref m d (Inl (Processing err)) m' d'"
| settled:
    "own_rows (p_id (object m ref)) d d' \<Longrightarrow> ledger d' = ledger d @ [settlement_of (object m ref) tid now] \<Longrightarrow>
     trail d' (p_id (object m ref)) = trail d (p_id (object m ref)) @ [A_saga_reserve, A_saga_charge, A_saga_settle] \<Longrightarrow>
     r_history (object m' ref) = r_history (object m ref) @
       [\<lparr>h_phase = Ph_reserve, h_event = ''ok'', h_at = t1, h_detail = Some rid\<rparr>,
        \<lparr>h_phase = Ph_charge, h_event = ''ok'', h_at = t2, h_detail = Some tid\<rparr>,
        \<lparr>h_phase = Ph_settle, h_event = ''ok'', h_at = t3, h_detail = Some tid\<rparr>] \<Longrightarrow>
     r_sagaState (object m' ref) = Saga_settled \<Longrightarrow> r_transactionId (object m' ref) = Some tid \<Longrightarrow>
     r_reservationId (object m' ref) = Some rid \<Longrightarrow> r_status (object m' ref) = r_status (object m ref) \<Longrightarrow>
     mg_getStatus tid (mock_of m' (p_gatewayId (object m ref))) = Succeeded \<Longrightarrow>
     charges m' (p_gatewayId (object m ref)) = charges m (p_gatewayId (object m ref)) + 1 \<Longrightarrow>
     refunds m' (p_gatewayId (object m ref)) = refunds m (p_gatewayId (object m ref)) \<Longrightarrow>
     saga_ends ok ref m d (Inr \<lparr>so_transactionId = tid, so_reservationId = rid\<rparr>) m' d'"

inductive_cases saga_endsE: "saga_ends ok ref m d res m' d'"

lemma settlement_evolves: "evolves r r' \<Longrightarrow> settlement_of r' = settlement_of r"
  by (simp add: evolves_def core_def settlement_of_def fun_eq_iff)

subsection \<open>What the steps do\<close>

context redis_world
begin

lemma do_history:
  "(\<And>now. t \<le> now \<Longrightarrow> R (Inr ()) (put_object ref (push_history (object m ref) phase event detail now) m) d) \<Longrightarrow>
     does H clock ks t (history ref phase event detail) m d R"
  unfolding history_def by (intro do_rules)

lemma do_phase:
  "(\<And>now. R (Inr ()) (m\<lparr>m_emitted := m_emitted m @
       [Ev_saga_phase (p_id (object m ref)) (p_gatewayId (object m ref)) phase ok now]\<rparr>) d) \<Longrightarrow>
     does H clock ks t (emit_phase ref phase ok) m d R"
  unfolding emit_phase_def by (intro do_rules)

lemma do_save_object:
  assumes "\<And>e. \<not> never_fails H clock ks \<Longrightarrow> R (Inl (JsError e)) m d"
    and "R (Inr ()) m (d\<lparr>docs := (docs d)(p_id (object m ref) \<mapsto> object m ref)\<rparr>)"
  shows "does H clock ks t (save_object ref) m d R"
  unfolding save_object_def using assms by (intro do_rules)

lemmas saga_rules = do_history do_phase do_save_object do_rules

lemma do_guard_call:
  assumes "\<And>out m' t0 t1. guarded C (p_gatewayId p) cid t0 m out m' t1 \<Longrightarrow> elsewhere C (p_gatewayId p) m m' \<Longrightarrow> R (Inr out) m' d"
  shows "does H clock ks t (guard_call C p cid) m d R"
  unfolding does_def
proof (intro allI impI)
  fix w
  assume "holds clock ks t d w"
  then show "wp H (guard_call C p cid) (\<lambda>r m' w'. \<exists>d'. holds clock ks t d' w' \<and> R r m' d') m w"
    using assms by (intro wp_mono [OF wp_no_redis [OF no_redis_guard(1) wp_guard_call [OF refl]]])
      (fastforce simp: holds_def)
qed

lemma do_guard_refund:
  assumes "\<And>out m'. elsewhere C gid m m' \<Longrightarrow> bucket_of C m' gid = bucket_of C m gid \<Longrightarrow>
      breaker_of C m' gid = breaker_of C m gid \<Longrightarrow> charges m' gid = charges m gid \<Longrightarrow>
      refunds m' gid = refunds m gid + 1 \<Longrightarrow> R (Inr out) m' d"
  shows "does H clock ks t (guard_refund gid tid) m d R"
  unfolding does_def
proof (intro allI impI)
  fix w
  assume "holds clock ks t d w"
  then show "wp H (guard_refund gid tid) (\<lambda>r m' w'. \<exists>d'. holds clock ks t d' w' \<and> R r m' d') m w"
    using assms by (intro wp_mono [OF wp_no_redis [OF no_redis_guard(2) wp_guard_refund [where C = C]]])
      (fastforce simp: holds_def)
qed

lemma do_reserve:
  assumes pid: "pid = p_id (object m ref)"
    and "\<And>e m' d'. \<not> never_fails H clock ks \<Longrightarrow> beside ref m m' \<Longrightarrow> own_rows pid d d' \<Longrightarrow> ledger d' = ledger d \<Longrightarrow>
      R (Inl (JsError e)) m' d'"
    and "\<And>rid now m' d'. beside ref m m' \<Longrightarrow> own_rows pid d d' \<Longrightarrow> ledger d' = ledger d \<Longrightarrow>
      trail d' pid = trail d pid @ [A_saga_reserve] \<Longrightarrow> docs d' pid = Some (object m' ref) \<Longrightarrow>
      object m' ref = (push_history (object m ref) Ph_reserve ''ok'' (Some rid) now)\<lparr>r_sagaState := Saga_reserved\<rparr> \<Longrightarrow>
      R (Inr rid) m' d'"
  shows "does H clock ks t (saga_reserve ref) m d R"
proof (rule do_conseq [OF do_honours [OF own_reserve]])
  show "does H clock ks t (saga_reserve ref) m d (\<lambda>r m' d'.
     own_rows pid d d' \<and> ledger d' = ledger d \<and>
     (case r of Inl e \<Rightarrow> (\<exists>x. e = JsError x) \<and> \<not> never_fails H clock ks
      | Inr rid \<Rightarrow> trail d' pid = trail d pid @ [A_saga_reserve] \<and> docs d' pid = Some (object m' ref) \<and>
          (\<exists>now. object m' ref = (push_history (object m ref) Ph_reserve ''ok'' (Some rid) now)\<lparr>r_sagaState := Saga_reserved\<rparr>)))"
    unfolding saga_reserve_def Let_def
    by (intro saga_rules) (auto simp: pid trail_def own_rows_def)
qed (use assms(2,3) in \<open>auto split: sum.splits\<close>)

lemma do_release:
  assumes pid: "pid = p_id (object m ref)"
    and "\<And>e m'. \<not> never_fails H clock ks \<Longrightarrow> beside ref m m' \<Longrightarrow> R (Inl (JsError e)) m' d"
    and "\<And>now m' d'. beside ref m m' \<Longrightarrow> own_rows pid d d' \<Longrightarrow> ledger d' = ledger d \<Longrightarrow> docs d' = docs d \<Longrightarrow>
      trail d' pid = trail d pid @ [A_release_funds] \<Longrightarrow>
      object m' ref = push_history (object m ref) Ph_compensation ''release_funds'' (Some rid) now \<Longrightarrow> R (Inr ()) m' d'"
  shows "does H clock ks t (withCompensation ref phase (releaseFunds ref rid)) m d R"
proof (rule do_conseq [OF do_honours [OF own_compensation [OF own_release]]])
  show "does H clock ks t (withCompensation ref phase (releaseFunds ref rid)) m d (\<lambda>r m' d'.
     (case r of Inl e \<Rightarrow> (\<exists>x. e = JsError x) \<and> \<not> never_fails H clock ks \<and> d' = d
      | Inr _ \<Rightarrow> own_rows pid d d' \<and> ledger d' = ledger d \<and> docs d' = docs d \<and> trail d' pid = trail d pid @ [A_release_funds] \<and>
          (\<exists>now. object m' ref = push_history (object m ref) Ph_compensation ''release_funds'' (Some rid) now)))"
    unfolding withCompensation_def releaseFunds_def
    by (intro saga_rules) (auto simp: pid trail_def own_rows_def)
qed (use assms(2,3) in \<open>auto split: sum.splits\<close>)

lemma do_charge_failed:
  assumes pid: "pid = p_id (object m ref)"
    and "\<And>e m' d'. \<not> never_fails H clock ks \<Longrightarrow> beside ref m m' \<Longrightarrow> own_rows pid d d' \<Longrightarrow> ledger d' = ledger d \<Longrightarrow>
      R (Inl (JsError e)) m' d'"
    and "\<And>m' d'. beside ref m m' \<Longrightarrow> own_rows pid d d' \<Longrightarrow> ledger d' = ledger d \<Longrightarrow>
      trail d' pid = trail d pid @ [A_release_funds] \<Longrightarrow> docs d' pid = Some (object m' ref) \<Longrightarrow>
      r_status (object m' ref) = r_status (object m ref) \<Longrightarrow> r_sagaState (object m' ref) = r_sagaState (object m ref) \<Longrightarrow>
      R (Inl (Processing err)) m' d'"
  shows "does H clock ks t (charge_failed ref rid err) m d R"
proof (rule do_conseq [OF do_honours [OF own_charge_failed]])
  show "does H clock ks t (charge_failed ref rid err) m d (\<lambda>r m' d'.
     own_rows pid d d' \<and> ledger d' = ledger d \<and>
     (case r of Inr _ \<Rightarrow> False | Inl e \<Rightarrow> (\<exists>x. e = JsError x) \<and> \<not> never_fails H clock ks \<or>
       e = Processing err \<and> trail d' pid = trail d pid @ [A_release_funds] \<and> docs d' pid = Some (object m' ref) \<and>
       r_status (object m' ref) = r_status (object m ref) \<and> r_sagaState (object m' ref) = r_sagaState (object m ref)))"
    unfolding charge_failed_def
    by (intro do_release [where pid = pid] saga_rules) (auto simp: pid trail_def own_rows_def)
qed (use assms(2,3) in \<open>auto split: sum.splits\<close>)

lemma do_charge_done:
  assumes pid: "pid = p_id (object m ref)"
    and "\<And>e m' d'. \<not> never_fails H clock ks \<Longrightarrow> beside ref m m' \<Longrightarrow> own_rows pid d d' \<Longrightarrow> ledger d' = ledger d \<Longrightarrow>
      R (Inl (JsError e)) m' d'"
    and "\<And>now m' d'. beside ref m m' \<Longrightarrow> own_rows pid d d' \<Longrightarrow> ledger d' = ledger d \<Longrightarrow>
      trail d' pid = trail d pid @ [A_saga_charge] \<Longrightarrow> docs d' pid = Some (object m' ref) \<Longrightarrow>
      object m' ref = push_history ((object m ref)\<lparr>r_transactionId := Some tid, r_reservationId := Some rid,
         r_sagaState := Saga_charged\<rparr>) Ph_charge ''ok'' (Some tid) now \<Longrightarrow> R (Inr ()) m' d'"
  shows "does H clock ks t (charge_done ref rid tid st) m d R"
proof (rule do_conseq [OF do_honours [OF own_charge_done]])
  show "does H clock ks t (charge_done ref rid tid st) m d (\<lambda>r m' d'.
     own_rows pid d d' \<and> ledger d' = ledger d \<and>
     (case r of Inl e \<Rightarrow> (\<exists>x. e = JsError x) \<and> \<not> never_fails H clock ks
      | Inr _ \<Rightarrow> trail d' pid = trail d pid @ [A_saga_charge] \<and> docs d' pid = Some (object m' ref) \<and>
       (\<exists>now. object m' ref = push_history ((object m ref)\<lparr>r_transactionId := Some tid, r_reservationId := Some rid,
         r_sagaState := Saga_charged\<rparr>) Ph_charge ''ok'' (Some tid) now)))"
    unfolding charge_done_def
    by (intro saga_rules) (auto simp: pid trail_def own_rows_def)
qed (use assms(2,3) in \<open>auto split: sum.splits\<close>)

lemma do_saga_settle:
  assumes "\<And>e m'. \<not> never_fails H clock ks \<Longrightarrow> m' = m \<Longrightarrow> R (Inl (JsError e)) m' d"
    and "\<And>now. R (Inr ()) m (d\<lparr>ledger := ledger d @ [settlement_of (object m ref) tid now]\<rparr>)"
  shows "does H clock ks t (saga_settle ref tid) m d R"
  unfolding saga_settle_def using assms by (intro saga_rules) auto

lemma do_settle_done:
  assumes pid: "pid = p_id (object m ref)"
    and "\<And>e m' d'. \<not> never_fails H clock ks \<Longrightarrow> beside ref m m' \<Longrightarrow> d' = d \<Longrightarrow> R (Inl (JsError e)) m' d'"
    and "\<And>now m' d'. beside ref m m' \<Longrightarrow> own_rows pid d d' \<Longrightarrow> ledger d' = ledger d \<Longrightarrow> docs d' = docs d \<Longrightarrow>
      trail d' pid = trail d pid @ [A_saga_settle] \<Longrightarrow>
      object m' ref = push_history ((object m ref)\<lparr>r_sagaState := Saga_settled\<rparr>) Ph_settle ''ok'' (Some tid) now \<Longrightarrow> R (Inr ()) m' d'"
  shows "does H clock ks t (settle_done ref tid) m d R"
proof (rule do_conseq [OF do_honours [OF own_settle_done]])
  show "does H clock ks t (settle_done ref tid) m d (\<lambda>r m' d'.
     (case r of Inl e \<Rightarrow> (\<exists>x. e = JsError x) \<and> \<not> never_fails H clock ks \<and> d' = d
      | Inr _ \<Rightarrow> own_rows pid d d' \<and> ledger d' = ledger d \<and> docs d' = docs d \<and> trail d' pid = trail d pid @ [A_saga_settle] \<and>
       (\<exists>now. object m' ref = push_history ((object m ref)\<lparr>r_sagaState := Saga_settled\<rparr>) Ph_settle ''ok'' (Some tid) now)))"
    unfolding settle_done_def
    by (intro saga_rules) (auto simp: pid trail_def own_rows_def)
qed (use assms(2,3) in \<open>auto split: sum.splits\<close>)

lemma do_record_refund:
  assumes pid: "pid = p_id (object m ref)"
    and "\<And>e m'. \<not> never_fails H clock ks \<Longrightarrow> beside ref m m' \<Longrightarrow> R (Inl (JsError e)) m' d"
    and "\<And>m' d'. beside ref m m' \<Longrightarrow> own_rows pid d d' \<Longrightarrow> ledger d' = ledger d \<Longrightarrow> docs d' = docs d \<Longrightarrow>
      trail d' pid = trail d pid @ [A_refund_charge] \<Longrightarrow> r_status (object m' ref) = r_status (object m ref) \<Longrightarrow>
      R (Inr ()) m' d'"
  shows "does H clock ks t (record_refund ref pid tid out) m d R"
proof (rule do_conseq [OF do_honours [OF own_record_refund]])
  show "does H clock ks t (record_refund ref pid tid out) m d (\<lambda>r m' d'.
     (case r of Inl e \<Rightarrow> (\<exists>x. e = JsError x) \<and> \<not> never_fails H clock ks \<and> d' = d
      | Inr _ \<Rightarrow> own_rows pid d d' \<and> ledger d' = ledger d \<and> docs d' = docs d \<and> trail d' pid = trail d pid @ [A_refund_charge] \<and>
       r_status (object m' ref) = r_status (object m ref)))"
    unfolding record_refund_def
    by (cases out; simp; intro saga_rules) (auto simp: pid trail_def own_rows_def)
qed (use assms(2,3) in \<open>auto split: sum.splits\<close>)

lemma do_settle_aborted:
  assumes pid: "pid = p_id (object m ref)"
    and "\<And>e m' d'. \<not> never_fails H clock ks \<Longrightarrow> beside ref m m' \<Longrightarrow> own_rows pid d d' \<Longrightarrow> ledger d' = ledger d \<Longrightarrow>
      R (Inl (JsError e)) m' d'"
    and "\<And>err m' d'. beside ref m m' \<Longrightarrow> own_rows pid d d' \<Longrightarrow> ledger d' = ledger d \<Longrightarrow>
      trail d' pid = trail d pid @ [A_release_funds] \<Longrightarrow> docs d' pid = Some (object m' ref) \<Longrightarrow>
      r_status (object m' ref) = r_status (object m ref) \<Longrightarrow> r_sagaState (object m' ref) = Saga_compensated \<Longrightarrow>
      wf_error err \<Longrightarrow> pe_code err = SETTLE_FAILED \<Longrightarrow> R (Inl (Processing err)) m' d'"
  shows "does H clock ks t (settle_aborted ref rid tid message) m d R"
proof (rule do_conseq [OF do_honours [OF own_settle_aborted]])
  show "does H clock ks t (settle_aborted ref rid tid message) m d (\<lambda>r m' d'.
     own_rows pid d d' \<and> ledger d' = ledger d \<and>
     (case r of Inr _ \<Rightarrow> False | Inl e \<Rightarrow> (\<exists>x. e = JsError x) \<and> \<not> never_fails H clock ks \<or>
       (\<exists>err. e = Processing err \<and> wf_error err \<and> pe_code err = SETTLE_FAILED) \<and>
       trail d' pid = trail d pid @ [A_release_funds] \<and> docs d' pid = Some (object m' ref) \<and>
       r_status (object m' ref) = r_status (object m ref) \<and> r_sagaState (object m' ref) = Saga_compensated))"
    unfolding settle_aborted_def
    by (intro do_release [where pid = pid] saga_rules) (auto simp: pid trail_def own_rows_def)
qed (use assms(2,3) in \<open>auto split: sum.splits\<close>)

lemma do_settle_failed:
  assumes pid: "pid = p_id (object m ref)" and gid: "gid = p_gatewayId (object m ref)"
    and fail: "\<And>e m' d'. \<not> never_fails H clock ks \<Longrightarrow> own_rows pid d d' \<Longrightarrow> ledger d' = ledger d \<Longrightarrow> charges m' gid = charges m gid \<Longrightarrow>
      R (Inl (JsError e)) m' d'"
    and ends: "\<And>err m' d'. own_rows pid d d' \<Longrightarrow> ledger d' = ledger d \<Longrightarrow>
      trail d' pid = trail d pid @ [A_refund_charge, A_release_funds] \<Longrightarrow> docs d' pid = Some (object m' ref) \<Longrightarrow>
      r_status (object m' ref) = r_status (object m ref) \<Longrightarrow> r_sagaState (object m' ref) = Saga_compensated \<Longrightarrow>
      charges m' gid = charges m gid \<Longrightarrow> refunds m' gid = refunds m gid + 1 \<Longrightarrow>
      wf_error err \<Longrightarrow> pe_code err = SETTLE_FAILED \<Longrightarrow> R (Inl (Processing err)) m' d'"
  shows "does H clock ks t (settle_failed ref rid tid e) m d R"
  unfolding settle_failed_def withCompensation_def refundCharge_def
proof (intro do_bind do_history after_Inr do_Get do_span, goal_cases)
  case (1 now)
  let ?m1 = "put_object ref (push_history (object m ref) Ph_settle ''failure'' (Some (exn_message e)) now) m"
  show ?case
  proof (rule do_guard_refund [where C = undefined], intro after_Inr, goal_cases)
    case (1 out m2)
    then have o2: "object m2 ref = object ?m1 ref" by (simp add: elsewhere_def)
    have c2: "charges m2 gid = charges m gid" "refunds m2 gid = refunds m gid + 1"
      using 1 by (simp_all add: gid charges_def refunds_def)
    have p2: "p_id (object ?m1 ref) = pid" "pid = p_id (object m2 ref)" by (simp_all add: o2 pid)
    show ?case unfolding p2(1)
      by (intro do_record_refund [OF p2(2)] after_Inl after_Inr do_settle_aborted [where pid = pid])
        (use c2 o2 pid in \<open>auto dest!: beside_counts intro!: fail ends intro: own_rows_trans\<close>)
  qed
qed

lemma do_execute:
  "does H clock ks t (execute C ref) m d (saga_ends (never_fails H clock ks) ref m d)"
proof -
  define pid gid where "pid = p_id (object m ref)" and "gid = p_gatewayId (object m ref)"
  let ?R = "saga_ends (never_fails H clock ks) ref m d"
  have step3: "does H clock ks t (saga_step3 ref rid tid) m3 d3 ?R"
    if "own_rows pid d d3" "ledger d3 = ledger d" "trail d3 pid = trail d pid @ [A_saga_reserve, A_saga_charge]"
      "r_history (object m3 ref) = r_history (object m ref) @
         [\<lparr>h_phase = Ph_reserve, h_event = ''ok'', h_at = t1, h_detail = Some rid\<rparr>,
          \<lparr>h_phase = Ph_charge, h_event = ''ok'', h_at = t2, h_detail = Some tid\<rparr>]"
      "r_transactionId (object m3 ref) = Some tid" "r_reservationId (object m3 ref) = Some rid"
      "r_status (object m3 ref) = r_status (object m ref)" "charges m3 gid = charges m gid + 1" "refunds m3 gid = refunds m gid"
      "evolves (object m ref) (object m3 ref)" "mg_getStatus tid (mock_of m3 gid) = Succeeded"
    for rid tid m3 d3 t1 t2
  proof -
    have ids: "pid = p_id (object m3 ref)" "gid = p_gatewayId (object m3 ref)"
      using evolves_fields [OF that(10)] by (simp_all add: pid_def gid_def)
    show ?thesis
      unfolding saga_step3_def
    proof (intro do_bind do_catch do_saga_settle caught_Inr caught_Inl after_Inr, goal_cases)
      case (1 e m')
      show ?case unfolding 1(2)
        by (intro do_settle_failed [OF ids] after_Inl)
          (use that 1 in \<open>auto simp: pid_def [symmetric] gid_def [symmetric] intro!: broken compensated intro: own_rows_trans\<close>)
    next
      case (2 now)
      show ?case
        by (intro do_settle_done [OF ids(1)] after_Inl after_Inr do_Ret)
          (use that in \<open>auto simp: settlement_evolves push_history_def pid_def [symmetric] gid_def [symmetric]
             intro!: broken settled dest!: beside_counts intro: own_rows_trans\<close>)
    qed
  qed
  have charged: "does H clock ks t (bind (charge_done ref rid tid st) (\<lambda>_. saga_step3 ref rid tid)) m2 d2 ?R"
    if "own_rows pid d d2" "ledger d2 = ledger d" "trail d2 pid = trail d pid @ [A_saga_reserve]"
      "r_history (object m2 ref) = r_history (object m ref) @
         [\<lparr>h_phase = Ph_reserve, h_event = ''ok'', h_at = t1, h_detail = Some rid\<rparr>]"
      "r_status (object m2 ref) = r_status (object m ref)" "charges m2 gid = charges m gid + 1" "refunds m2 gid = refunds m gid"
      "evolves (object m ref) (object m2 ref)" "mg_getStatus tid (mock_of m2 gid) = Succeeded"
    for rid tid st m2 d2 t1
  proof -
    have ids: "pid = p_id (object m2 ref)" using evolves_fields [OF that(8)] by (simp add: pid_def)
    show ?thesis
      by (intro do_bind do_charge_done [OF ids] after_Inl after_Inr step3)
        (use that in \<open>auto simp: push_history_def pid_def [symmetric] gid_def [symmetric]
           intro!: broken dest!: beside_counts intro: own_rows_trans evolves_trans\<close>)
  qed
  show ?thesis
    unfolding execute_def
  proof (intro do_bind do_reserve [OF pid_def] after_Inl after_Inr, goal_cases)
    case (1 e m' d')
    then show ?case by (intro broken) (simp_all add: pid_def)
  next
    case (2 rid now m1 d1)
    then have e1: "evolves (object m ref) (object m1 ref)" "charges m1 = charges m" "refunds m1 = refunds m"
      by (auto dest: beside_counts)
    have o1: "r_status (object m1 ref) = r_status (object m ref)" "p_gatewayId (object m1 ref) = gid"
      "p_id (object m1 ref) = pid" "r_history (object m1 ref) = r_history (object m ref) @
         [\<lparr>h_phase = Ph_reserve, h_event = ''ok'', h_at = now, h_detail = Some rid\<rparr>]"
      using 2(6) by (simp_all add: gid_def pid_def push_history_def)
    show ?case
      unfolding saga_charge_def Let_def
    proof (intro do_Get do_span do_guard_call after_Inr, unfold o1(2), goal_cases)
      case (1 out m2 t0 t1)
      then have o2: "object m2 ref = object m1 ref" by (simp add: elsewhere_def)
      note cnt = guarded_counts [OF 1(1)]
      show ?case
      proof (cases out)
        case (Call_ok tid st lat)
        show ?thesis unfolding Call_ok call_outcome.case
          by (rule charged [where ?t1.0 = now]) (use 2 o1 o2 e1 cnt Call_ok in auto)
      next
        case (Call_failed err)
        have p2: "pid = p_id (object m2 ref)" by (simp add: o1 o2)
        show ?thesis unfolding Call_failed call_outcome.case
          by (intro do_charge_failed [OF p2])
            (use 2 o1 o2 e1 cnt Call_failed in \<open>auto simp: pid_def [symmetric] gid_def [symmetric]
               intro!: broken charge_refused dest!: beside_counts intro: own_rows_trans\<close>)
      qed
    qed
  qed
qed

end

subsection \<open>Properties of the saga\<close>

text \<open>
  C13. Bounded side effects, in every world (Redis may fail at any command or answer
  anything): an execution of the saga always ends; it charges the payment's gateway at
  most once and refunds at most once; the limiters, breakers and providers of all other
  gateways and all other payment records are as before; and the payment's own record
  keeps the order as placed and loses no history.
\<close>

theorem saga_bounded:
  assumes "js_world H clock"
  shows "\<exists>r m' w'. run H (execute C ref) m w = Some (r, m', w') \<and>
    charges m' (p_gatewayId (object m ref)) \<le> charges m (p_gatewayId (object m ref)) + 1 \<and>
    refunds m' (p_gatewayId (object m ref)) \<le> refunds m (p_gatewayId (object m ref)) + 1 \<and>
    (\<forall>x. x \<noteq> p_gatewayId (object m ref) \<longrightarrow> bucket_of C m' x = bucket_of C m x \<and>
       breaker_of C m' x = breaker_of C m x \<and> mock_of m' x = mock_of m x) \<and>
    (\<forall>x. x \<noteq> ref \<longrightarrow> object m' x = object m x) \<and> evolves (object m ref) (object m' ref)"
  using js_world.wp_execute_spends [OF assms refl, THEN wp_run] unfolding spends_def by blast

definition sample_mem :: mem where
  "sample_mem = empty_mem\<lparr>m_objects := (\<lambda>_. sample_record), m_nextObject := 1\<rparr>"

theorem saga_bounded_witness:
  "\<exists>r m' w'. run faulty_step (execute default_config 0) sample_mem start_world = Some (r, m', w') \<and>
    charges m' ''stripe'' \<le> charges sample_mem ''stripe'' + 1"
proof -
  have "p_gatewayId (object sample_mem 0) = ''stripe''"
    by (simp add: object_def sample_mem_def sample_record_def createPaymentRecord_def)
  with saga_bounded [OF faulty.js_world_axioms, of default_config 0 sample_mem start_world] show ?thesis
    by metis
qed

text \<open>
  C4. The saga refines its specification: over any Redis connection (a command has its
  documented effect or fails), starting from well-typed keys, an execution ends in one of
  the four ways of \<open>saga_ends\<close>. A success has charged exactly once, refunded nothing,
  appended exactly one settlement for the order's amount and currency, and left the three
  successful steps in history and audit log; a refused charge has released the
  reservation and settled nothing; a failed settlement has refunded exactly once and
  released the reservation; anything else is an infrastructure exception, possible only
  when a Redis command failed.
\<close>

theorem saga_refines_spec:
  assumes "redis_world H clock ks" and "typed (ks w)"
  shows "\<exists>r m' w'. run H (execute C ref) m w = Some (r, m', w') \<and> typed (ks w') \<and>
    saga_ends (never_fails H clock ks) ref m (db_of (ks w)) r m' (db_of (ks w'))"
proof -
  have "holds clock ks (clock w) (db_of (ks w)) w" using assms(2) by (simp add: holds_def)
  from do_wp [OF redis_world.do_execute [OF assms(1)] this, THEN wp_run]
  show ?thesis unfolding holds_def by blast
qed

theorem saga_refines_spec_witness:
  "\<exists>r m' w'. run world_step (execute default_config 0) sample_mem start_world = Some (r, m', w') \<and>
    saga_ends True 0 sample_mem (db_of Map.empty) r m' (db_of (w_keys w'))"
  using saga_refines_spec [OF calm.redis_world_axioms, of start_world default_config 0 sample_mem] calm.reliable
  by (auto simp: start_world_def)

end
