(* ===== verification/Payment_Processor.thy ===== *)
theory Payment_Processor
  imports Payment_Saga Idempotency Queue_Manager
begin

text \<open>
  The worker side of \<^verbatim>\<open>src/payments/payment.processor.ts\<close>: one attempt of a job
  (idempotency check, execution lock, saga, terminal state), the dead letter path and the
  handler for exhausted retries.
\<close>

datatype process_result =
    Process_completed string "string option"
  | Process_dead_letter string string
  | Process_skipped string string

definition emit_lifecycle ::
    "event_type \<Rightarrow> string \<Rightarrow> string \<Rightarrow> string option \<Rightarrow> payment_status \<Rightarrow> timestamp \<Rightarrow> json_object option \<Rightarrow> unit async" where
  "emit_lifecycle ty pid gid correlationId st now detail =
     emit (Ev_payment \<lparr>le_type = ty, le_paymentId = pid, le_gatewayId = Some gid,
       le_correlationId = correlationId, le_status = Some st, le_at = now, le_detail = detail\<rparr>)"

definition emit_job_completed :: "string \<Rightarrow> string \<Rightarrow> bool \<Rightarrow> timestamp \<Rightarrow> unit async" where
  "emit_job_completed pid gid ok startedAt =
     bind date_now (\<lambda>ended. bind date_now (\<lambda>now. emit (Ev_job_completed pid gid ok (ended - startedAt) now)))"

text \<open>The announcements of a dead letter: two events, then the job on the dead letter queue.\<close>

definition announce_dead_letter :: "string \<Rightarrow> string \<Rightarrow> string \<Rightarrow> string option \<Rightarrow> unit async" where
  "announce_dead_letter pid gid reason correlationId =
     (let detail = Some [(''reason'', JStr reason)]
      in bind date_now (\<lambda>t1.
         bind (emit_lifecycle T_payment_failed pid gid correlationId S_dead_letter t1 detail) (\<lambda>_.
         bind date_now (\<lambda>t2.
         bind (emit_lifecycle T_payment_dead_lettered pid gid correlationId S_dead_letter t2 detail) (\<lambda>_.
           withSpan SPAN_DLQ
             [(''paymentId'', Some pid), (''gatewayId'', Some gid),
              (''correlationId'', Some (nullish correlationId [])), (''reason'', Some reason)]
             (bind date_now (\<lambda>t3.
                routeToDlq \<lparr>de_paymentId = pid, de_correlationId = correlationId, de_reason = reason,
                  de_deadLetteredAt = t3\<rparr>)))))))"

definition finalizeDeadLetter :: "app_config \<Rightarrow> nat \<Rightarrow> string \<Rightarrow> string option \<Rightarrow> process_result async" where
  "finalizeDeadLetter C ref reason correlationId =
     Get (\<lambda>m. let pid = p_id (object m ref) in
       bind (store_get pid) (\<lambda>stored.
       bind (case stored of Some r \<Rightarrow> new_object r | None \<Rightarrow> Ret ref) (\<lambda>latest.
       Get (\<lambda>m.
         if r_status (object m latest) \<in> {S_dead_letter, S_completed}
         then Ret (Process_skipped pid (''already '' @ status_text (r_status (object m latest))))
         else
           bind date_now (\<lambda>now.
           bind (mutate latest (\<lambda>r. transitionToDeadLetter r reason now)) (\<lambda>_.
           bind (save_object latest) (\<lambda>_.
           bind (finalize C pid \<lparr>fi_state = Idem_FAILED, fi_paymentStatus = Some S_dead_letter,
                   fi_transactionId = None, fi_failureReason = Some reason\<rparr>) (\<lambda>_.
           bind (audit_record pid A_payment_dead_lettered (Some [(''reason'', JStr reason)]) None) (\<lambda>_.
           bind (Get (\<lambda>m. announce_dead_letter pid (p_gatewayId (object m latest)) reason correlationId)) (\<lambda>_.
             Ret (Process_dead_letter pid reason)))))))))))"

text \<open>The \<open>try\<close> and \<open>catch\<close> parts of the attempt.\<close>

definition attempt_saga :: "app_config \<Rightarrow> string \<Rightarrow> nat \<Rightarrow> string option \<Rightarrow> timestamp \<Rightarrow> process_result async" where
  "attempt_saga C pid ref correlationId startedAt =
     bind (execute C ref) (\<lambda>outcome.
     bind date_now (\<lambda>now.
     bind (mutate ref (\<lambda>r. transitionToCompleted r (Some (so_transactionId outcome)) now)) (\<lambda>_.
     bind (mutate ref (\<lambda>r. r\<lparr>r_sagaState := Saga_settled, r_reservationId := Some (so_reservationId outcome),
                               r_failureReason := None\<rparr>)) (\<lambda>_.
     bind (save_object ref) (\<lambda>_.
     bind (finalize C pid \<lparr>fi_state = Idem_COMPLETED, fi_paymentStatus = Some S_completed,
             fi_transactionId = Some (so_transactionId outcome), fi_failureReason = None\<rparr>) (\<lambda>_.
     bind (audit_record pid A_payment_completed (Some [(''transactionId'', JStr (so_transactionId outcome))]) None) (\<lambda>_.
     bind date_now (\<lambda>done_at.
     Get (\<lambda>m.
       bind (emit_lifecycle T_payment_completed pid (p_gatewayId (object m ref)) correlationId S_completed done_at None) (\<lambda>_.
       bind (emit_job_completed pid (p_gatewayId (object m ref)) True startedAt) (\<lambda>_.
         Ret (Process_completed pid (Some (so_transactionId outcome))))))))))))))"

definition attempt_failed :: "app_config \<Rightarrow> string \<Rightarrow> nat \<Rightarrow> string option \<Rightarrow> timestamp \<Rightarrow> exn \<Rightarrow> process_result async" where
  "attempt_failed C pid ref correlationId startedAt err =
     Get (\<lambda>m. let gid = p_gatewayId (object m ref); failure = toPaymentProcessingError err gid UNKNOWN in
       bind (emit_job_completed pid gid False startedAt) (\<lambda>_.
         if \<not> pe_retryable failure then finalizeDeadLetter C ref (pe_message failure) correlationId
         else
           bind date_now (\<lambda>now.
           bind (mutate ref (\<lambda>r. push_history r Ph_charge
                   (''transient failure ('' @ code_text (pe_code failure) @ ''), will retry'') (Some (pe_message failure)) now)) (\<lambda>_.
           bind (save_object ref) (\<lambda>_.
             Throw (Processing failure))))))"

definition locked_attempt :: "app_config \<Rightarrow> job \<Rightarrow> nat \<Rightarrow> timestamp \<Rightarrow> process_result async" where
  "locked_attempt C job ref startedAt =
     (let pid = j_paymentId (jb_data job); correlationId = j_correlationId (jb_data job);
          detail = Some [(''attempt'', JNum (of_int (jb_attemptsMade job + 1)))]
      in bind (mutate ref (\<lambda>r. transitionToProcessing r (jb_attemptsMade job) startedAt)) (\<lambda>_.
         bind (save_object ref) (\<lambda>_.
         bind (audit_record pid A_payment_processing detail None) (\<lambda>_.
         bind (Get (\<lambda>m. emit_lifecycle T_payment_processing pid (p_gatewayId (object m ref)) correlationId S_processing startedAt detail)) (\<lambda>_.
           catch (attempt_saga C pid ref correlationId startedAt) (attempt_failed C pid ref correlationId startedAt))))))"

definition processJob :: "app_config \<Rightarrow> job \<Rightarrow> process_result async" where
  "processJob C job =
     (let pid = j_paymentId (jb_data job)
      in bind date_now (\<lambda>startedAt.
         bind (store_get pid) (\<lambda>stored.
           case stored of
             None \<Rightarrow> Throw (JsError (''payment record '' @ pid @ '' not found while processing job '' @ jb_id job))
           | Some r \<Rightarrow>
               bind (new_object r) (\<lambda>ref.
               bind (idem_get pid) (\<lambda>idem.
                 if map_option i_state idem \<in> {Some Idem_COMPLETED, Some Idem_FAILED}
                 then Ret (Process_skipped pid (''already finalized as '' @ status_text (r_status r)))
                 else
                   bind (acquireExecutionLock C pid) (\<lambda>locked.
                     if \<not> locked then Ret (Process_skipped pid ''concurrent execution lock held by another worker'')
                     else finally_do (locked_attempt C job ref startedAt) (releaseExecutionLock pid)))))))"

definition process :: "app_config \<Rightarrow> job \<Rightarrow> process_result async" where
  "process C job =
     withSpan SPAN_PROCESS
       [(''paymentId'', Some (j_paymentId (jb_data job))),
        (''correlationId'', Some (nullish (j_correlationId (jb_data job)) [])), (''jobId'', Some (jb_id job))]
       (processJob C job)"

definition handleJobFailure :: "app_config \<Rightarrow> job_data \<Rightarrow> exn \<Rightarrow> unit async" where
  "handleJobFailure C jobData err =
     bind (store_get (j_paymentId jobData)) (\<lambda>stored.
       case stored of
         None \<Rightarrow> Ret ()
       | Some r \<Rightarrow>
           if r_status r \<in> {S_completed, S_dead_letter} then Ret ()
           else bind (new_object r) (\<lambda>ref.
                bind (finalizeDeadLetter C ref (''retries exhausted: '' @ exn_message err) (j_correlationId jobData)) (\<lambda>_.
                  Ret ())))"

subsection \<open>The specification of an attempt\<close>

text \<open>
  The ways an attempt of a job ends when Redis and the queues work: from memory \<open>m\<close> and
  database \<open>d\<close>, at time \<open>t\<close> or later.
\<close>

inductive attempt_ends :: "app_config \<Rightarrow> string \<Rightarrow> timestamp \<Rightarrow> mem \<Rightarrow> db \<Rightarrow> exn + process_result \<Rightarrow> mem \<Rightarrow> db \<Rightarrow> bool"
  for C pid t m d where
  unknown_payment: "docs d pid = None \<Longrightarrow> charges m' = charges m \<Longrightarrow> attempt_ends C pid t m d (Inl (JsError msg)) m' d"
| already_final: "docs d pid = Some r \<Longrightarrow> t \<le> now \<Longrightarrow> lease_at d now pid = Some rec \<Longrightarrow> i_state rec \<noteq> Idem_PROCESSING \<Longrightarrow>
     charges m' = charges m \<Longrightarrow> refunds m' = refunds m \<Longrightarrow> attempt_ends C pid t m d (Inr (Process_skipped pid msg)) m' d"
| already_running: "docs d pid = Some r \<Longrightarrow> t \<le> now \<Longrightarrow> locked_at d now pid \<Longrightarrow>
     charges m' = charges m \<Longrightarrow> refunds m' = refunds m \<Longrightarrow> attempt_ends C pid t m d (Inr (Process_skipped pid msg)) m' d"
| completed: "docs d pid = Some r \<Longrightarrow> docs d' = (docs d)(pid \<mapsto> r') \<Longrightarrow> evolves r r' \<Longrightarrow> r_status r' = S_completed \<Longrightarrow>
     r_transactionId r' = Some tid \<Longrightarrow> r_sagaState r' = Saga_settled \<Longrightarrow>
     leases d' = (leases d)(pid \<mapsto> (rec, deadline now (retentionSeconds (cfg_idempotency C)))) \<Longrightarrow> t \<le> now \<Longrightarrow>
     i_state rec = Idem_COMPLETED \<Longrightarrow> i_transactionId rec = Some tid \<Longrightarrow> locks d' = (locks d)(pid := None) \<Longrightarrow>
     ledger d' = ledger d @ [settlement_of r tid ts] \<Longrightarrow>
     charges m' (p_gatewayId r) = charges m (p_gatewayId r) + 1 \<Longrightarrow> refunds m' (p_gatewayId r) = refunds m (p_gatewayId r) \<Longrightarrow>
     attempt_ends C pid t m d (Inr (Process_completed pid (Some tid))) m' d'"
| dead_lettered: "docs d pid = Some r \<Longrightarrow> docs d' = (docs d)(pid \<mapsto> r') \<Longrightarrow> evolves r r' \<Longrightarrow> r_status r' = S_dead_letter \<Longrightarrow>
     r_failureReason r' = Some reason \<Longrightarrow>
     leases d' = (leases d)(pid \<mapsto> (rec, deadline now (retentionSeconds (cfg_idempotency C)))) \<Longrightarrow> t \<le> now \<Longrightarrow>
     i_state rec = Idem_FAILED \<Longrightarrow> locks d' = (locks d)(pid := None) \<Longrightarrow> ledger d' = ledger d \<Longrightarrow>
     charges m' (p_gatewayId r) \<le> charges m (p_gatewayId r) + 1 \<Longrightarrow> refunds m' (p_gatewayId r) = refunds m (p_gatewayId r) \<Longrightarrow>
     attempt_ends C pid t m d (Inr (Process_dead_letter pid reason)) m' d'"
| will_retry: "docs d pid = Some r \<Longrightarrow> docs d' = (docs d)(pid \<mapsto> r') \<Longrightarrow> evolves r r' \<Longrightarrow> r_status r' = S_processing \<Longrightarrow>
     leases d' = (leases d)(pid \<mapsto> (rec, deadline now (leaseTtlSeconds (cfg_idempotency C)))) \<Longrightarrow> t \<le> now \<Longrightarrow>
     i_state rec = Idem_PROCESSING \<Longrightarrow> locks d' = (locks d)(pid := None) \<Longrightarrow> ledger d' = ledger d \<Longrightarrow>
     charges m' (p_gatewayId r) \<le> charges m (p_gatewayId r) + 1 \<Longrightarrow> refunds m' (p_gatewayId r) = refunds m (p_gatewayId r) \<Longrightarrow>
     pe_retryable err \<Longrightarrow> isTransient (pe_code err) \<Longrightarrow> attempt_ends C pid t m d (Inl (Processing err)) m' d'"

inductive_cases attempt_endsE: "attempt_ends C pid t m d res m' d'"

subsection \<open>What is left alone\<close>

definition same_gateways :: "mem \<Rightarrow> mem \<Rightarrow> bool" where
  "same_gateways m m' \<longleftrightarrow> m_buckets m' = m_buckets m \<and> m_breakers m' = m_breakers m \<and> m_mocks m' = m_mocks m"

lemma same_gateways_simps [simp]:
  "same_gateways m m"
  "same_gateways m (put_object ref r m') \<longleftrightarrow> same_gateways m m'"
  "same_gateways m (m'\<lparr>m_emitted := evs\<rparr>) \<longleftrightarrow> same_gateways m m'"
  "same_gateways m (m'\<lparr>m_nextObject := n\<rparr>) \<longleftrightarrow> same_gateways m m'"
  "same_gateways m (m'\<lparr>m_dlqClient := c\<rparr>) \<longleftrightarrow> same_gateways m m'"
  by (simp_all add: same_gateways_def)

lemma same_gateways_counts: "same_gateways m m' \<Longrightarrow> charges m' = charges m \<and> refunds m' = refunds m \<and> mock_of m' = mock_of m"
  by (auto simp: same_gateways_def charges_def refunds_def mock_of_def fun_eq_iff)

lemma counts_frame [simp]:
  "charges (put_object ref r m) = charges m" "refunds (put_object ref r m) = refunds m"
  "charges (m\<lparr>m_emitted := evs\<rparr>) = charges m" "refunds (m\<lparr>m_emitted := evs\<rparr>) = refunds m"
  "charges (m\<lparr>m_nextObject := n\<rparr>) = charges m" "refunds (m\<lparr>m_nextObject := n\<rparr>) = refunds m"
  by (simp_all add: charges_def refunds_def mock_of_def fun_eq_iff)

lemma object_dlq [simp]: "object (m\<lparr>m_dlqClient := c\<rparr>) ref = object m ref"
  by (simp add: object_def)

lemma no_redis_ext: "\<not> is_redis c \<Longrightarrow> no_redis (ext_unit c)" "\<not> is_redis c \<Longrightarrow> no_redis (ext_handle c)"
  by (auto simp: ext_unit_def ext_handle_def intro!: calls_in.intros no_redis_steps split: reply.split)

lemma no_redis_route: "no_redis (routeToDlq entry)"
  unfolding routeToDlq_def dlqQueue_def newClient_def
  by (auto intro!: no_redis_bind calls_in.intros no_redis_ext no_redis_steps split: option.split)

lemma wp_route:
  "wp H (routeToDlq entry) (\<lambda>r m' w'. (r = Inr () \<or> (\<exists>e. r = Inl (JsError e)) \<and> \<not> queues_ok H) \<and>
     (m' = m \<or> (\<exists>c. m' = m\<lparr>m_dlqClient := Some c\<rparr>))) m w"
  unfolding routeToDlq_def dlqQueue_def wp_bind
  by (simp split: option.split)
    (intro conjI impI allI wp_ext_unit wp_newClient; simp; intro wp_ext_unit; auto intro!: wp_ext_unit)

context redis_world
begin

lemma do_no_redis:
  assumes "no_redis p" and "\<And>w. wp H p (\<lambda>r m' w'. R r m' d) m w"
  shows "does H clock ks t p m d R"
  unfolding does_def
proof (intro allI impI)
  fix w
  assume "holds clock ks t d w"
  then show "wp H p (\<lambda>r m' w'. \<exists>d'. holds clock ks t d' w' \<and> R r m' d') m w"
    by (intro wp_mono [OF wp_no_redis [OF assms]]) (auto simp: holds_def)
qed

lemma do_route:
  assumes "\<And>e m'. \<not> queues_ok H \<Longrightarrow> (m' = m \<or> (\<exists>c. m' = m\<lparr>m_dlqClient := Some c\<rparr>)) \<Longrightarrow> R (Inl (JsError e)) m' d"
    and "\<And>m'. (m' = m \<or> (\<exists>c. m' = m\<lparr>m_dlqClient := Some c\<rparr>)) \<Longrightarrow> R (Inr ()) m' d"
  shows "does H clock ks t (routeToDlq entry) m d R"
  by (rule do_no_redis [OF no_redis_route], rule wp_mono [OF wp_route]) (use assms in blast)

lemma do_finalize:
  assumes "valid_ttl (retentionSeconds (cfg_idempotency C))" and "\<And>e. \<not> never_fails H clock ks \<Longrightarrow> R (Inl (JsError e)) m d"
    and "\<And>rec now. t \<le> now \<Longrightarrow> i_state rec = fi_state inp \<Longrightarrow> i_transactionId rec = fi_transactionId inp \<Longrightarrow>
       R (Inr ()) m (d\<lparr>leases := (leases d)(pid \<mapsto> (rec, deadline now (retentionSeconds (cfg_idempotency C))))\<rparr>)"
  shows "does H clock ks t (finalize C pid inp) m d R"
  unfolding finalize_def using assms by (intro do_rules) auto

lemma do_acquire:
  assumes "valid_ttl (leaseTtlSeconds (cfg_idempotency C))"
    and "\<And>e d'. \<not> never_fails H clock ks \<Longrightarrow> docs d' = docs d \<Longrightarrow> audits d' = audits d \<Longrightarrow> ledger d' = ledger d \<Longrightarrow> leases d' = leases d \<Longrightarrow>
      R (Inl (JsError e)) m d'"
    and "\<And>now. t \<le> now \<Longrightarrow> locked_at d now pid \<Longrightarrow> R (Inr False) m d"
    and "\<And>rec now now'. t \<le> now \<Longrightarrow> t \<le> now' \<Longrightarrow> \<not> locked_at d now pid \<Longrightarrow> i_state rec = Idem_PROCESSING \<Longrightarrow>
      R (Inr True) m (d\<lparr>locks := (locks d)(pid \<mapsto> deadline now (leaseTtlSeconds (cfg_idempotency C))),
         leases := (leases d)(pid \<mapsto> (rec, deadline now' (leaseTtlSeconds (cfg_idempotency C))))\<rparr>)"
  shows "does H clock ks t (acquireExecutionLock C pid) m d R"
  unfolding acquireExecutionLock_def Let_def
proof (intro do_bind do_lock_nx assms(1) after_Inl after_Inr, goal_cases)
  case (3 now)
  show ?case unfolding not_True_eq_False if_False
    by (intro do_rules assms(1)) (use assms(2,4) 3 in \<open>auto simp: processing_record_def\<close>)
qed (use assms(2,3) in \<open>auto intro: do_Ret\<close>)

lemma do_emit_lifecycle:
  "(\<And>ev. R (Inr ()) (m\<lparr>m_emitted := m_emitted m @ [ev]\<rparr>) d) \<Longrightarrow>
     does H clock ks t (emit_lifecycle ty pid gid cid st now detail) m d R"
  unfolding emit_lifecycle_def by (intro do_emit)

lemma do_emit_job:
  "(\<And>ev. R (Inr ()) (m\<lparr>m_emitted := m_emitted m @ [ev]\<rparr>) d) \<Longrightarrow>
     does H clock ks t (emit_job_completed pid gid ok started) m d R"
  unfolding emit_job_completed_def by (intro do_rules)

lemma do_announce:
  assumes "\<And>e m'. \<not> queues_ok H \<Longrightarrow> same_gateways m m' \<Longrightarrow> R (Inl (JsError e)) m' d"
    and "\<And>m'. same_gateways m m' \<Longrightarrow> R (Inr ()) m' d"
  shows "does H clock ks t (announce_dead_letter pid gid reason cid) m d R"
  unfolding announce_dead_letter_def Let_def
  by (intro do_bind do_date do_emit_lifecycle do_span do_route after_Inl after_Inr) (use assms in auto)

lemma do_dead_letter:
  assumes ttl: "valid_ttl (retentionSeconds (cfg_idempotency C))" and doc: "docs d (p_id (object m ref)) = Some r" "p_id r = p_id (object m ref)"
    and pid: "pid = p_id (object m ref)"
    and skip: "\<And>m' msg. r_status r \<in> {S_dead_letter, S_completed} \<Longrightarrow> same_gateways m m' \<Longrightarrow> R (Inr (Process_skipped pid msg)) m' d"
    and fail: "\<And>e m' d'. \<not> (never_fails H clock ks \<and> queues_ok H) \<Longrightarrow> same_gateways m m' \<Longrightarrow> R (Inl (JsError e)) m' d'"
    and dead: "\<And>now now' rec m' d'. r_status r \<notin> {S_dead_letter, S_completed} \<Longrightarrow> same_gateways m m' \<Longrightarrow>
      docs d' = (docs d)(pid \<mapsto> transitionToDeadLetter r reason now) \<Longrightarrow>
      leases d' = (leases d)(pid \<mapsto> (rec, deadline now' (retentionSeconds (cfg_idempotency C)))) \<Longrightarrow> i_state rec = Idem_FAILED \<Longrightarrow>
      t \<le> now' \<Longrightarrow> trail d' pid = trail d pid @ [A_payment_dead_lettered] \<Longrightarrow> ledger d' = ledger d \<Longrightarrow> locks d' = locks d \<Longrightarrow>
      R (Inr (Process_dead_letter pid reason)) m' d'"
  shows "does H clock ks t (finalizeDeadLetter C ref reason cid) m d R"
  unfolding finalizeDeadLetter_def Let_def
proof (intro do_Get do_bind do_store_get after_Inl after_Inr, goal_cases)
  case (1 e)
  then show ?case by (intro fail) simp_all
next
  case 2
  define m1 where "m1 = put_object (m_nextObject m) r (m\<lparr>m_nextObject := Suc (m_nextObject m)\<rparr>)"
  have m1: "object m1 (m_nextObject m) = r" "same_gateways m m1" by (simp_all add: m1_def)
  show ?case unfolding doc(1) option.case
  proof (intro do_new_object after_Inr do_Get, fold m1_def, unfold m1, goal_cases)
    case 1
    show ?case
    proof (cases "r_status r \<in> {S_dead_letter, S_completed}")
      case True
      then show ?thesis unfolding if_P [OF True] by (intro do_Ret skip [unfolded pid] m1)
    next
      case False
      note dead' = dead [OF False]
      show ?thesis unfolding if_not_P [OF False]
        by (intro do_bind do_date do_mutate saga_rules do_announce after_Inl after_Inr do_finalize [OF ttl])
          (use m1 in \<open>auto simp: trail_def doc(2) pid same_gateways_def intro!: fail dead' [unfolded pid]\<close>)
    qed
  qed
qed

text \<open>The attempt under the lock, from a memory whose object \<open>ref\<close> is the stored record.\<close>

lemma do_attempt_failed:
  assumes ok: "never_fails H clock ks" "queues_ok H" and ttl: "valid_ttl (retentionSeconds (cfg_idempotency C))"
    and pid: "pid = p_id (object m ref)" and doc: "docs d pid = Some (object m ref)" "r_status (object m ref) = S_processing"
    and wf: "wf_error err"
    and dead: "\<And>now now' rec m' d'. same_gateways m m' \<Longrightarrow>
      docs d' = (docs d)(pid \<mapsto> transitionToDeadLetter (object m ref) (pe_message err) now) \<Longrightarrow>
      leases d' = (leases d)(pid \<mapsto> (rec, deadline now' (retentionSeconds (cfg_idempotency C)))) \<Longrightarrow> i_state rec = Idem_FAILED \<Longrightarrow>
      t \<le> now' \<Longrightarrow> ledger d' = ledger d \<Longrightarrow> locks d' = locks d \<Longrightarrow> R (Inr (Process_dead_letter pid (pe_message err))) m' d'"
    and retry: "\<And>now ev m' d'. pe_retryable err \<Longrightarrow> isTransient (pe_code err) \<Longrightarrow> same_gateways m m' \<Longrightarrow>
      docs d' = (docs d)(pid \<mapsto> push_history (object m ref) Ph_charge ev (Some (pe_message err)) now) \<Longrightarrow>
      leases d' = leases d \<Longrightarrow> ledger d' = ledger d \<Longrightarrow> locks d' = locks d \<Longrightarrow> R (Inl (Processing err)) m' d'"
  shows "does H clock ks t (attempt_failed C pid ref cid started (Processing err)) m d R"
  unfolding attempt_failed_def Let_def toError_Processing
proof (intro do_Get do_bind do_emit_job after_Inr, goal_cases)
  case (1 ev)
  let ?m1 = "m\<lparr>m_emitted := m_emitted m @ [ev]\<rparr>"
  show ?case
  proof (cases "pe_retryable err")
    case True
    then have t: "(\<not> pe_retryable err) = False" by simp
    show ?thesis unfolding t if_False
      by (intro saga_rules) (use ok True wf in \<open>auto simp: pid same_gateways_def wf_error_def intro!: retry [unfolded pid]\<close>)
  next
    case False
    then have t: "(\<not> pe_retryable err) = True" by simp
    show ?thesis unfolding t if_True
      by (rule do_dead_letter [OF ttl, of d ?m1 ref "object m ref" pid])
        (use ok doc pid in \<open>auto simp: same_gateways_def intro: dead [unfolded pid]\<close>)
  qed
qed

lemma do_locked_attempt:
  assumes ok: "never_fails H clock ks" "queues_ok H" and ttl: "valid_ttl (retentionSeconds (cfg_idempotency C))"
    and pid: "pid = j_paymentId (jb_data job)" "pid = p_id (object m ref)" and gid: "gid = p_gatewayId (object m ref)"
    and completed: "\<And>r' rec now tid ts m' d'. evolves (object m ref) r' \<Longrightarrow> r_status r' = S_completed \<Longrightarrow>
      r_transactionId r' = Some tid \<Longrightarrow> r_sagaState r' = Saga_settled \<Longrightarrow> docs d' = (docs d)(pid \<mapsto> r') \<Longrightarrow>
      leases d' = (leases d)(pid \<mapsto> (rec, deadline now (retentionSeconds (cfg_idempotency C)))) \<Longrightarrow> t \<le> now \<Longrightarrow>
      i_state rec = Idem_COMPLETED \<Longrightarrow> i_transactionId rec = Some tid \<Longrightarrow> locks d' = locks d \<Longrightarrow>
      ledger d' = ledger d @ [settlement_of (object m ref) tid ts] \<Longrightarrow> charges m' gid = charges m gid + 1 \<Longrightarrow>
      refunds m' gid = refunds m gid \<Longrightarrow> R (Inr (Process_completed pid (Some tid))) m' d'"
    and dead: "\<And>r' rec now reason m' d'. evolves (object m ref) r' \<Longrightarrow> r_status r' = S_dead_letter \<Longrightarrow>
      r_failureReason r' = Some reason \<Longrightarrow> docs d' = (docs d)(pid \<mapsto> r') \<Longrightarrow>
      leases d' = (leases d)(pid \<mapsto> (rec, deadline now (retentionSeconds (cfg_idempotency C)))) \<Longrightarrow> t \<le> now \<Longrightarrow>
      i_state rec = Idem_FAILED \<Longrightarrow> locks d' = locks d \<Longrightarrow> ledger d' = ledger d \<Longrightarrow>
      charges m' gid \<le> charges m gid + 1 \<Longrightarrow> refunds m' gid = refunds m gid \<Longrightarrow>
      R (Inr (Process_dead_letter pid reason)) m' d'"
    and retry: "\<And>r' err m' d'. evolves (object m ref) r' \<Longrightarrow> r_status r' = S_processing \<Longrightarrow> docs d' = (docs d)(pid \<mapsto> r') \<Longrightarrow>
      leases d' = leases d \<Longrightarrow> locks d' = locks d \<Longrightarrow> ledger d' = ledger d \<Longrightarrow>
      charges m' gid \<le> charges m gid + 1 \<Longrightarrow> refunds m' gid = refunds m gid \<Longrightarrow> pe_retryable err \<Longrightarrow> isTransient (pe_code err) \<Longrightarrow>
      R (Inl (Processing err)) m' d'"
  shows "does H clock ks t (locked_attempt C job ref started) m d R"
  unfolding locked_attempt_def Let_def pid(1) [symmetric]
proof (intro do_bind do_mutate do_save_object do_audit do_Get do_emit_lifecycle after_Inl after_Inr, goal_cases)
  case (3 now ev)
  define r1 where "r1 = transitionToProcessing (object m ref) (jb_attemptsMade job) started"
  define m1 where "m1 = (put_object ref r1 m)\<lparr>m_emitted := m_emitted m @ [ev]\<rparr>"
  let ?d1 = "d\<lparr>docs := (docs d)(pid \<mapsto> r1), audits := (audits d)(pid := audits d pid @
     [\<lparr>a_paymentId = pid, a_type = A_payment_processing, a_at = now, a_detail = Some [(''attempt'', JNum (of_int (jb_attemptsMade job + 1)))]\<rparr>])\<rparr>"
  have m1: "object m1 ref = r1" "charges m1 gid = charges m gid" "refunds m1 gid = refunds m gid"
    "p_id r1 = pid" "p_gatewayId r1 = gid" "r_status r1 = S_processing" "evolves (object m ref) r1"
    by (simp_all add: m1_def r1_def charges_def refunds_def gid) (simp_all add: pid(2))
  have "does H clock ks t (catch (attempt_saga C pid ref (j_correlationId (jb_data job)) started)
      (attempt_failed C pid ref (j_correlationId (jb_data job)) started)) m1 ?d1 R"
    unfolding attempt_saga_def
  proof (intro do_catch do_bind, rule do_conseq [OF do_conj [OF wp_execute_spends do_execute]], rule refl, goal_cases)
    case (1 res m2 d2)
    then have sp: "evolves r1 (object m2 ref)" "charges m2 gid \<le> charges m gid + 1"
      by (auto simp: spends_def m1)
    from 1 have "saga_ends (never_fails H clock ks) ref m1 ?d1 res m2 d2" by simp
    then show ?case
    proof cases
      case (settled tid ts t1 rid t2 t3)
      then have d2: "leases d2 = leases d" "locks d2 = locks d" "ledger d2 = ledger d @ [settlement_of (object m ref) tid ts]"
        "\<And>r'. (docs d2)(pid \<mapsto> r') = (docs d)(pid \<mapsto> r')" and c2: "charges m2 gid = charges m gid + 1" "refunds m2 gid = refunds m gid"
        by (auto simp: m1 own_rows_def fun_eq_iff settlement_evolves [OF m1(7)])
      have tid: "r_transactionId (transitionToCompleted (object m2 ref) (Some tid) now) = Some tid" for now
        using settled by (simp add: transitionToCompleted_def Let_def)
      have p2: "p_id (object m2 ref) = pid" using evolves_fields [OF sp(1)] by (simp add: m1)
      have e2: "evolves (object m ref) (transitionToCompleted (object m2 ref) (Some tid) now
           \<lparr>r_sagaState := Saga_settled, r_reservationId := Some rid, r_failureReason := None\<rparr>)" for now
        by (rule evolves_trans [OF evolves_trans [OF m1(7) sp(1)]]) (simp add: evolves_def core_def transitionToCompleted_def Let_def)
      show ?thesis unfolding settled(1)
        by (intro saga_rules do_finalize [OF ttl] do_emit_lifecycle do_emit_job)
          (use ok in \<open>auto simp: d2 c2 p2 tid intro!: completed [OF e2]\<close>)
    next
      case (charge_refused err)
      have o2: "pid = p_id (object m2 ref)" "docs d2 pid = Some (object m2 ref)" "r_status (object m2 ref) = S_processing"
        using charge_refused evolves_fields [OF sp(1)] by (simp_all add: m1)
      from charge_refused have d2: "leases d2 = leases d" "locks d2 = locks d" "ledger d2 = ledger d"
        "\<And>r'. (docs d2)(pid \<mapsto> r') = (docs d)(pid \<mapsto> r')" and c2: "refunds m2 gid = refunds m gid"
        by (auto simp: m1 own_rows_def fun_eq_iff)
      have e2: "evolves (object m ref) (transitionToDeadLetter (object m2 ref) reason now)"
        "evolves (object m ref) (push_history (object m2 ref) ph ev x now)" for now reason ph ev x
        by (rule evolves_trans [OF evolves_trans [OF m1(7) sp(1)]], simp)+
      have reason: "r_failureReason (transitionToDeadLetter r reason now) = Some reason" for r reason now
        by (simp add: transitionToDeadLetter_def Let_def)
      show ?thesis unfolding charge_refused(1)
        by (intro after_Inl caught_Inl do_attempt_failed [OF ok ttl o2 charge_refused(8)])
          (use sp c2 in \<open>auto simp: d2 o2(3) reason dest!: same_gateways_counts intro!: dead [OF e2(1)] retry [OF e2(2)]\<close>)
    qed (use ok in simp_all)
  qed
  then show ?case by (simp add: m1_def r1_def pid(2))
qed (use ok in simp_all)

lemma do_processJob:
  assumes ok: "never_fails H clock ks" "queues_ok H"
    and ttl: "valid_ttl (leaseTtlSeconds (cfg_idempotency C))" "valid_ttl (retentionSeconds (cfg_idempotency C))"
    and pid: "pid = j_paymentId (jb_data job)"
  shows "does H clock ks t (processJob C job) m d (attempt_ends C pid t m d)"
proof (cases "docs d pid")
  case None
  show ?thesis unfolding processJob_def Let_def pid [symmetric]
    by (intro do_bind do_date do_store_get after_Inr after_Inl)
      (use ok None in \<open>auto intro!: do_Throw unknown_payment\<close>)
next
  case (Some r)
  let ?ref = "m_nextObject m"
  define m1 where "m1 = put_object ?ref r (m\<lparr>m_nextObject := Suc ?ref\<rparr>)"
  have m1: "object m1 ?ref = r" "charges m1 = charges m" "refunds m1 = refunds m"
    by (simp_all add: m1_def)
  show ?thesis unfolding processJob_def Let_def pid [symmetric]
  proof (intro do_bind do_date do_store_get after_Inr after_Inl, goal_cases)
    case (2 started)
    then have r: "pid = p_id r" using Some by simp
    have locked: "does H clock ks t (finally_do (locked_attempt C job ?ref started) (releaseExecutionLock pid)) m1
        (d\<lparr>locks := (locks d)(pid \<mapsto> l), leases := (leases d)(pid \<mapsto> (rec, deadline now (leaseTtlSeconds (cfg_idempotency C))))\<rparr>)
        (attempt_ends C pid t m d)" if "t \<le> now" "i_state rec = Idem_PROCESSING" for l rec now
      by (intro do_finally do_locked_attempt [OF ok ttl(2) pid, where gid = "p_gatewayId r"] do_unlock after_Inl after_Inr)
        (use ok m1 r Some that in \<open>auto simp: fun_upd_idem intro!: completed dead_lettered will_retry\<close>)
    show ?case unfolding Some option.case
    proof (intro do_bind do_new_object do_idem_get after_Inr after_Inl, fold m1_def, goal_cases)
      case (2 now)
      show ?case
      proof (cases "map_option i_state (lease_at d now pid) \<in> {Some Idem_COMPLETED, Some Idem_FAILED}")
        case True
        then show ?thesis unfolding if_P [OF True] by (intro do_Ret) (use 2 m1 Some in \<open>auto intro!: already_final\<close>)
      next
        case False
        show ?thesis unfolding if_not_P [OF False]
          by (intro do_bind do_acquire [OF ttl(1)] after_Inr after_Inl)
            (use ok 2 m1 Some in \<open>auto intro!: do_Ret already_running locked\<close>)
      qed
    qed (use ok in simp_all)
  qed (use ok in simp_all)
qed

end

subsection \<open>What an attempt may cost\<close>

text \<open>\<open>bills gid c f m m'\<close>: at most \<open>c\<close> charges and \<open>f\<close> refunds, all of them on gateway \<open>gid\<close>.\<close>

definition bills :: "string \<Rightarrow> nat \<Rightarrow> nat \<Rightarrow> mem \<Rightarrow> mem \<Rightarrow> bool" where
  "bills gid c f m m' \<longleftrightarrow>
     (\<forall>x. charges m x \<le> charges m' x \<and> charges m' x \<le> charges m x + (if x = gid then c else 0) \<and>
          refunds m x \<le> refunds m' x \<and> refunds m' x \<le> refunds m x + (if x = gid then f else 0))"

interpretation billing: graded_frame "bills gid" for gid
proof
  fix c1 f1 c2 f2 m m1 m2
  assume "bills gid c1 f1 m m1" "bills gid c2 f2 m1 m2"
  then have "charges m x \<le> charges m2 x \<and> charges m2 x \<le> charges m x + (if x = gid then c1 + c2 else 0) \<and>
     refunds m x \<le> refunds m2 x \<and> refunds m2 x \<le> refunds m x + (if x = gid then f1 + f2 else 0)" for x
    unfolding bills_def by (cases "x = gid") (force dest: spec [of _ x])+
  then show "bills gid (c1 + c2) (f1 + f2) m m2" by (simp add: bills_def)
next
  show "bills gid c f m m' \<Longrightarrow> c \<le> c' \<Longrightarrow> f \<le> f' \<Longrightarrow> bills gid c' f' m m'" for c f m m' c' f'
    unfolding bills_def by (auto intro: le_trans)
qed

interpretation offline: process_frame same_gateways
  by unfold_locales (auto simp: same_gateways_def)

lemma offline_mutate: "honours H same_gateways (mutate ref f)"
  by (simp add: honours_def)

lemma offline_new: "honours H same_gateways (new_object r)"
  by (simp add: honours_def new_object_def)

lemma offline_emit: "honours H same_gateways (emit ev)"
  by (simp add: honours_def)

lemma offline_span: "honours H same_gateways fn \<Longrightarrow> honours H same_gateways (withSpan n as fn)"
  unfolding withSpan_def span_start_def span_call_def
  by (intro offline.honours_bind offline.honours_finally offline.honours_catch offline.honours_Call
      offline.honours_Ret offline.honours_Throw)

lemma offline_own: "honours H (beside ref) p \<Longrightarrow> honours H same_gateways p"
  unfolding honours_def by (intro allI) (rule wp_mono [where Q = "\<lambda>r m' w'. beside ref _ m'"], auto simp: beside_def same_gateways_def)

lemma offline_route: "honours H same_gateways (routeToDlq entry)"
  unfolding honours_def by (auto intro!: wp_mono [OF wp_route])

lemmas offline_steps = offline_mutate offline_new offline_emit offline_span offline_route
  offline.honours_bind offline.honours_catch offline.honours_finally offline.honours_Get offline.honours_Ret offline.honours_Throw offline.honours_if

lemma offline_records:
  "honours H same_gateways date_now" "honours H same_gateways (store_get pid)" "honours H same_gateways (save_object ref)"
  "honours H same_gateways (audit_record pid ty detail ts)" "honours H same_gateways (finalize C pid inp)"
  "honours H same_gateways (idem_get pid)" "honours H same_gateways (acquireExecutionLock C pid)"
  "honours H same_gateways (releaseExecutionLock pid)"
  unfolding store_get_def save_object_def store_save_def audit_record_def finalize_def idem_get_def acquireExecutionLock_def
    releaseExecutionLock_def Let_def
  by (auto intro!: offline.honours_bind offline.honours_Get offline.honours_only_calls only_calls_bind only_calls.intros split: option.splits)

lemma offline_events:
  "honours H same_gateways (emit_lifecycle ty pid gid cid st now detail)"
  "honours H same_gateways (emit_job_completed pid gid okay started)"
  unfolding emit_lifecycle_def emit_job_completed_def by (intro offline_steps offline_records)+

lemma offline_dead_letter: "honours H same_gateways (finalizeDeadLetter C ref reason cid)"
  unfolding finalizeDeadLetter_def announce_dead_letter_def Let_def
  by (intro offline_steps offline_records offline_events) (auto intro!: offline_steps split: option.split)

lemma offline_attempt_failed: "honours H same_gateways (attempt_failed C pid ref cid started err)"
  unfolding attempt_failed_def Let_def by (intro offline_steps offline_records offline_events offline_dead_letter)

lemma calls_idempotency:
  "only_calls date_now" "only_calls (store_get pid)" "only_calls (idem_get pid)" "only_calls (acquireExecutionLock C pid)"
  unfolding store_get_def idem_get_def acquireExecutionLock_def Let_def
  by (auto intro!: only_calls_bind only_calls.intros)

lemma bills_offline: "same_gateways m m' \<Longrightarrow> bills gid 0 0 m m'"
  by (simp add: bills_def same_gateways_counts)

lemma bills_spends: "spends C gid ref c f m m' \<Longrightarrow> bills gid c f m m'"
  by (auto simp: bills_def spends_def charges_def refunds_def)

lemma wp_offline_bills: "honours H same_gateways p \<Longrightarrow> wp H p (\<lambda>r m' w'. bills gid 0 0 m m') m w"
  unfolding honours_def using bills_offline by (blast intro: wp_mono)

context js_world
begin

lemma wp_attempt_bills:
  assumes gid: "p_gatewayId (object m ref) = gid"
  shows "wp H (catch (attempt_saga C pid ref cid started) (attempt_failed C pid ref cid started))
     (\<lambda>r m' w'. bills gid 1 1 m m') m w"
proof -
  have saga: "wp H (execute C ref) (\<lambda>r m' w'. bills gid 1 1 m m') m w"
    using wp_execute_spends [OF gid] by (rule wp_mono) (rule bills_spends)
  have "wp H (attempt_saga C pid ref cid started) (\<lambda>r m' w'. bills gid (1 + 0) (1 + 0) m m') m w"
    unfolding attempt_saga_def
    by (rule billing.wp_seq_grade [OF saga]) (intro wp_offline_bills offline_steps offline_records offline_events)
  from billing.wp_catch_grade [OF this wp_offline_bills [OF offline_attempt_failed]] show ?thesis by simp
qed

lemma wp_after_own:
  assumes "honours H (beside ref) p" and gid: "p_gatewayId (object m ref) = gid"
    and "\<And>a m1 w1. p_gatewayId (object m1 ref) = gid \<Longrightarrow> wp H (q a) (\<lambda>r m' w'. bills gid c f m1 m') m1 w1"
  shows "wp H (bind p q) (\<lambda>r m' w'. bills gid c f m m') m w"
  unfolding wp_bind
proof (rule wp_mono [OF assms(1) [unfolded honours_def, rule_format]])
  fix r m1 w1
  assume b: "beside ref m m1"
  then have m1: "bills gid 0 0 m m1" "p_gatewayId (object m1 ref) = gid"
    using gid beside_counts [OF b] by (auto simp: bills_def)
  have "wp H (q a) (\<lambda>r m' w'. bills gid c f m m') m1 w1" for a
    using assms(3) [OF m1(2)] by (rule wp_mono) (use billing.grade_trans [OF m1(1)] in fastforce)
  with billing.grade_weaken [OF m1(1)]
  show "case r of Inl e \<Rightarrow> bills gid c f m m1 | Inr a \<Rightarrow> wp H (q a) (\<lambda>r m' w'. bills gid c f m m') m1 w1"
    by (simp split: sum.split)
qed

lemma wp_locked_bills:
  assumes gid: "p_gatewayId (object m ref) = gid"
  shows "wp H (locked_attempt C job ref started) (\<lambda>r m' w'. bills gid 1 1 m m') m w"
  unfolding locked_attempt_def Let_def emit_lifecycle_def
  by (intro wp_after_own [OF _ gid] wp_after_own own_steps wp_attempt_bills) (simp_all add: own_save)

lemma wp_contend_bills:
  assumes gid: "p_gatewayId (object m ref) = gid"
  shows "wp H (bind (acquireExecutionLock C pid) (\<lambda>locked. if \<not> locked then Ret z
      else finally_do (locked_attempt C job ref started) (releaseExecutionLock pid))) (\<lambda>r m' w'. bills gid 1 1 m m') m w"
proof -
  have "wp H (finally_do (locked_attempt C job ref started) (releaseExecutionLock pid)) (\<lambda>r m' w'. bills gid (1 + 0) (1 + 0) m m') m w" for w
    by (intro billing.wp_finally_grade wp_locked_bills [OF gid] wp_offline_bills offline_records)
  moreover have "bills gid 1 1 m m" by (simp add: bills_def)
  ultimately show ?thesis
    by (intro wp_calls_bind calls_idempotency wp_if wp_Ret [THEN iffD2]) simp_all
qed

lemma wp_processJob_bills: "wp H (processJob C job) (\<lambda>r m' w'. \<exists>gid. bills gid 1 1 m m') m w"
proof -
  let ?pid = "j_paymentId (jb_data job)" and ?ref = "m_nextObject m"
  have none: "bills gid 1 1 m m" for gid by (simp add: bills_def)
  have rest: "wp H (bind (new_object x) (\<lambda>ref. bind (idem_get ?pid) (\<lambda>idem.
       if b idem then Ret (y idem) else bind (acquireExecutionLock C ?pid) (\<lambda>locked.
         if \<not> locked then Ret z else finally_do (locked_attempt C job ref started) (releaseExecutionLock ?pid)))))
     (\<lambda>r m' w'. \<exists>gid. bills gid 1 1 m m') m w" for x b y z started w
  proof -
    define m1 where "m1 = put_object ?ref x (m\<lparr>m_nextObject := Suc ?ref\<rparr>)"
    have m1: "bills (p_gatewayId x) 1 1 m m1" "p_gatewayId (object m1 ?ref) = p_gatewayId x" "bills gid c f m1 m' = bills gid c f m m'" for gid c f m'
      by (simp_all add: m1_def bills_def)
    have "wp H (bind (idem_get ?pid) (\<lambda>idem.
       if b idem then Ret (y idem) else bind (acquireExecutionLock C ?pid) (\<lambda>locked.
         if \<not> locked then Ret z else finally_do (locked_attempt C job ?ref started) (releaseExecutionLock ?pid))))
      (\<lambda>r m' w'. bills (p_gatewayId x) 1 1 m m') m1 w"
      by (intro wp_calls_bind [of "idem_get ?pid"] calls_idempotency wp_if wp_contend_bills [OF m1(2), unfolded m1(3)] m1(1) wp_Ret [THEN iffD2])
    then have "wp H (bind (new_object x) (\<lambda>ref. bind (idem_get ?pid) (\<lambda>idem.
       if b idem then Ret (y idem) else bind (acquireExecutionLock C ?pid) (\<lambda>locked.
         if \<not> locked then Ret z else finally_do (locked_attempt C job ref started) (releaseExecutionLock ?pid)))))
     (\<lambda>r m' w'. bills (p_gatewayId x) 1 1 m m') m w" by (simp add: new_object_def m1_def)
    then show ?thesis by (rule wp_mono) blast
  qed
  show ?thesis unfolding processJob_def Let_def
    by (intro wp_calls_bind calls_idempotency) (use none in \<open>auto intro: rest simp del: wp_bind One_nat_def split: option.split\<close>)
qed

end

subsection \<open>A finalized payment\<close>

context redis_world
begin

lemma wp_processJob_final:
  assumes h: "holds clock ks t d w" and pid: "pid = j_paymentId (jb_data job)"
    and lease: "leases d pid = Some (rec, dl)" "i_state rec \<noteq> Idem_PROCESSING"
  shows "wp H (processJob C job) (\<lambda>r m' w'. clock w' < dl \<longrightarrow> holds clock ks t d w' \<and> charges m' = charges m \<and> refunds m' = refunds m) m w"
  unfolding processJob_def Let_def pid [symmetric] wp_bind wp_date_now sum.case
proof (rule wp_store_get [OF h], goal_cases)
  case (2 w1)
  show ?case
  proof (cases "docs d pid")
    case (Some r)
    let ?ref = "m_nextObject m"
    define m1 where "m1 = put_object ?ref r (m\<lparr>m_nextObject := Suc ?ref\<rparr>)"
    have m1: "charges m1 = charges m" "refunds m1 = refunds m" by (simp_all add: m1_def)
    show ?thesis unfolding Some sum.case option.case wp_bind new_object_def wp_sync_step fst_conv snd_conv m1_def [symmetric]
    proof (rule wp_idem_get [OF 2(1)], goal_cases)
      case (2 w2)
      show ?case
      proof (cases "clock w2 < dl")
        case True
        with lease have "map_option i_state (lease_at d (clock w2) pid) \<in> {Some Idem_COMPLETED, Some Idem_FAILED}"
          by (cases "i_state rec") (simp_all add: lease_at_def)
        with 2 m1 show ?thesis by simp
      next
        case False
        from wp_clock [OF wp_contend_bills [OF refl], of C pid _ job ?ref "clock w" m1 w2]
        have "wp H (bind (acquireExecutionLock C pid) (\<lambda>locked. if \<not> locked then Ret z
          else finally_do (locked_attempt C job ?ref (clock w)) (releaseExecutionLock pid))) (\<lambda>r m' w'. \<not> clock w' < dl) m1 w2" for z
          by (rule wp_mono) (use False in simp)
        then have "wp H (bind (acquireExecutionLock C pid) (\<lambda>locked. if \<not> locked then Ret z
          else finally_do (locked_attempt C job ?ref (clock w)) (releaseExecutionLock pid)))
          (\<lambda>r m' w'. clock w' < dl \<longrightarrow> holds clock ks t d w' \<and> charges m' = charges m \<and> refunds m' = refunds m) m1 w2" for z
          by (rule wp_mono) simp
        with False lease show ?thesis by (simp add: lease_at_def del: wp_bind)
      qed
    qed (simp_all add: m1)
  qed (use 2 in simp)
qed simp

end

subsection \<open>Repeated attempts\<close>

text \<open>The attempts of a payment's jobs, one after the other, whatever each of them ends with.\<close>

primrec attempts :: "app_config \<Rightarrow> job list \<Rightarrow> unit async" where
  "attempts C [] = Ret ()"
| "attempts C (job # jobs) = bind (attempt (processJob C job)) (\<lambda>_. attempts C jobs)"

definition settlements :: "db \<Rightarrow> string \<Rightarrow> nat" where
  "settlements d pid = length (filter (\<lambda>e. se_paymentId e = pid) (ledger d))"

lemma attempt_settles:
  assumes "attempt_ends C pid t m d res m' d'" and "\<forall>r. docs d pid = Some r \<longrightarrow> p_id r = pid"
  shows "settlements d' pid = settlements d pid \<or>
    settlements d' pid = settlements d pid + 1 \<and>
    (\<exists>rec dl. leases d' pid = Some (rec, dl) \<and> i_state rec = Idem_COMPLETED \<and> deadline t (retentionSeconds (cfg_idempotency C)) \<le> dl)"
  using assms by cases (auto simp: settlements_def settlement_of_def deadline_def)

context js_world
begin

lemma wp_attempts_end: "wp H (attempts C jobs) (\<lambda>r m' w'. True) m w"
proof (induction jobs arbitrary: m w)
  case (Cons job jobs)
  then show ?case by simp (rule wp_mono [OF wp_processJob_bills], simp)
qed simp

end

context redis_world
begin

lemma wp_attempts_final:
  assumes "\<forall>job \<in> set jobs. j_paymentId (jb_data job) = pid" and "holds clock ks t d w"
    and "leases d pid = Some (rec, dl)" "i_state rec \<noteq> Idem_PROCESSING"
  shows "wp H (attempts C jobs) (\<lambda>r m' w'. clock w' < dl \<longrightarrow> holds clock ks t d w') m w"
  using assms
proof (induction jobs arbitrary: m w)
  case (Cons job jobs)
  have "wp H (attempts C jobs) (\<lambda>r m' w'. clock w' < dl \<longrightarrow> holds clock ks t d w') m1 w1"
    if "clock w1 < dl \<longrightarrow> holds clock ks t d w1" for m1 w1
  proof (cases "clock w1 < dl")
    case True
    with Cons that show ?thesis by simp
  next
    case False
    from wp_clock [OF wp_attempts_end] show ?thesis by (rule wp_mono) (use False in simp)
  qed
  then show ?case using Cons.prems
    by (simp, intro wp_mono [OF wp_processJob_final [where pid = pid and d = d and t = t]]) auto
qed simp

lemma wp_settled_once:
  assumes ok: "never_fails H clock ks" "queues_ok H"
    and ttl: "valid_ttl (leaseTtlSeconds (cfg_idempotency C))" "valid_ttl (retentionSeconds (cfg_idempotency C))"
    and "\<forall>job \<in> set jobs. j_paymentId (jb_data job) = pid" and "holds clock ks t d w"
  shows "wp H (attempts C jobs) (\<lambda>r m' w'. clock w' < deadline t (retentionSeconds (cfg_idempotency C)) \<longrightarrow>
     (\<exists>d'. holds clock ks t d' w' \<and> settlements d' pid \<le> settlements d pid + 1)) m w"
  using assms(5,6)
proof (induction jobs arbitrary: m d w)
  case (Cons job jobs)
  let ?dl = "deadline t (retentionSeconds (cfg_idempotency C))"
  have pid: "pid = j_paymentId (jb_data job)" and jobs: "\<forall>job \<in> set jobs. j_paymentId (jb_data job) = pid" using Cons.prems by simp_all
  have step: "wp H (attempts C jobs) (\<lambda>r m' w'. clock w' < ?dl \<longrightarrow> (\<exists>d'. holds clock ks t d' w' \<and> settlements d' pid \<le> settlements d pid + 1)) m1 w1"
    if "holds clock ks t d1 w1" "attempt_ends C pid t m d r m1 d1" for m1 w1 d1 r
  proof -
    have "\<forall>r. docs d pid = Some r \<longrightarrow> p_id r = pid" using Cons.prems docs_id by (auto simp: holds_def)
    from attempt_settles [OF that(2) this] consider "settlements d1 pid = settlements d pid"
      | rec dl where "settlements d1 pid = settlements d pid + 1" "leases d1 pid = Some (rec, dl)" "i_state rec = Idem_COMPLETED" "?dl \<le> dl"
      by blast
    then show ?thesis
    proof cases
      case 1
      with Cons.IH [OF jobs that(1)] show ?thesis by simp
    next
      case 2
      then show ?thesis by (intro wp_mono [OF wp_attempts_final [OF jobs that(1)]]) auto
    qed
  qed
  show ?case
    by (simp, rule wp_mono [OF do_wp [OF do_processJob [OF ok ttl pid] Cons.prems(2)]]) (use step in auto)
qed auto

end

subsection \<open>Exhausted retries\<close>

context redis_world
begin

lemma do_handleJobFailure:
  assumes ok: "never_fails H clock ks" "queues_ok H" and ttl: "valid_ttl (retentionSeconds (cfg_idempotency C))"
    and pid: "pid = j_paymentId data"
    and absent: "docs d pid = None \<Longrightarrow> R (Inr ()) m d"
    and final: "\<And>r m'. docs d pid = Some r \<Longrightarrow> r_status r \<in> {S_completed, S_dead_letter} \<Longrightarrow> same_gateways m m' \<Longrightarrow> R (Inr ()) m' d"
    and dead: "\<And>r now now' rec m' d'. docs d pid = Some r \<Longrightarrow> r_status r \<notin> {S_completed, S_dead_letter} \<Longrightarrow> same_gateways m m' \<Longrightarrow>
      docs d' = (docs d)(pid \<mapsto> transitionToDeadLetter r (''retries exhausted: '' @ exn_message err) now) \<Longrightarrow>
      leases d' = (leases d)(pid \<mapsto> (rec, deadline now' (retentionSeconds (cfg_idempotency C)))) \<Longrightarrow> i_state rec = Idem_FAILED \<Longrightarrow>
      t \<le> now' \<Longrightarrow> trail d' pid = trail d pid @ [A_payment_dead_lettered] \<Longrightarrow> ledger d' = ledger d \<Longrightarrow> locks d' = locks d \<Longrightarrow>
      R (Inr ()) m' d'"
  shows "does H clock ks t (handleJobFailure C data err) m d R"
  unfolding handleJobFailure_def pid [symmetric]
proof (intro do_bind do_store_get after_Inl after_Inr, goal_cases)
  case 2
  show ?case
  proof (cases "docs d pid")
    case None
    then show ?thesis by (auto intro: do_Ret absent)
  next
    case (Some r)
    show ?thesis
    proof (cases "r_status r \<in> {S_completed, S_dead_letter}")
      case True
      then show ?thesis unfolding Some option.case if_P [OF True] by (intro do_Ret final [OF Some]) simp_all
    next
      case False
      from 2 Some have r: "p_id r = pid" by simp
      let ?m1 = "put_object (m_nextObject m) r (m\<lparr>m_nextObject := Suc (m_nextObject m)\<rparr>)"
      have m1: "docs d (p_id (object ?m1 (m_nextObject m))) = Some r" "p_id r = p_id (object ?m1 (m_nextObject m))"
        "pid = p_id (object ?m1 (m_nextObject m))" using r Some by simp_all
      show ?thesis unfolding Some option.case if_not_P [OF False]
        by (intro do_bind do_new_object after_Inl after_Inr do_Ret do_dead_letter [OF ttl m1])
          (use ok False in \<open>auto simp: same_gateways_def intro!: dead [OF Some False]\<close>)
    qed
  qed
qed (use ok in simp_all)

end

subsection \<open>Attempts that run the saga\<close>

text \<open>What an attempt of payment \<open>r\<close> that ran the saga leaves: the payment stored under the same order, and one of
  the three outcomes.\<close>

definition attempt_ran :: "payment_record \<Rightarrow> exn + process_result \<Rightarrow> db \<Rightarrow> db \<Rightarrow> bool" where
  "attempt_ran r res d d' \<longleftrightarrow>
     (\<exists>r'. docs d' (p_id r) = Some r' \<and> evolves r r' \<and> locks d' (p_id r) = None \<and>
        (case res of
           Inr (Process_completed pid tid) \<Rightarrow> r_status r' = S_completed \<and> (\<exists>t ts. tid = Some t \<and> ledger d' = ledger d @ [settlement_of r t ts])
         | Inr (Process_dead_letter pid reason) \<Rightarrow> r_status r' = S_dead_letter \<and> r_failureReason r' = Some reason \<and> ledger d' = ledger d
         | Inl (Processing err) \<Rightarrow> r_status r' = S_processing \<and> pe_retryable err \<and> ledger d' = ledger d
         | _ \<Rightarrow> False))"

lemma attempt_of_new_payment:
  assumes "attempt_ends C pid t m d res m' d'" and r: "docs d pid = Some r" "p_id r = pid" and "locks d pid = None"
    and "\<And>rec e. leases d pid = Some (rec, e) \<Longrightarrow> i_state rec = Idem_PROCESSING"
  shows "attempt_ran r res d d'"
  using assms(1)
proof cases
  case (already_final r' now rec')
  then show ?thesis using assms(5) by (auto simp: lease_at_def split: if_splits option.splits)
next
  case (already_running r' now)
  then show ?thesis using assms(4) by (simp add: locked_at_def)
qed (use r in \<open>auto simp: attempt_ran_def\<close>)

definition completions :: "exn + process_result \<Rightarrow> nat" where
  "completions res = (case res of Inr (Process_completed pid tid) \<Rightarrow> 1 | _ \<Rightarrow> 0)"

lemma attempt_ran_settles: "attempt_ran r res d d' \<Longrightarrow> settlements d' (p_id r) = settlements d (p_id r) + completions res"
proof (cases res)
  case (Inl e)
  assume "attempt_ran r res d d'"
  with Inl show ?thesis by (cases e) (auto simp: attempt_ran_def completions_def settlements_def)
next
  case (Inr x)
  assume "attempt_ran r res d d'"
  with Inr show ?thesis by (cases x) (auto simp: attempt_ran_def completions_def settlements_def settlement_of_def)
qed

context redis_world
begin

text \<open>The part of an attempt after its checks, on a record that was read earlier.\<close>

lemma do_contend:
  assumes ok: "never_fails H clock ks" "queues_ok H"
    and ttl: "valid_ttl (leaseTtlSeconds (cfg_idempotency C))" "valid_ttl (retentionSeconds (cfg_idempotency C))"
    and pid: "pid = j_paymentId (jb_data job)" "pid = p_id (object m ref)" and free: "locks d pid = None"
  shows "does H clock ks t (bind (acquireExecutionLock C pid) (\<lambda>locked. if \<not> locked then Ret x
      else finally_do (locked_attempt C job ref started) (releaseExecutionLock pid))) m d
    (\<lambda>res m' d'. attempt_ran (object m ref) res d d')"
proof (intro do_bind do_acquire [OF ttl(1)] after_Inl after_Inr, goal_cases)
  case (3 rec now now')
  have t: "(\<not> True) = False" by simp
  show ?case unfolding t if_False
    by (intro do_finally do_locked_attempt [OF ok ttl(2) pid, where gid = "p_gatewayId (object m ref)"] do_unlock after_Inl after_Inr)
      (use ok pid in \<open>auto simp: attempt_ran_def\<close>)
qed (use ok free in \<open>auto simp: locked_at_def\<close>)

end

subsection \<open>Properties of the processor\<close>

text \<open>Concrete values for the instances below: a stored payment and its job.\<close>

definition sample_world :: world where
  "sample_world = start_world\<lparr>w_keys := [payment_key ''p1'' \<mapsto> (HashV [(''doc'', P_payment sample_record)], None)]\<rparr>"

definition sample_job :: job where
  "sample_job = \<lparr>jb_id = ''p1'', jb_data = \<lparr>j_paymentId = ''p1'', j_correlationId = None\<rparr>,
     jb_attemptsMade = 0, jb_attempts = Some 3\<rparr>"

lemma sample_typed: "typed (w_keys sample_world)"
  unfolding sample_world_def
  by (simp add: start_world_def, rule typed_updates(1)) (auto simp: jget_def sample_record_def createPaymentRecord_def)

lemma default_ttl: "valid_ttl (leaseTtlSeconds (cfg_idempotency default_config))" "valid_ttl (retentionSeconds (cfg_idempotency default_config))"
  by (simp_all add: default_config_def buildConfig_def Let_def valid_ttl_def)

text \<open>
  C3. One attempt of a job refines its specification: with a Redis connection on which
  no command fails and queues that accept jobs, an attempt always ends, in one of the six
  ways of \<open>attempt_ends\<close>. A completed payment was charged exactly once, has one new
  settlement of the order's amount, a COMPLETED record that stays for the retention time
  and no lock; a dead-lettered one has a FAILED record and no settlement; a retried one
  stays in processing under a lease; and a payment that is final or locked is skipped
  without a call to its gateway.
\<close>

theorem attempt_refines_spec:
  assumes "reliable_world H clock ks" and "queues_ok H" and "typed (ks w)"
    and "valid_ttl (leaseTtlSeconds (cfg_idempotency C))" "valid_ttl (retentionSeconds (cfg_idempotency C))"
  shows "\<exists>r m' w'. run H (processJob C job) m w = Some (r, m', w') \<and> typed (ks w') \<and>
    attempt_ends C (j_paymentId (jb_data job)) (clock w) m (db_of (ks w)) r m' (db_of (ks w'))"
proof -
  have rw: "redis_world H clock ks" using assms(1) by (rule reliable_world.axioms(1))
  have "holds clock ks (clock w) (db_of (ks w)) w" using assms(3) by (simp add: holds_def)
  from do_wp [OF redis_world.do_processJob [OF rw reliable_world.reliable [OF assms(1)] assms(2,4,5) refl] this, THEN wp_run]
  show ?thesis unfolding holds_def by blast
qed

theorem attempt_refines_spec_witness:
  "\<exists>r m' w'. run world_step (processJob default_config sample_job) empty_mem sample_world = Some (r, m', w') \<and>
     attempt_ends default_config ''p1'' 1000 empty_mem (db_of (w_keys sample_world)) r m' (db_of (w_keys w'))"
proof -
  have "j_paymentId (jb_data sample_job) = ''p1''" "w_clock sample_world = 1000"
    by (simp_all add: sample_job_def sample_world_def start_world_def)
  with attempt_refines_spec [OF calm.reliable_world_axioms world_queues_ok sample_typed default_ttl, of sample_job empty_mem]
  show ?thesis by metis
qed

text \<open>
  C14. In every world, one attempt of a job ends, sends at most one charge and at most one
  refund, both to one and the same gateway, and calls no other gateway: Redis and the
  queues may fail or answer anything at any point.
\<close>

theorem attempt_bills_once:
  assumes "js_world H clock"
  shows "\<exists>r m' w' gid. run H (processJob C job) m w = Some (r, m', w') \<and>
    charges m' gid \<le> charges m gid + 1 \<and> refunds m' gid \<le> refunds m gid + 1 \<and>
    (\<forall>x. x \<noteq> gid \<longrightarrow> charges m' x = charges m x \<and> refunds m' x = refunds m x)"
proof -
  from js_world.wp_processJob_bills [OF assms, THEN wp_run] obtain r m' w' gid
    where r: "run H (processJob C job) m w = Some (r, m', w')" and b: "bills gid 1 1 m m'" by blast
  have "charges m' x = charges m x \<and> refunds m' x = refunds m x" if "x \<noteq> gid" for x
    using b [unfolded bills_def, rule_format, of x] that by simp
  moreover have "charges m' gid \<le> charges m gid + 1" "refunds m' gid \<le> refunds m gid + 1"
    using b [unfolded bills_def, rule_format, of gid] by simp_all
  ultimately show ?thesis using r by blast
qed

theorem attempt_bills_once_witness:
  "\<exists>r m' w' gid. run faulty_step (processJob default_config sample_job) empty_mem sample_world = Some (r, m', w') \<and>
    charges m' gid \<le> charges empty_mem gid + 1"
  using attempt_bills_once [OF faulty.js_world_axioms, of default_config sample_job empty_mem sample_world] by blast






text \<open>
  A lock can leak: when Redis fails between taking the execution lock and writing the
  lease, the lock stays behind, and the retry of the job is skipped as if another worker
  held it. The job counts as done, and the payment stays queued without ever reaching its
  gateway.
\<close>

theorem leaked_lock_skips_payment:
  "case run faulty_step (attempts sample_config [sample_job, sample_job]) empty_mem
      (sample_world\<lparr>w_script := [(1, False), (1, False), (1, False), (1, True)]\<rparr>) of
     Some (r, m, w) \<Rightarrow> charges m ''stripe'' = 0 \<and> locked_at (db_of (w_keys w)) (w_clock w) ''p1'' \<and>
       map_option r_status (docs (db_of (w_keys w)) ''p1'') = Some S_queued
   | None \<Rightarrow> False"
  by code_simp

end
