(* ===== verification/Submission.thy ===== *)
theory Submission
  imports Payments_Api Payment_Processor
begin

text \<open>
  What a submission promises: the specification of \<open>submit\<close> over the abstract database of
  theory \<open>Database\<close>, the refinement of the code to it, and the jobs it puts into the queues.
\<close>

subsection \<open>Putting a job into a queue, in any world\<close>

definition runtimes_only :: "mem \<Rightarrow> mem \<Rightarrow> bool" where
  "runtimes_only m m' \<longleftrightarrow> m'\<lparr>m_runtimes := m_runtimes m\<rparr> = m \<and>
     (\<forall>x. jget (m_runtimes m) x \<noteq> None \<longrightarrow> jget (m_runtimes m') x \<noteq> None)"

interpretation runtimes: process_frame runtimes_only
proof unfold_locales
  fix s t u
  assume "runtimes_only s t" "runtimes_only t u"
  then show "runtimes_only s u" unfolding runtimes_only_def
    by (metis (no_types, lifting) mem.surjective mem.update_convs(5))
qed (simp add: runtimes_only_def)

lemma runtimes_only_sel:
  assumes "runtimes_only m m'"
  shows "m_buckets m' = m_buckets m" "m_breakers m' = m_breakers m" "m_mocks m' = m_mocks m" "m_emitted m' = m_emitted m"
proof -
  have e: "m'\<lparr>m_runtimes := m_runtimes m\<rparr> = m" using assms by (simp add: runtimes_only_def)
  show "m_buckets m' = m_buckets m" "m_breakers m' = m_breakers m" "m_mocks m' = m_mocks m" "m_emitted m' = m_emitted m"
    using arg_cong [OF e, of m_buckets] arg_cong [OF e, of m_breakers] arg_cong [OF e, of m_mocks] arg_cong [OF e, of m_emitted]
    by simp_all
qed

lemma runtimes_only_set [simp]: "runtimes_only m (set_workers gid ws m)"
  by (auto simp: runtimes_only_def set_workers_def jget_def jset_def update_conv' split: option.splits)

lemmas wp_ext_any = only_calls_wp [OF only_calls_wrapped(13)] only_calls_wp [OF only_calls_wrapped(14)]

lemma wp_grow_any:
  assumes "jget (m_runtimes m) gid \<noteq> None" and "nat \<lceil>t\<rceil> - length (workers_of m gid) < n"
  shows "wp H (grow_workers n gid q t) (\<lambda>r m' w'. runtimes_only m m') m w"
  using assms
proof (induction n arbitrary: m w)
  case (Suc n)
  let ?m1 = "\<lambda>x. set_workers gid (workers_of m gid @ [x]) m"
  obtain rt where rt: "jget (m_runtimes m) gid = Some rt" using Suc.prems(1) by blast
  have "wp H (grow_workers n gid q t) (\<lambda>r m' w'. runtimes_only m m') (?m1 x) w1"
    if "of_nat (length (workers_of m gid)) < t" for x w1
  proof (rule wp_mono [OF Suc.IH])
    have "length (workers_of m gid) < nat \<lceil>t\<rceil>"
      using that by (metis less_ceiling_iff of_int_of_nat_eq zless_nat_eq_int_zless)
    then show "nat \<lceil>t\<rceil> - length (workers_of (?m1 x) gid) < n" using Suc.prems rt by simp
  qed (use rt in \<open>auto intro: runtimes.frame_trans [OF runtimes_only_set]\<close>)
  then show ?case
    by (auto simp: newClient_def runtimes.frame_refl intro!: wp_if wp_ext_any split: sum.split)
qed simp

lemma wp_shrink_any:
  assumes "0 \<le> t" and "jget (m_runtimes m) gid \<noteq> None" and "length (workers_of m gid) < n"
  shows "wp H (shrink_workers n gid t) (\<lambda>r m' w'. runtimes_only m m') m w"
  using assms(2,3)
proof (induction n arbitrary: m w)
  case (Suc n)
  let ?m1 = "set_workers gid (butlast (workers_of m gid)) m"
  obtain rt where rt: "jget (m_runtimes m) gid = Some rt" using Suc.prems(1) by blast
  have "wp H (shrink_workers n gid t) (\<lambda>r m' w'. runtimes_only m m') ?m1 w1" if "workers_of m gid \<noteq> []" for w1
  proof (rule wp_mono [OF Suc.IH])
    have "length (butlast (workers_of m gid)) < length (workers_of m gid)" using that by (cases "workers_of m gid") simp_all
    then show "length (workers_of ?m1 gid) < n" using Suc.prems(2) rt by (simp only: workers_frame(1) [OF rt])
  qed (use rt in \<open>auto intro: runtimes.frame_trans [OF runtimes_only_set]\<close>)
  with assms(1) show ?case
    by (auto simp: runtimes.frame_refl case_prod_unfold Let_def intro!: wp_if wp_ext_any split: sum.split)
qed simp

lemma wp_scale_any:
  assumes "0 \<le> t" and rt: "jget (m_runtimes m) gid \<noteq> None"
  shows "wp H (scaleWorkers gid q t) (\<lambda>r m' w'. runtimes_only m m') m w"
  unfolding scaleWorkers_def wp_bind
proof (rule wp_mono [OF wp_grow_any [OF rt]])
  fix r m1 w1
  assume m1: "runtimes_only m m1"
  with rt have "jget (m_runtimes m1) gid \<noteq> None" by (auto simp: runtimes_only_def)
  from wp_shrink_any [OF assms(1) this, of "length (workers_of m1 gid) + 1"]
  have "wp H (shrink_workers (length (workers_of m1 gid) + 1) gid t) (\<lambda>r m' w'. runtimes_only m m') m1 w1"
    by (rule wp_mono) (auto intro: runtimes.frame_trans [OF m1])
  with m1 show "case r of Inl e \<Rightarrow> runtimes_only m m1
      | Inr a \<Rightarrow> wp H (Get (\<lambda>m. shrink_workers (length (workers_of m gid) + 1) gid t)) (\<lambda>r m' w'. runtimes_only m m') m1 w1"
    by (cases r) (simp_all only: wp_Get sum.case)
qed simp

lemma ensure_any:
  assumes "0 \<le> workerPoolSize (cfg_queue C)"
  shows "honours H runtimes_only (ensureGateway C gid)"
  unfolding honours_def
proof (intro allI)
  fix m w
  show "wp H (ensureGateway C gid) (\<lambda>r m' w'. runtimes_only m m') m w"
  proof (cases "jget (m_runtimes m) gid")
    case None
    let ?m1 = "\<lambda>rt. m\<lparr>m_runtimes := jset (m_runtimes m) gid rt\<rparr>"
    have new: "runtimes_only m (?m1 rt)" "jget (m_runtimes (?m1 rt)) gid \<noteq> None" for rt
      by (auto simp: runtimes_only_def jget_def jset_def update_conv')
    have "wp H (scaleWorkers gid q (workerPoolSize (cfg_queue C))) (\<lambda>r m' w'. runtimes_only m m') (?m1 rt) w1" for q rt w1
      by (rule wp_mono [OF wp_scale_any [OF assms new(2)]]) (rule runtimes.frame_trans [OF new(1)])
    then have scaled: "wp H (bind (scaleWorkers gid q (workerPoolSize (cfg_queue C))) (\<lambda>_. Ret q)) (\<lambda>r m' w'. runtimes_only m m') (?m1 rt) w1" for q rt w1
      unfolding wp_bind by (rule wp_mono) (simp split: sum.split)
    show ?thesis unfolding ensureGateway_def wp_Get None option.case Let_def newClient_def
      by (rule wp_calls_bind [OF _ runtimes.frame_refl], rule only_calls_wrapped,
          rule wp_calls_bind [OF _ runtimes.frame_refl], rule only_calls_wrapped)
        (simp only: wp_bind wp_modify sum.case scaled [unfolded wp_bind])
  qed (simp add: ensureGateway_def runtimes.frame_refl)
qed

lemma enqueue_any: "0 \<le> workerPoolSize (cfg_queue C) \<Longrightarrow> honours H runtimes_only (enqueue C inp)"
  unfolding enqueue_def by (intro runtimes.honours_bind ensure_any runtimes.honours_only_calls only_calls_wrapped)

text \<open>The calls that provisioning makes.\<close>

lemma calls_in_ext: "P c \<Longrightarrow> calls_in P (ext_unit c)" "P c \<Longrightarrow> calls_in P (ext_handle c)"
  by (auto simp: ext_unit_def ext_handle_def calls_in_memory split: reply.split)

lemma calls_in_ensure:
  assumes "P Client_new" "\<And>q c. P (Worker_new q c)" "\<And>h. P (Worker_close h)" "\<And>c. P (Client_disconnect c)" "\<And>q c. P (Queue_new q c)"
  shows "calls_in P (ensureGateway C gid)"
proof -
  have "calls_in P (grow_workers n gid q t)" "calls_in P (shrink_workers n gid t)" for n q t
    by (induction n) (auto simp: newClient_def Let_def case_prod_unfold
        intro!: calls_in.intros calls_in_bind calls_in_ext calls_in_memory assms)
  then have "calls_in P (scaleWorkers gid q t)" for q t
    unfolding scaleWorkers_def by (intro calls_in_bind calls_in.ci_get)
  then show ?thesis
    unfolding ensureGateway_def newClient_def Let_def
    by (auto intro!: calls_in.intros calls_in_bind calls_in_ext calls_in_memory assms split: option.split)
qed

lemma no_redis_enqueue: "no_redis (enqueue C inp)"
  unfolding enqueue_def by (intro calls_in_bind calls_in_ensure calls_in_ext) simp_all

subsection \<open>The specification of a submission\<close>

text \<open>
  A payment id is free at a time when no lease for it is live then, or when the live lease is
  one of a submission that crashed: it is PROCESSING and no payment was stored.
\<close>

definition free_at :: "db \<Rightarrow> timestamp \<Rightarrow> string \<Rightarrow> bool" where
  "free_at d now pid \<longleftrightarrow>
     (case lease_at d now pid of None \<Rightarrow> True | Some rec \<Rightarrow> i_state rec = Idem_PROCESSING \<and> docs d pid = None)"

text \<open>The payment is stored, announced and audited; neither ledger, locks nor gateways are touched.\<close>

definition enrolled :: "payment_record \<Rightarrow> mem \<Rightarrow> db \<Rightarrow> mem \<Rightarrow> db \<Rightarrow> bool" where
  "enrolled r m d m' d' \<longleftrightarrow>
     docs d' = (docs d)(p_id r \<mapsto> r) \<and> ledger d' = ledger d \<and> locks d' = locks d \<and> same_gateways m m' \<and>
     (\<exists>e. audits d' = (audits d)(p_id r := audits d (p_id r) @ [e]) \<and> a_type e = A_payment_submitted) \<and>
     (\<exists>now. m_emitted m' = m_emitted m @ [Ev_payment \<lparr>le_type = T_payment_queued, le_paymentId = p_id r,
        le_gatewayId = Some (p_gatewayId r), le_correlationId = r_correlationId r, le_status = Some S_queued, le_at = now, le_detail = None\<rparr>])"

inductive submit_ends :: "app_config \<Rightarrow> bool \<Rightarrow> create_payment_input \<Rightarrow> string option \<Rightarrow> timestamp \<Rightarrow> mem \<Rightarrow> db \<Rightarrow>
    exn + submit_result \<Rightarrow> mem \<Rightarrow> db \<Rightarrow> bool"
  for C queues inp cid t m d where
  created: "t \<le> now \<Longrightarrow> free_at d now (cp_id inp) \<Longrightarrow> t \<le> now' \<Longrightarrow>
     enrolled (createPaymentRecord (create_input_of inp cid) ts) m d m' d' \<Longrightarrow>
     leases d' = (leases d)(cp_id inp \<mapsto> (rec, deadline now' (leaseTtlSeconds (cfg_idempotency C)))) \<Longrightarrow> i_state rec = Idem_PROCESSING \<Longrightarrow>
     submit_ends C queues inp cid t m d (Inr (Submit_created (createPaymentRecord (create_input_of inp cid) ts))) m' d'"
| not_queued: "\<not> queues \<Longrightarrow> t \<le> now \<Longrightarrow> free_at d now (cp_id inp) \<Longrightarrow>
     enrolled (createPaymentRecord (create_input_of inp cid) ts) m d m' d' \<Longrightarrow> leases d' = (leases d)(cp_id inp := None) \<Longrightarrow>
     submit_ends C queues inp cid t m d (Inl (BadRequest (''payment could not be queued: '' @ msg))) m' d'"
| in_progress: "docs d (cp_id inp) = Some r \<Longrightarrow> t \<le> now \<Longrightarrow> lease_at d now (cp_id inp) = Some rec \<Longrightarrow>
     submit_ends C queues inp cid t m d (Inl (Conflict ''payment is already being processed'' (cp_id inp) (status_text (r_status r)))) m d"
| replayed: "docs d (cp_id inp) = Some r \<Longrightarrow> t \<le> now \<Longrightarrow> lease_at d now (cp_id inp) = Some rec \<Longrightarrow> i_state rec \<noteq> Idem_PROCESSING \<Longrightarrow>
     submit_ends C queues inp cid t m d (Inr (Submit_replayed r)) m d"
| record_missing: "docs d (cp_id inp) = None \<Longrightarrow> t \<le> now \<Longrightarrow> lease_at d now (cp_id inp) = Some rec \<Longrightarrow> i_state rec \<noteq> Idem_PROCESSING \<Longrightarrow>
     submit_ends C queues inp cid t m d
       (Inl (NotFound ''payment already finalized but its record is missing (data inconsistency)'' (cp_id inp))) m d"

inductive_cases submit_endsE: "submit_ends C queues inp cid t m d res m' d'"

context redis_world
begin

lemma do_enqueue:
  assumes "0 \<le> workerPoolSize (cfg_queue C)"
    and "\<And>m'. runtimes_only m m' \<Longrightarrow> R (Inr ()) m' d"
    and "\<And>e m'. \<not> queues_ok H \<Longrightarrow> runtimes_only m m' \<Longrightarrow> R (Inl e) m' d"
  shows "does H clock ks t (enqueue C inp) m d R"
proof (rule do_no_redis [OF no_redis_enqueue])
  fix w
  have frame: "wp H (enqueue C inp) (\<lambda>r m' w'. runtimes_only m m') m w"
    by (rule enqueue_any [OF assms(1), unfolded honours_def, rule_format])
  have "wp H (enqueue C inp) (\<lambda>r m' w'. r = Inr ()) m w" if ok: "queues_ok H"
    unfolding enqueue_def wp_bind
    by (rule wp_mono [OF wp_ensure [OF ok assms(1)]]) (auto simp: wp_ext_unit_ok [OF ok])
  with frame have "wp H (enqueue C inp) (\<lambda>r m' w'. runtimes_only m m' \<and> (r = Inr () \<or> \<not> queues_ok H)) m w"
    using wp_conj [OF frame] by (cases "queues_ok H") (auto elim: wp_mono)
  then show "wp H (enqueue C inp) (\<lambda>r m' w'. R r m' d) m w"
    by (rule wp_mono) (metis assms(2,3) old.unit.exhaust sumE)
qed

lemma do_claim:
  assumes ttl: "valid_ttl (leaseTtlSeconds (cfg_idempotency C))" and rel: "never_fails H clock ks"
    and "\<And>now rec. t \<le> now \<Longrightarrow> lease_at d now pid = None \<Longrightarrow> i_state rec = Idem_PROCESSING \<Longrightarrow>
       R (Inr Claim_new) m (d\<lparr>leases := (leases d)(pid \<mapsto> (rec, deadline now (leaseTtlSeconds (cfg_idempotency C))))\<rparr>)"
    and "\<And>now x now2 y. t \<le> now \<Longrightarrow> lease_at d now pid = Some x \<Longrightarrow> t \<le> now2 \<Longrightarrow>
       lease_at d now2 pid = None \<or> lease_at d now2 pid = Some y \<and> i_state y = Idem_PROCESSING \<Longrightarrow> R (Inr (Claim_conflict y)) m d"
    and "\<And>now x. t \<le> now \<Longrightarrow> lease_at d now pid = Some x \<Longrightarrow> i_state x \<noteq> Idem_PROCESSING \<Longrightarrow> R (Inr (Claim_replayed x)) m d"
  shows "does H clock ks t (claim C pid) m d R"
  unfolding claim_def Let_def
proof (intro do_bind do_date after_Inr do_idem_nx ttl after_Inl, goal_cases)
  case (2 now1 now x)
  show ?case unfolding if_False
    by (intro do_rules) (use assms(4,5) 2 rel in \<open>auto split: option.split\<close>)
qed (use assms(3) rel in \<open>auto intro: do_Ret simp: processing_record_def\<close>)


lemma do_claim_with_recovery:
  assumes ttl: "valid_ttl (leaseTtlSeconds (cfg_idempotency C))" and rel: "never_fails H clock ks"
    and new: "\<And>now now' rec. t \<le> now \<Longrightarrow> free_at d now pid \<Longrightarrow> t \<le> now' \<Longrightarrow> i_state rec = Idem_PROCESSING \<Longrightarrow>
       R (Inr Claim_new) m (d\<lparr>leases := (leases d)(pid \<mapsto> (rec, deadline now' (leaseTtlSeconds (cfg_idempotency C))))\<rparr>)"
    and conflict: "\<And>now x y r. t \<le> now \<Longrightarrow> lease_at d now pid = Some x \<Longrightarrow> docs d pid = Some r \<Longrightarrow> R (Inr (Claim_conflict y)) m d"
    and final: "\<And>now x. t \<le> now \<Longrightarrow> lease_at d now pid = Some x \<Longrightarrow> i_state x \<noteq> Idem_PROCESSING \<Longrightarrow> R (Inr (Claim_replayed x)) m d"
  shows "does H clock ks t (claim_with_recovery C pid) m d R"
  unfolding claim_with_recovery_def
proof (intro do_bind do_claim [OF ttl rel] after_Inr, goal_cases)
  case (1 now rec)
  then have "free_at d now pid" by (simp add: free_at_def)
  with 1 new show ?case by (auto intro: do_Ret)
next
  case (2 now x now2 y)
  have again: "does H clock ks t (claim C pid) m (d\<lparr>leases := (leases d)(pid := None)\<rparr>) R" if none: "docs d pid = None"
  proof -
    have "free_at d now2 pid" using 2(4) none by (auto simp: free_at_def)
    with new 2(3) have "R (Inr Claim_new) m (d\<lparr>leases := (leases d)(pid \<mapsto> (rec, deadline now' (leaseTtlSeconds (cfg_idempotency C))))\<rparr>)"
      if "t \<le> now'" "i_state rec = Idem_PROCESSING" for now' rec using that by blast
    then show ?thesis by (intro do_claim [OF ttl rel]) (auto simp: lease_at_def)
  qed
  show ?case unfolding claim_result.case
    by (intro do_bind do_store_get after_Inr after_Inl)
      (use rel conflict 2 again in \<open>auto intro!: do_bind do_idem_release do_Ret after_Inr split: option.split\<close>)
qed (use final in \<open>auto intro: do_Ret\<close>)

lemma do_submit_delay: "(\<And>n. R (Inr n) m d) \<Longrightarrow> does H clock ks t (submit_delay inp) m d R"
  unfolding submit_delay_def by (cases "cp_scheduledAt inp") (auto intro!: do_bind do_date do_Ret after_Inr)

lemma do_submit_enqueue:
  assumes rel: "never_fails H clock ks" and pool: "0 \<le> workerPoolSize (cfg_queue C)"
    and ok: "\<And>m'. runtimes_only m m' \<Longrightarrow> R (Inr ()) m' d"
    and failed: "\<And>m' msg. \<not> queues_ok H \<Longrightarrow> runtimes_only m m' \<Longrightarrow>
       R (Inl (BadRequest (''payment could not be queued: '' @ msg))) m' (d\<lparr>leases := (leases d)(p_id r := None)\<rparr>)"
  shows "does H clock ks t (submit_enqueue C r n) m d R"
  unfolding submit_enqueue_def
proof (intro do_catch do_span do_enqueue [OF pool] caught_Inr caught_Inl ok, assumption)
  fix e m'
  assume "\<not> queues_ok H" "runtimes_only m m'"
  then show "does H clock ks t (bind (idem_release (p_id r)) (\<lambda>_. Throw (BadRequest (''payment could not be queued: '' @ exn_message e)))) m' d R"
    by (intro do_bind do_idem_release after_Inr after_Inl do_Throw failed) (use rel in auto)
qed

lemma do_submit_new:
  assumes rel: "never_fails H clock ks" and pool: "0 \<le> workerPoolSize (cfg_queue C)"
    and ok: "\<And>ts m' d'. enrolled (createPaymentRecord (create_input_of inp cid) ts) m d m' d' \<Longrightarrow> leases d' = leases d \<Longrightarrow>
       R (Inr (Submit_created (createPaymentRecord (create_input_of inp cid) ts))) m' d'"
    and failed: "\<And>ts m' d' msg. \<not> queues_ok H \<Longrightarrow> enrolled (createPaymentRecord (create_input_of inp cid) ts) m d m' d' \<Longrightarrow>
       leases d' = (leases d)(cp_id inp := None) \<Longrightarrow> R (Inl (BadRequest (''payment could not be queued: '' @ msg))) m' d'"
  shows "does H clock ks t (submit_new C inp cid) m d R"
proof -
  let ?r = "createPaymentRecord (create_input_of inp cid)"
  have pid: "p_id (?r ts) = cp_id inp" for ts by (simp add: createPaymentRecord_def create_input_of_def)
  have en: "enrolled (?r ts) m d m' d'"
    if "runtimes_only (m\<lparr>m_emitted := m_emitted m @ [Ev_payment \<lparr>le_type = T_payment_queued, le_paymentId = cp_id inp,
        le_gatewayId = Some (p_gatewayId (?r ts)), le_correlationId = r_correlationId (?r ts), le_status = Some S_queued, le_at = now, le_detail = None\<rparr>]\<rparr>) m'"
      and "docs d' = (docs d)(cp_id inp \<mapsto> ?r ts)" "ledger d' = ledger d" "locks d' = locks d"
      "audits d' = (audits d)(cp_id inp := audits d (cp_id inp) @ [\<lparr>a_paymentId = cp_id inp, a_type = A_payment_submitted, a_at = at0, a_detail = None\<rparr>])"
    for ts m' d' at0 now
    using runtimes_only_sel [OF that(1)] that(2-) by (auto simp: enrolled_def same_gateways_def pid)
  show ?thesis unfolding submit_new_def Let_def
    by (intro do_bind do_date after_Inr after_Inl do_audit do_save do_emit do_submit_delay do_submit_enqueue [OF rel pool] do_Ret ok failed en)
      (use rel in \<open>auto simp: pid\<close>)
qed

lemma do_submit:
  assumes ttl: "valid_ttl (leaseTtlSeconds (cfg_idempotency C))" and rel: "never_fails H clock ks"
    and pool: "0 \<le> workerPoolSize (cfg_queue C)"
    and cid: "cid = (case cp_correlationId inp of Some c \<Rightarrow> Some c | None \<Rightarrow> current)"
  shows "does H clock ks t (submit C current inp) m d (submit_ends C (queues_ok H) inp cid t m d)"
  unfolding submit_def Let_def
proof (intro do_bind do_claim_with_recovery [OF ttl rel] after_Inr, goal_cases)
  case (1 now now' rec)
  have lease: "leases d' = (leases d)(cp_id inp := x)" "enrolled r m d m' d'"
    if "enrolled r m (d\<lparr>leases := (leases d)(cp_id inp \<mapsto> l)\<rparr>) m' d'"
      "leases d' = (leases (d\<lparr>leases := (leases d)(cp_id inp \<mapsto> l)\<rparr>))(cp_id inp := x)" for r m' d' l x
    using that by (auto simp: enrolled_def)
  have kept: "leases d' = (leases (d\<lparr>leases := (leases d)(cp_id inp \<mapsto> l)\<rparr>))(cp_id inp \<mapsto> l)"
    if "leases d' = leases (d\<lparr>leases := (leases d)(cp_id inp \<mapsto> l)\<rparr>)" for d' l using that by simp
  show ?case unfolding claim_result.case cid [symmetric]
  proof (rule do_submit_new [OF rel pool])
    fix ts m' d'
    let ?l = "(rec, deadline now' (leaseTtlSeconds (cfg_idempotency C)))"
    assume "enrolled (createPaymentRecord (create_input_of inp cid) ts) m (d\<lparr>leases := (leases d)(cp_id inp \<mapsto> ?l)\<rparr>) m' d'"
      and "leases d' = leases (d\<lparr>leases := (leases d)(cp_id inp \<mapsto> ?l)\<rparr>)"
    from lease [OF this(1) kept [OF this(2)]] 1
    show "submit_ends C (queues_ok H) inp cid t m d (Inr (Submit_created (createPaymentRecord (create_input_of inp cid) ts))) m' d'"
      by (blast intro: submit_ends.created)
  next
    fix ts m' d' msg
    let ?l = "(rec, deadline now' (leaseTtlSeconds (cfg_idempotency C)))"
    assume "\<not> queues_ok H" "enrolled (createPaymentRecord (create_input_of inp cid) ts) m (d\<lparr>leases := (leases d)(cp_id inp \<mapsto> ?l)\<rparr>) m' d'"
      "leases d' = (leases (d\<lparr>leases := (leases d)(cp_id inp \<mapsto> ?l)\<rparr>))(cp_id inp := None)"
    with lease [OF this(2,3)] 1
    show "submit_ends C (queues_ok H) inp cid t m d (Inl (BadRequest (''payment could not be queued: '' @ msg))) m' d'"
      by (blast intro: submit_ends.not_queued)
  qed
next
  case (2 now x y r)
  then show ?case unfolding claim_result.case
    by (intro do_bind do_store_get after_Inr after_Inl) (use rel in \<open>auto intro!: do_Throw intro: submit_ends.in_progress\<close>)
next
  case (3 now x)
  then show ?case unfolding claim_result.case
    by (intro do_bind do_store_get after_Inr after_Inl)
      (use rel in \<open>auto intro!: do_Throw do_Ret split: option.split intro: submit_ends.replayed submit_ends.record_missing\<close>)
qed

end


subsection \<open>The jobs of a submission\<close>

text \<open>A log of the jobs handed to the queues: only \<open>Queue.add\<close> extends it.\<close>

fun is_add :: "cmd \<Rightarrow> bool" where
  "is_add (Queue_add q n p opts) = True"
| "is_add c = False"

abbreviation no_add :: "'a async \<Rightarrow> bool" where
  "no_add \<equiv> calls_in (\<lambda>c. \<not> is_add c)"

lemmas no_add_bind = calls_in_bind [where P = "\<lambda>c. \<not> is_add c"]

lemma no_add_steps:
  "no_add (modify g)" "no_add (emit ev)" "no_add date_now" "no_add (redis_set_ex k p ttl)" "no_add (redis_set_ex_nx k p ttl)"
  "no_add (redis_get k)" "no_add (redis_del k)" "no_add (redis_hset k f p)" "no_add (redis_hget k f)" "no_add (redis_rpush k p)"
  "\<not> is_add c \<Longrightarrow> no_add (ext_unit c)" "\<not> is_add c \<Longrightarrow> no_add (ext_handle c)"
  by (auto simp: call_defs modify_def emit_def unexpected_def intro!: calls_in.intros split: reply.split)

lemma no_add_ensure: "no_add (ensureGateway C gid)"
  by (rule calls_in_ensure) simp_all

lemma submit_asks:
  "only_calls (claim_with_recovery C pid)" "only_calls (store_get pid)" "only_calls (store_save r)" "only_calls (idem_release pid)"
  "only_calls (audit_record pid ty detail None)" "only_calls (submit_delay inp)"
  "no_add (claim_with_recovery C pid)" "no_add (store_get pid)" "no_add (store_save r)" "no_add (idem_release pid)"
  "no_add (audit_record pid ty detail None)" "no_add (submit_delay inp)"
  unfolding claim_with_recovery_def claim_def idem_get_def store_get_def store_save_def idem_release_def audit_record_def submit_delay_def Let_def
  by (auto intro!: only_calls_bind only_calls.intros no_add_bind no_add_steps calls_in.intros split: claim_result.split option.split)

locale job_log =
  fixes H :: "cmd \<Rightarrow> 'w \<Rightarrow> reply \<times> 'w" and jobs :: "'w \<Rightarrow> (string \<times> string \<times> job_payload \<times> job_opts) list"
  assumes added: "jobs (snd (H (Queue_add q n p opts) w)) = jobs w @ [(q, n, p, opts)]"
    and kept: "\<not> is_add c \<Longrightarrow> jobs (snd (H c w)) = jobs w"
begin

lemma no_add_jobs: "no_add p \<Longrightarrow> run H p m w = Some (r, m', w') \<Longrightarrow> jobs w' = jobs w"
proof (induction arbitrary: m w rule: calls_in.induct)
  case (ci_call c k)
  then show ?case using kept [OF ci_call.hyps(1), of w] by (auto split: prod.splits)
qed auto

lemma wp_no_add:
  assumes "no_add p" and "wp H p Q m w"
  shows "wp H p (\<lambda>r m' w'. Q r m' w' \<and> jobs w' = jobs w) m w"
  using assms no_add_jobs [OF assms(1)] by (auto simp: wp_def split: option.splits)

lemma wp_asks_bind:
  assumes "only_calls p" and "no_add p" and "\<And>e w'. jobs w' = jobs w \<Longrightarrow> Q (Inl e) m w'"
    and "\<And>a w'. jobs w' = jobs w \<Longrightarrow> wp H (q a) Q m w'"
  shows "wp H (bind p q) Q m w"
  unfolding wp_bind
  by (rule wp_mono [OF wp_no_add [OF assms(2) only_calls_wp [OF assms(1), of "\<lambda>r m' w'. m' = m"]]])
    (use assms(3,4) in \<open>auto split: sum.split\<close>)

lemma wp_span_jobs:
  assumes "\<And>w0. jobs w0 = jobs w \<Longrightarrow> wp H fn (\<lambda>r m' w1. \<forall>w2. jobs w2 = jobs w1 \<longrightarrow> Q r m' w2) m w0"
  shows "wp H (withSpan n as fn) Q m w"
proof -
  obtain h w0 where h: "H (Span_start (SPAN_NAMES n) (cleanAttributes as)) w = (h, w0)" by fastforce
  then have "jobs w0 = jobs w" using kept [of "Span_start (SPAN_NAMES n) (cleanAttributes as)" w] by (simp add:)
  moreover have "jobs (snd (H (Span_end i) (snd (H c w1)))) = jobs w1" if "\<not> is_add c" for w1 i c
    using kept [OF that] kept [of "Span_end i"] by (simp add:)
  ultimately show ?thesis
    unfolding withSpan_def wp_bind wp_span_start h prod.case sum.case wp_finally wp_catch wp_span_call
    by (intro wp_mono [OF assms]) (auto simp: split: sum.splits)
qed

end

interpretation calm_jobs: job_log world_step w_jobs
proof unfold_locales
  show "\<not> is_add c \<Longrightarrow> w_jobs (snd (world_step c w)) = w_jobs w" for c w
    by (cases c) (auto simp: redis_step_def tick_def split: prod.splits)
qed simp


definition queued_as :: "create_payment_input \<Rightarrow> job_opts \<Rightarrow> bool" where
  "queued_as inp opts \<longleftrightarrow>
     jo_jobId opts = cp_id inp \<and> jo_attempts opts = nullish (cp_maxRetries inp) DEFAULT_MAX_RETRIES + 1 \<and>
     jo_priority opts = Some (PRIORITY_TO_NUMERIC (nullish (cp_priority inp) Normal)) \<and> 0 \<le> jo_delay opts \<and>
     (cp_scheduledAt inp = None \<and> 0 \<le> nullish (cp_delayMs inp) 0 \<longrightarrow> jo_delay opts = nullish (cp_delayMs inp) 0)"

lemma js_round_int [simp]: "js_round (of_int n) = n"
  unfolding js_round_def by (rule floor_unique) simp_all

context job_log
begin

lemma wp_submit_enqueue_jobs:
  assumes ok: "queues_ok H" and pool: "0 \<le> workerPoolSize (cfg_queue C)"
    and "\<And>rt m' w'. jget (m_runtimes m') (p_gatewayId r) = Some rt \<Longrightarrow>
      jobs w' = jobs w @ [(rt_queueName rt, QUEUE_JOB_NAME, Job_payment \<lparr>j_paymentId = p_id r, j_correlationId = r_correlationId r\<rparr>,
        job_options C \<lparr>ei_gatewayId = p_gatewayId r, ei_paymentId = p_id r, ei_correlationId = r_correlationId r,
             ei_priority = p_priority r, ei_maxRetries = p_maxRetries r, ei_delayMs = Some (of_int n), ei_jobId = p_id r\<rparr>)] \<Longrightarrow>
      Q (Inr ()) m' w'"
  shows "wp H (submit_enqueue C r n) Q m w"
  unfolding submit_enqueue_def wp_catch
proof (rule wp_span_jobs, unfold enqueue_def wp_bind, goal_cases)
  case (1 w0)
  show ?case
    by (rule wp_mono [OF wp_no_add [OF no_add_ensure wp_ensure [OF ok pool]]])
      (use 1 assms(3) in \<open>auto simp: wp_ext_unit_ok [OF ok] added\<close>)
qed

lemma wp_submit_new_jobs:
  assumes ok: "queues_ok H" and pool: "0 \<le> workerPoolSize (cfg_queue C)"
    and failed: "\<And>e m' w'. jobs w' = jobs w \<Longrightarrow> Q (Inl e) m' w'"
    and created: "\<And>rec rt opts m' w'. jget (m_runtimes m') (cp_gatewayId inp) = Some rt \<Longrightarrow> queued_as inp opts \<Longrightarrow>
       jobs w' = jobs w @ [(rt_queueName rt, QUEUE_JOB_NAME, Job_payment \<lparr>j_paymentId = cp_id inp, j_correlationId = cid\<rparr>, opts)] \<Longrightarrow>
       Q (Inr (Submit_created rec)) m' w'"
  shows "wp H (submit_new C inp cid) Q m w"
proof -
  let ?r = "createPaymentRecord (create_input_of inp cid)"
  have r: "p_id (?r ts) = cp_id inp" "p_gatewayId (?r ts) = cp_gatewayId inp" "r_correlationId (?r ts) = cid"
    "p_priority (?r ts) = nullish (cp_priority inp) Normal" "p_maxRetries (?r ts) = nullish (cp_maxRetries inp) DEFAULT_MAX_RETRIES" for ts
    by (simp_all add: createPaymentRecord_def create_input_of_def)
  have last: "wp H (bind (submit_enqueue C (?r ts) n) (\<lambda>_. Ret (Submit_created (?r ts)))) Q m1 w1"
    if "jobs w1 = jobs w" "cp_scheduledAt inp = None \<longrightarrow> n = nullish (cp_delayMs inp) 0" for ts n m1 w1
    unfolding wp_bind
    by (rule wp_submit_enqueue_jobs [OF ok pool])
      (use that in \<open>auto simp: r queued_as_def job_options_def intro!: created\<close>)
  have delayed: "wp H (bind (submit_delay inp) (\<lambda>n. bind (submit_enqueue C (?r ts) n) (\<lambda>_. Ret (Submit_created (?r ts))))) Q m1 w1"
    if "jobs w1 = jobs w" for ts m1 w1
  proof (cases "cp_scheduledAt inp")
    case None
    then show ?thesis using last [OF that] by (simp add: submit_delay_def del: wp_bind)
  qed (rule wp_asks_bind [OF submit_asks(6,12)], use that last failed in simp_all)
  note ask = wp_asks_bind [OF only_calls_wrapped(1) no_add_steps(3)] wp_asks_bind [OF submit_asks(5,11)] wp_asks_bind [OF submit_asks(3,9)]
  show ?thesis unfolding submit_new_def Let_def
    by (rule ask, simp add: failed, rule ask, simp add: failed, rule ask, simp add: failed, rule ask, simp add: failed,
        subst wp_bind, subst wp_emit, unfold sum.case, rule delayed, simp)
qed

lemma wp_submit_jobs:
  assumes ok: "queues_ok H" and pool: "0 \<le> workerPoolSize (cfg_queue C)"
    and cid: "cid = (case cp_correlationId inp of Some c \<Rightarrow> Some c | None \<Rightarrow> current)"
  shows "wp H (submit C current inp) (\<lambda>r m' w'. case r of
     Inr (Submit_created rec) \<Rightarrow> \<exists>rt opts. jget (m_runtimes m') (cp_gatewayId inp) = Some rt \<and> queued_as inp opts \<and>
       jobs w' = jobs w @ [(rt_queueName rt, QUEUE_JOB_NAME, Job_payment \<lparr>j_paymentId = cp_id inp, j_correlationId = cid\<rparr>, opts)]
   | _ \<Rightarrow> jobs w' = jobs w) m w"
  unfolding submit_def Let_def cid [symmetric]
proof (rule wp_asks_bind [OF submit_asks(1,7)], simp, goal_cases)
  case (1 a w1)
  show ?case
    by (cases a; simp del: wp_bind; (rule wp_submit_new_jobs [OF ok pool] | rule wp_asks_bind [OF submit_asks(2,8)]);
        auto simp: 1 split: option.split)
qed

end


subsection \<open>Properties of submissions\<close>

definition sample_input :: create_payment_input where
  "sample_input = \<lparr>cp_id = ''p7'', cp_amount = 2500, cp_currency = ''EUR'', cp_customerId = ''c1'', cp_gatewayId = ''stripe'',
     cp_priority = Some High, cp_maxRetries = Some 3, cp_metadata = None, cp_scheduledAt = None, cp_delayMs = Some 250,
     cp_correlationId = None\<rparr>"

text \<open>C6. With a Redis connection on which no command fails and a configured pool size that is not negative, a submission
  always ends, in one of the five ways of \<open>submit_ends\<close>: a new payment is stored as queued, audited, announced once and
  leased; a payment that cannot be queued gives its lease back; a payment that is in progress is refused with its
  status; a final one is returned as stored; and a final one without a record is reported. The last three change
  nothing, only the first two need a free id, and no submission ever touches the ledger, a lock or a gateway.\<close>

theorem submit_refines_spec:
  assumes "reliable_world H clock ks" and "typed (ks w)"
    and "valid_ttl (leaseTtlSeconds (cfg_idempotency C))" and "0 \<le> workerPoolSize (cfg_queue C)"
    and "cid = (case cp_correlationId inp of Some c \<Rightarrow> Some c | None \<Rightarrow> current)"
  shows "\<exists>r m' w'. run H (submit C current inp) m w = Some (r, m', w') \<and> typed (ks w') \<and>
    submit_ends C (queues_ok H) inp cid (clock w) m (db_of (ks w)) r m' (db_of (ks w'))"
proof -
  have rw: "redis_world H clock ks" using assms(1) by (rule reliable_world.axioms(1))
  have "holds clock ks (clock w) (db_of (ks w)) w" using assms(2) by (simp add: holds_def)
  from do_wp [OF redis_world.do_submit [OF rw assms(3) reliable_world.reliable [OF assms(1)] assms(4,5)] this, THEN wp_run]
  show ?thesis unfolding holds_def by blast
qed

theorem submit_refines_spec_witness:
  "\<exists>r m' w'. run world_step (submit default_config None sample_input) empty_mem start_world = Some (r, m', w') \<and>
     submit_ends default_config True sample_input None 1000 empty_mem (db_of Map.empty) r m' (db_of (w_keys w'))"
proof -
  have "typed (w_keys start_world)" "w_clock start_world = 1000" "w_keys start_world = Map.empty"
    by (simp_all add: start_world_def)
  then show ?thesis
    using submit_refines_spec [OF calm.reliable_world_axioms, where w = start_world and C = default_config and inp = sample_input and current = None and cid = None and m = empty_mem]
      default_ttl default_pool world_queues_ok by (auto simp: sample_input_def)
qed



end
