(* ===== verification/Interleaving.thy ===== *)
theory Interleaving
  imports Submission
begin

text \<open>
  Several \<open>async\<close> functions at work at the same time, in one process or in several that share
  Redis. A function runs without interruption from one outside call to the next; at a call any other
  function may continue. A schedule says which function makes the next call, so every order in which
  Node resumes them is a schedule (calls that return at once, like reading the clock, are treated
  as points of interruption too).
\<close>

subsection \<open>Schedules\<close>

text \<open>The code up to the next call, or to the end.\<close>

primrec advance :: "'a async \<Rightarrow> mem \<Rightarrow> 'a async \<times> mem" where
  "advance (Ret a) = (\<lambda>m. (Ret a, m))"
| "advance (Throw e) = (\<lambda>m. (Throw e, m))"
| "advance Diverge = (\<lambda>m. (Diverge, m))"
| "advance (Get k) = (\<lambda>m. advance (k m) m)"
| "advance (Modify f p) = (\<lambda>m. advance p (f m))"
| "advance (Call c k) = (\<lambda>m. (Call c k, m))"

definition fiber_step :: "(cmd \<Rightarrow> 'w \<Rightarrow> reply \<times> 'w) \<Rightarrow> 'a async \<Rightarrow> mem \<Rightarrow> 'w \<Rightarrow> 'a async \<times> mem \<times> 'w" where
  "fiber_step H p m w =
     (case advance p m of
        (Call c k, m') \<Rightarrow> (case H c w of (r, w') \<Rightarrow> (k r, m', w'))
      | (p', m') \<Rightarrow> (p', m', w))"

text \<open>A fiber is a function with the number of its process; processes have separate memories.\<close>

type_synonym ('a, 'w) system = "(nat \<times> 'a async) list \<times> (nat \<Rightarrow> mem) \<times> 'w"

definition system_step :: "(cmd \<Rightarrow> 'w \<Rightarrow> reply \<times> 'w) \<Rightarrow> nat \<Rightarrow> ('a, 'w) system \<Rightarrow> ('a, 'w) system" where
  "system_step H i st =
     (case st of (fs, ms, w) \<Rightarrow>
        if i < length fs
        then (case fs ! i of (pr, p) \<Rightarrow> case fiber_step H p (ms pr) w of (p', m', w') \<Rightarrow> (fs[i := (pr, p')], ms(pr := m'), w'))
        else st)"

definition interleave :: "(cmd \<Rightarrow> 'w \<Rightarrow> reply \<times> 'w) \<Rightarrow> nat list \<Rightarrow> ('a, 'w) system \<Rightarrow> ('a, 'w) system" where
  "interleave H sched st = fold (system_step H) sched st"

definition done_with :: "exn + 'a \<Rightarrow> 'a async" where
  "done_with r = (case r of Inl e \<Rightarrow> Throw e | Inr a \<Rightarrow> Ret a)"

lemma interleave_append: "interleave H (s1 @ s2) st = interleave H s2 (interleave H s1 st)"
  by (simp add: interleave_def)

lemma interleave_Nil [simp]: "interleave H [] st = st"
  by (simp add: interleave_def)

lemma interleave_Cons [simp]: "interleave H (i # s) st = interleave H s (system_step H i st)"
  by (simp add: interleave_def)

text \<open>A fiber that is scheduled alone behaves like \<open>run\<close>.\<close>

lemma fiber_alone:
  assumes "run H p (ms pr) w = Some (r, m', w')" and "i < length fs" and "fs ! i = (pr, p)"
  shows "\<exists>n. interleave H (replicate (Suc n) i) (fs, ms, w) = (fs[i := (pr, done_with r)], ms(pr := m'), w')"
  using assms
proof (induction p arbitrary: fs ms w)
  case (Ret a)
  then have "system_step H i (fs, ms, w) = (fs[i := (pr, done_with r)], ms(pr := m'), w')"
    by (auto simp: system_step_def fiber_step_def done_with_def)
  then show ?case by (intro exI [of _ 0]) (simp only: replicate.simps interleave_Cons interleave_Nil)
next
  case (Throw e)
  then have "system_step H i (fs, ms, w) = (fs[i := (pr, done_with r)], ms(pr := m'), w')"
    by (auto simp: system_step_def fiber_step_def done_with_def)
  then show ?case by (intro exI [of _ 0]) (simp only: replicate.simps interleave_Cons interleave_Nil)
next
  case (Get k)
  from Get.IH [of "k (ms pr)" ms w "fs[i := (pr, k (ms pr))]"] Get.prems obtain n
    where n: "interleave H (replicate (Suc n) i) (fs[i := (pr, k (ms pr))], ms, w) = (fs[i := (pr, done_with r)], ms(pr := m'), w')"
    by (auto simp: fun_upd_def cong: if_cong)
  have "system_step H i (fs, ms, w) = system_step H i (fs[i := (pr, k (ms pr))], ms, w)"
    using Get.prems by (simp add: system_step_def fiber_step_def split: prod.splits)
  with n show ?case by (auto simp: fun_upd_def cong: if_cong)
next
  case (Modify g p)
  from Modify.IH [of "ms(pr := g (ms pr))" w "fs[i := (pr, p)]"] Modify.prems obtain n
    where n: "interleave H (replicate (Suc n) i) (fs[i := (pr, p)], ms(pr := g (ms pr)), w) = (fs[i := (pr, done_with r)], ms(pr := m'), w')"
    by (auto simp: fun_upd_def cong: if_cong)
  have "system_step H i (fs, ms, w) = system_step H i (fs[i := (pr, p)], ms(pr := g (ms pr)), w)"
    using Modify.prems by (simp add: system_step_def fiber_step_def split: prod.splits)
  with n show ?case by (auto simp: fun_upd_def cong: if_cong)
next
  case (Call c k)
  obtain rep w1 where c: "H c w = (rep, w1)" by fastforce
  from Call.IH [of "k rep" ms w1 "fs[i := (pr, k rep)]"] Call.prems c obtain n
    where "interleave H (replicate (Suc n) i) (fs[i := (pr, k rep)], ms, w1) = (fs[i := (pr, done_with r)], ms(pr := m'), w')"
    by (auto simp: fun_upd_def cong: if_cong)
  then have "interleave H (replicate (Suc (Suc n)) i) (fs, ms, w) = (fs[i := (pr, done_with r)], ms(pr := m'), w')"
    using Call.prems c by (simp add: system_step_def fiber_step_def)
  then show ?case by blast
qed simp

subsection \<open>The execution lock\<close>

fun cmd_key :: "cmd \<Rightarrow> string option" where
  "cmd_key (Redis_set_ex k p ttl) = Some k"
| "cmd_key (Redis_set_ex_nx k p ttl) = Some k"
| "cmd_key (Redis_get k) = Some k"
| "cmd_key (Redis_del k) = Some k"
| "cmd_key (Redis_pttl k) = Some k"
| "cmd_key (Redis_hset k f p) = Some k"
| "cmd_key (Redis_hget k f) = Some k"
| "cmd_key (Redis_rpush k p) = Some k"
| "cmd_key (Redis_lrange k) = Some k"
| "cmd_key c = None"

abbreviation spares :: "string \<Rightarrow> 'a async \<Rightarrow> bool" where
  "spares k \<equiv> calls_in (\<lambda>c. cmd_key c \<noteq> Some k)"

text \<open>A function that may still release the lock \<open>k\<close> without taking it first: it is between the two.\<close>

inductive holding :: "string \<Rightarrow> 'a async \<Rightarrow> bool" for k where
  hold_get: "holding k (f s) \<Longrightarrow> holding k (Get f)"
| hold_modify: "holding k p \<Longrightarrow> holding k (Modify g p)"
| hold_release: "holding k (Call (Redis_del k) f)"
| hold_other: "cmd_key c \<noteq> Some k \<Longrightarrow> holding k (f r) \<Longrightarrow> holding k (Call c f)"
| hold_refused: "r \<noteq> R_ok \<Longrightarrow> holding k (f r) \<Longrightarrow> holding k (Call (Redis_set_ex_nx k v ttl) f)"

inductive_simps holding_simps [simp]:
  "holding k (Ret a)" "holding k (Throw e)" "holding k Diverge" "holding k (Get f)" "holding k (Modify g p)"
  "holding k (Call c f)"

text \<open>A function that only takes the lock with \<open>SET NX EX\<close> and time \<open>ttl\<close>, and only releases what it took.\<close>

inductive disciplined :: "string \<Rightarrow> rat \<Rightarrow> 'a async \<Rightarrow> bool" for k ttl where
  disc_ret: "disciplined k ttl (Ret a)"
| disc_throw: "disciplined k ttl (Throw e)"
| disc_diverge: "disciplined k ttl Diverge"
| disc_get: "(\<And>s. disciplined k ttl (f s)) \<Longrightarrow> disciplined k ttl (Get f)"
| disc_modify: "disciplined k ttl p \<Longrightarrow> disciplined k ttl (Modify g p)"
| disc_other: "cmd_key c \<noteq> Some k \<Longrightarrow> (\<And>r. disciplined k ttl (f r)) \<Longrightarrow> disciplined k ttl (Call c f)"
| disc_take: "(\<And>r. disciplined k ttl (f r)) \<Longrightarrow> (\<And>r. r \<noteq> R_ok \<Longrightarrow> \<not> holding k (f r)) \<Longrightarrow>
     disciplined k ttl (Call (Redis_set_ex_nx k v ttl) f)"
| disc_release: "(\<And>r. disciplined k ttl (f r)) \<Longrightarrow> (\<And>r. \<not> holding k (f r)) \<Longrightarrow> disciplined k ttl (Call (Redis_del k) f)"

inductive_simps disciplined_simps [simp]:
  "disciplined k ttl (Ret a)" "disciplined k ttl (Throw e)" "disciplined k ttl Diverge" "disciplined k ttl (Get f)"
  "disciplined k ttl (Modify g p)"

lemma spares_not_holding: "spares k p \<Longrightarrow> (\<And>a. \<not> holding k (f a)) \<Longrightarrow> \<not> holding k (bind p f)"
  by (induction rule: calls_in.induct) auto

lemma spares_disciplined: "spares k p \<Longrightarrow> (\<And>a. disciplined k ttl (f a)) \<Longrightarrow> disciplined k ttl (bind p f)"
  by (induction rule: calls_in.induct) (auto intro: disciplined.intros)

lemma redis_sem_other: "cmd_key c \<noteq> Some k \<Longrightarrow> snd (redis_sem c t ks) k = ks k"
  by (cases c) (auto split: option.splits redis_value.splits)

lemma not_redis_key: "\<not> is_redis c \<Longrightarrow> cmd_key c = None"
  by (cases c) simp_all

lemma advance_disciplined: "disciplined k ttl p \<Longrightarrow> advance p m = (p', m') \<Longrightarrow> disciplined k ttl p'"
  by (induction p arbitrary: m) auto

lemma advance_holding: "advance p m = (p', m') \<Longrightarrow> holding k p' \<Longrightarrow> holding k p"
  by (induction p arbitrary: m) (auto, blast)

lemma spares_no_redis: "no_redis p \<Longrightarrow> spares k p"
  by (erule calls_in_mono) (simp add: not_redis_key)

lemma spares_withSpan: "spares k p \<Longrightarrow> spares k (withSpan n as p)"
  unfolding withSpan_def span_start_def span_call_def
  by (intro calls_in_bind calls_in_finally calls_in_catch) simp_all

lemma spares_wrapped:
  "spares k date_now"
  "k' \<noteq> k \<Longrightarrow> spares k (redis_set_ex k' p ttl)" "k' \<noteq> k \<Longrightarrow> spares k (redis_get k')"
  "k' \<noteq> k \<Longrightarrow> spares k (redis_hset k' f p)" "k' \<noteq> k \<Longrightarrow> spares k (redis_hget k' f)" "k' \<noteq> k \<Longrightarrow> spares k (redis_rpush k' p)"
  "k' \<noteq> k \<Longrightarrow> spares k (redis_set_ex_nx k' p ttl)" "k' \<noteq> k \<Longrightarrow> spares k (redis_del k')"
  by (auto simp: call_defs calls_in_memory split: reply.split)

lemmas spares_steps = calls_in_bind calls_in_catch calls_in_finally calls_in_memory spares_withSpan spares_wrapped

lemma spares_records:
  "spares (lock_key pid) (store_get q)" "spares (lock_key pid) (store_save r)" "spares (lock_key pid) (save_object ref)"
  "spares (lock_key pid) (audit_record q ty detail None)" "spares (lock_key pid) (ledger_settle x tid)"
  "spares (lock_key pid) (idem_get q)" "spares (lock_key pid) (finalize C q inp)"
  unfolding store_get_def store_save_def save_object_def audit_record_def ledger_settle_def idem_get_def finalize_def
  by (auto intro!: spares_steps)

lemma spares_compensation:
  "spares (lock_key pid) (history ref ph ev detail)" "spares (lock_key pid) (emit_phase ref ph ok)"
  "spares (lock_key pid) (releaseFunds ref rid)" "spares (lock_key pid) (refundCharge ref tid)"
  "spares (lock_key pid) p \<Longrightarrow> spares (lock_key pid) (withCompensation ref phase p)"
  unfolding history_def emit_phase_def releaseFunds_def refundCharge_def withCompensation_def record_refund_def
  by (auto intro!: spares_steps spares_records spares_no_redis [OF no_redis_guard(2)] split: refund_outcome.split)

lemma spares_saga_steps:
  "spares (lock_key pid) (saga_reserve ref)" "spares (lock_key pid) (saga_charge C ref)"
  "spares (lock_key pid) (charge_failed ref rid err)" "spares (lock_key pid) (charge_done ref rid tid st)"
  "spares (lock_key pid) (settle_failed ref rid tid e)" "spares (lock_key pid) (saga_settle ref tid)"
  "spares (lock_key pid) (settle_done ref tid)"
  unfolding saga_reserve_def saga_charge_def charge_failed_def charge_done_def settle_failed_def settle_aborted_def
    saga_settle_def settle_done_def Let_def
  by (auto intro!: spares_steps spares_records spares_compensation spares_no_redis [OF no_redis_guard(1)])

lemma spares_execute: "spares (lock_key pid) (execute C ref)"
  unfolding execute_def saga_step3_def
  by (auto intro!: spares_steps spares_saga_steps split: call_outcome.split)

lemma spares_emits:
  "spares k (emit_lifecycle ty pid gid cid st now detail)" "spares k (emit_job_completed pid gid ok started)"
  "spares k (announce_dead_letter pid gid reason cid)"
  unfolding emit_lifecycle_def emit_job_completed_def announce_dead_letter_def Let_def
  by (auto intro!: spares_steps spares_no_redis [OF no_redis_route])

lemma spares_dead_letter: "spares (lock_key pid) (finalizeDeadLetter C ref reason cid)"
  unfolding finalizeDeadLetter_def Let_def
  by (auto intro!: spares_steps spares_records spares_emits split: option.split)

lemma spares_attempt: "spares (lock_key pid) (locked_attempt C job ref started)"
  unfolding locked_attempt_def attempt_saga_def attempt_failed_def Let_def
  by (auto intro!: spares_steps spares_records spares_emits spares_execute spares_dead_letter)

lemma redis_call_bind:
  "bind (redis_set_ex_nx k v ttl) f = Call (Redis_set_ex_nx k v ttl) (\<lambda>r. bind (case r of R_ok \<Rightarrow> Ret True | R_nil \<Rightarrow> Ret False | _ \<Rightarrow> unexpected r) f)"
  "bind (redis_del k) g = Call (Redis_del k) (\<lambda>r. bind (case r of R_int n \<Rightarrow> Ret () | _ \<Rightarrow> unexpected r) g)"
  by (simp_all add: redis_set_ex_nx_def redis_del_def)

lemma disciplined_release:
  assumes "spares (lock_key pid) p"
  shows "disciplined (lock_key pid) ttl (finally_do p (releaseExecutionLock pid))"
  unfolding finally_do_def releaseExecutionLock_def redis_call_bind
  by (intro spares_disciplined calls_in_attempt assms disc_release)
    (auto simp: unexpected_def rethrow_def split: reply.split sum.split)

lemma disciplined_section:
  assumes "spares (lock_key pid) p"
  shows "disciplined (lock_key pid) (leaseTtlSeconds (cfg_idempotency C))
    (bind (acquireExecutionLock C pid) (\<lambda>locked. if \<not> locked then Ret x else finally_do p (releaseExecutionLock pid)))"
  unfolding acquireExecutionLock_def Let_def redis_call_bind bind.simps bind_assoc
  by (rule disc_take)
    (auto simp: unexpected_def split: reply.split intro!: spares_disciplined disciplined_release [OF assms] spares_steps spares_records)

text \<open>Every attempt of a job is disciplined, for the lock of its own payment and for the locks of others.\<close>

lemma spares_other:
  assumes "pid \<noteq> j_paymentId (jb_data job)"
  shows "spares (lock_key pid) (processJob C job)"
  unfolding processJob_def acquireExecutionLock_def releaseExecutionLock_def Let_def
  using assms by (auto intro!: spares_steps spares_records spares_attempt split: option.split)

lemma disciplined_processJob: "disciplined (lock_key pid) (leaseTtlSeconds (cfg_idempotency C)) (processJob C job)"
proof (cases "pid = j_paymentId (jb_data job)")
  case True
  show ?thesis unfolding processJob_def Let_def True [symmetric]
    by (auto intro!: spares_disciplined spares_steps spares_records disciplined_section [OF spares_attempt] split: option.split)
next
  case False
  from spares_disciplined [OF spares_other [OF this], where f = Ret] show ?thesis by simp
qed

lemma not_holding_section:
  "\<not> holding (lock_key pid) (bind (acquireExecutionLock C pid) (\<lambda>locked. if \<not> locked then Ret x else q))"
  unfolding acquireExecutionLock_def Let_def redis_call_bind bind.simps bind_assoc
  by (auto simp: unexpected_def split: reply.splits)

lemma not_holding_processJob: "\<not> holding (lock_key pid) (processJob C job)"
proof (cases "pid = j_paymentId (jb_data job)")
  case True
  have "\<not> holding (lock_key pid) (if b then Ret x else bind (acquireExecutionLock C pid) (\<lambda>locked. if \<not> locked then Ret y else q))" for b x y q
    by (simp add: not_holding_section)
  then show ?thesis unfolding processJob_def Let_def True [symmetric]
    by (intro spares_not_holding spares_wrapped spares_records)
      (simp split: option.split, intro allI impI spares_not_holding spares_steps spares_records)
next
  case False
  from spares_not_holding [OF spares_other [OF this], where f = Ret] show ?thesis by simp
qed

definition one_holder :: "string \<Rightarrow> rat \<Rightarrow> ('w \<Rightarrow> timestamp) \<Rightarrow> ('w \<Rightarrow> keyspace) \<Rightarrow> timestamp \<Rightarrow> ('a, 'w) system \<Rightarrow> bool" where
  "one_holder k ttl clock ks t0 st =
     (case st of (fs, ms, w) \<Rightarrow>
        t0 \<le> clock w \<and> (\<forall>i < length fs. disciplined k ttl (snd (fs ! i))) \<and>
        (\<forall>i < length fs. holding k (snd (fs ! i)) \<longrightarrow>
           (\<forall>j < length fs. holding k (snd (fs ! j)) \<longrightarrow> j = i) \<and> (\<exists>v e. ks w k = Some (v, Some e) \<and> deadline t0 ttl \<le> e)))"

context redis_world
begin

lemma call_keys:
  "cmd_key c \<noteq> Some k \<Longrightarrow> ks (snd (H c w)) k = ks w k"
  using frame [of c w] command [of c w] redis_sem_other [of c k "clock (snd (H c w))" "ks w"] by (cases "is_redis c") (auto dest: arg_cong [where f = snd])

text \<open>One step of a disciplined function: the lock stays as it is and is not gained, or is released by its holder, or is taken
  while it is free.\<close>

lemma fiber_lock:
  assumes "disciplined k ttl p" and "fiber_step H p m w = (p', m', w')"
  shows "disciplined k ttl p' \<and> clock w \<le> clock w' \<and>
    (ks w' k = ks w k \<and> (holding k p' \<longrightarrow> holding k p) \<or> holding k p \<and> \<not> holding k p' \<or>
     live (clock w') (ks w) k = None \<and> (\<exists>v. ks w' k = Some (v, Some (deadline (clock w') ttl))))"
proof -
  obtain q m1 where q: "advance p m = (q, m1)" by fastforce
  have d: "disciplined k ttl q" and h: "holding k q \<Longrightarrow> holding k p"
    using advance_disciplined [OF assms(1) q] advance_holding [OF q] by auto
  show ?thesis
  proof (cases q)
    case (Call c f)
    obtain r w1 where c: "H c w = (r, w1)" by fastforce
    then have s: "p' = f r" "w' = w1" using assms(2) q Call by (simp_all add: fiber_step_def)
    have mono: "clock w \<le> clock w1" using clock_mono [of w c] c by simp
    from d [unfolded Call] show ?thesis
    proof cases
      case disc_other
      then show ?thesis using call_keys [OF disc_other(1), of w] h Call c s mono by auto
    next
      case (disc_take v)
      from command [of c w] consider "r = R_ok" "live (clock w1) (ks w) k = None" "ks w1 k = Some (StrV v, Some (deadline (clock w1) ttl))"
        | "r \<noteq> R_ok" "ks w1 = ks w"
        by (auto simp: disc_take(1) c [unfolded disc_take(1)] split: if_splits)
      then show ?thesis using disc_take s mono by cases auto
    next
      case disc_release
      then show ?thesis using h Call s mono by auto
    qed
  qed (use assms(2) q d h in \<open>simp_all add: fiber_step_def\<close>)
qed

lemma one_holder_step:
  assumes inv: "one_holder k ttl clock ks t0 st" and step: "system_step H i st = (fs', ms', w')" and t: "clock w' < deadline t0 ttl"
  shows "one_holder k ttl clock ks t0 (fs', ms', w')"
proof -
  obtain fs ms w where st: "st = (fs, ms, w)" by (cases st)
  show ?thesis
  proof (cases "i < length fs")
    case True
    obtain pr p where p: "fs ! i = (pr, p)" by fastforce
    obtain p' m' where f: "fiber_step H p (ms pr) w = (p', m', w')" and fs': "fs' = fs[i := (pr, p')]"
      using step True p by (auto simp: st system_step_def split: prod.splits)
    from inv True p have i: "t0 \<le> clock w" "disciplined k ttl p" by (auto simp: st one_holder_def)
    note outcome = fiber_lock [OF i(2) f]
    have old: "snd (fs' ! j) = (if j = i then p' else snd (fs ! j))" if "j < length fs" for j
      using that True by (simp add: fs' nth_list_update)
    have disc: "\<forall>j < length fs. disciplined k ttl (snd (fs' ! j))"
      using inv outcome by (auto simp: st one_holder_def old)
    from outcome consider (same) "ks w' k = ks w k" "holding k p' \<longrightarrow> holding k p" | (release) "holding k p" "\<not> holding k p'"
      | (take) v where "live (clock w') (ks w) k = None" "ks w' k = Some (v, Some (deadline (clock w') ttl))" by blast
    then have "\<forall>j < length fs. holding k (snd (fs' ! j)) \<longrightarrow> (\<forall>l < length fs. holding k (snd (fs' ! l)) \<longrightarrow> l = j) \<and>
        (\<exists>v e. ks w' k = Some (v, Some e) \<and> deadline t0 ttl \<le> e)"
    proof cases
      case same
      then have "holding k (snd (fs' ! j)) \<Longrightarrow> holding k (snd (fs ! j))" if "j < length fs" for j
        using that p by (auto simp: old split: if_splits)
      with inv same show ?thesis by (simp add: st one_holder_def)
    next
      case release
      then have "\<not> holding k (snd (fs' ! j))" if "j < length fs" for j
        using inv True p that by (auto simp: st one_holder_def old)
      then show ?thesis by simp
    next
      case take
      have "\<not> holding k (snd (fs ! j))" if "j < length fs" for j
        using inv that t take(1) by (force simp: st one_holder_def live_def)
      moreover have "deadline t0 ttl \<le> deadline (clock w') ttl" using i outcome by (simp add: deadline_def)
      ultimately show ?thesis using take(2) by (auto simp: old)
    qed
    moreover have "t0 \<le> clock w'" "length fs' = length fs" using i outcome by (simp_all add: fs')
    ultimately show ?thesis using disc unfolding one_holder_def prod.case by simp
  qed (use inv step in \<open>simp add: st system_step_def\<close>)
qed

lemma system_clock: "system_step H i st = st' \<Longrightarrow> clock (snd (snd st)) \<le> clock (snd (snd st'))"
proof (cases st)
  case (fields fs ms w)
  assume "system_step H i st = st'"
  moreover have "clock w \<le> clock w'" if "fiber_step H p m w = (p', m', w')" for p m p' m' w'
  proof -
    obtain q m1 where "advance p m = (q, m1)" by fastforce
    with that clock_mono [of w] show ?thesis by (cases q) (auto simp: fiber_step_def split: prod.splits, metis snd_conv)
  qed
  ultimately show ?thesis by (auto simp: fields system_step_def split: prod.splits if_splits)
qed

lemma one_holder_interleave:
  assumes "one_holder k ttl clock ks t0 st" and "interleave H sched st = (fs', ms', w')" and "clock w' < deadline t0 ttl"
  shows "one_holder k ttl clock ks t0 (fs', ms', w')"
  using assms(2,3)
proof (induction sched arbitrary: fs' ms' w' rule: rev_induct)
  case (snoc i sched)
  obtain fs1 ms1 w1 where s: "interleave H sched st = (fs1, ms1, w1)" by (metis prod_cases3)
  then have step: "system_step H i (fs1, ms1, w1) = (fs', ms', w')" using snoc.prems(1) by (simp add: interleave_append)
  from system_clock [OF this] snoc.prems(2) have "clock w1 < deadline t0 ttl" by simp
  from one_holder_step [OF snoc.IH [OF s this] step snoc.prems(2)] show ?case .
qed (use assms(1) in simp)

end

text \<open>Attempts of jobs, each in the process with the given number.\<close>

definition workers :: "app_config \<Rightarrow> (nat \<times> job) list \<Rightarrow> (nat \<times> process_result async) list" where
  "workers C js = map (\<lambda>(pr, job). (pr, processJob C job)) js"

text \<open>A function that took the lock holds it until it releases it.\<close>

lemma run_holding: "spares k p \<Longrightarrow> run H p m w = Some (Inr a, m', w') \<Longrightarrow> holding k (f a) \<Longrightarrow> holding k (bind p f)"
  by (induction arbitrary: m w rule: calls_in.induct) (auto split: prod.splits, blast+)

lemma holding_section:
  assumes "wp H p Q m w" and "spares (lock_key pid) p"
  shows "holding (lock_key pid) (finally_do p (releaseExecutionLock pid))"
proof -
  have "wp H (attempt p) (\<lambda>r m' w'. \<exists>a. r = Inr a) m w" unfolding wp_attempt by (rule wp_mono [OF assms(1)]) simp
  then obtain a m' w' where "run H (attempt p) m w = Some (Inr a, m', w')" using wp_run by fastforce
  then show ?thesis unfolding finally_do_def
    by (rule run_holding [OF calls_in_attempt [OF assms(2)]]) (simp add: releaseExecutionLock_def redis_call_bind)
qed

subsection \<open>The phases of an attempt\<close>

text \<open>An attempt by its phases: it reads the record, then the idempotency record, then contends for the lock.\<close>

definition contend :: "app_config \<Rightarrow> job \<Rightarrow> nat \<Rightarrow> timestamp \<Rightarrow> process_result async" where
  "contend C job ref startedAt =
     bind (acquireExecutionLock C (j_paymentId (jb_data job))) (\<lambda>locked.
       if \<not> locked then Ret (Process_skipped (j_paymentId (jb_data job)) ''concurrent execution lock held by another worker'')
       else finally_do (locked_attempt C job ref startedAt) (releaseExecutionLock (j_paymentId (jb_data job))))"

definition check_final :: "app_config \<Rightarrow> job \<Rightarrow> timestamp \<Rightarrow> payment_record \<Rightarrow> process_result async" where
  "check_final C job startedAt r =
     bind (new_object r) (\<lambda>ref. bind (idem_get (j_paymentId (jb_data job))) (\<lambda>idem.
       if map_option i_state idem \<in> {Some Idem_COMPLETED, Some Idem_FAILED}
       then Ret (Process_skipped (j_paymentId (jb_data job)) (''already finalized as '' @ status_text (r_status r)))
       else contend C job ref startedAt))"

lemma processJob_phases:
  "\<exists>e. processJob C job = bind date_now (\<lambda>t. bind (store_get (j_paymentId (jb_data job))) (\<lambda>stored.
     case stored of None \<Rightarrow> Throw e | Some r \<Rightarrow> check_final C job t r))"
  unfolding processJob_def Let_def check_final_def contend_def by blast

context reliable_world
begin

lemma answer:
  assumes "is_redis c"
  shows "\<exists>w'. H c w = (fst (redis_sem c (clock w') (ks w)), w') \<and> ks w' = snd (redis_sem c (clock w') (ks w)) \<and> clock w \<le> clock w'"
  using no_failure [OF assms, of w] clock_mono [of w c] by (metis fst_conv prod.collapse snd_conv)

lemma check_phase:
  assumes i: "i < length fs" "fs ! i = (pr, processJob C job)" and ty: "typed (ks w)"
    and doc: "docs (db_of (ks w)) (j_paymentId (jb_data job)) = Some r"
    and live: "\<And>rec e. leases (db_of (ks w)) (j_paymentId (jb_data job)) = Some (rec, e) \<Longrightarrow> i_state rec = Idem_PROCESSING"
  shows "\<exists>w'. interleave H [i, i, i] (fs, ms, w) =
      (fs[i := (pr, contend C job (m_nextObject (ms pr)) (clock w))],
       ms(pr := put_object (m_nextObject (ms pr)) r ((ms pr)\<lparr>m_nextObject := Suc (m_nextObject (ms pr))\<rparr>)), w') \<and>
     w' = snd (H (Redis_get (idem_key (j_paymentId (jb_data job)))) (snd (H (Redis_hget (payment_key (j_paymentId (jb_data job))) ''doc'') w))) \<and>
     ks w' = ks w \<and> clock w \<le> clock w'"
proof -
  let ?pid = "j_paymentId (jb_data job)"
  let ?m = "put_object (m_nextObject (ms pr)) r ((ms pr)\<lparr>m_nextObject := Suc (m_nextObject (ms pr))\<rparr>)"
  obtain w1 where a1: "H (Redis_hget (payment_key ?pid) ''doc'') w = (fst (redis_sem (Redis_hget (payment_key ?pid) ''doc'') (clock w1) (ks w)), w1)"
    "ks w1 = snd (redis_sem (Redis_hget (payment_key ?pid) ''doc'') (clock w1) (ks w))" "clock w \<le> clock w1"
    using answer [of "Redis_hget (payment_key ?pid) ''doc''" w] by auto
  have "Some r = parse_payment (Some q) \<longleftrightarrow> q = P_payment r" for q by (cases q) (auto simp: parse_payment_def)
  with hget_sem [OF ty, of ?pid "clock w1"] doc
  have "redis_sem (Redis_hget (payment_key ?pid) ''doc'') (clock w1) (ks w) = (R_payload (P_payment r), ks w)"
    by (auto simp del: redis_sem.simps)
  with a1 have w1: "H (Redis_hget (payment_key ?pid) ''doc'') w = (R_payload (P_payment r), w1)" "ks w1 = ks w" "clock w \<le> clock w1"
    by (simp_all del: redis_sem.simps)
  obtain w2 where a2: "H (Redis_get (idem_key ?pid)) w1 = (fst (redis_sem (Redis_get (idem_key ?pid)) (clock w2) (ks w)), w2)"
    "ks w2 = snd (redis_sem (Redis_get (idem_key ?pid)) (clock w2) (ks w))" "clock w1 \<le> clock w2"
    using answer [of "Redis_get (idem_key ?pid)" w1] w1(2) by auto
  define rep where "rep = (case lease_at (db_of (ks w)) (clock w2) ?pid of None \<Rightarrow> R_nil | Some rec \<Rightarrow> R_payload (P_idem rec))"
  have w2: "H (Redis_get (idem_key ?pid)) w1 = (rep, w2)" "ks w2 = ks w" "clock w1 \<le> clock w2"
    using a2 unfolding get_idem_sem [OF ty] rep_def by simp_all
  have rep: "rep = R_nil \<or> (\<exists>rec e. rep = R_payload (P_idem rec) \<and> leases (db_of (ks w)) ?pid = Some (rec, e))"
    by (auto simp: rep_def lease_at_def split: option.split)
  obtain e where job: "processJob C job = bind date_now (\<lambda>t. bind (store_get ?pid) (\<lambda>stored. case stored of None \<Rightarrow> Throw e | Some r \<Rightarrow> check_final C job t r))"
    using processJob_phases by blast
  have s1: "system_step H i (fs, ms, w) = (fs[i := (pr, bind (store_get ?pid) (\<lambda>stored. case stored of None \<Rightarrow> Throw e | Some r \<Rightarrow> check_final C job (clock w) r))], ms, w)"
    using i by (simp add: system_step_def fiber_step_def clock_reading job date_now_def)
  have s2: "system_step H i (fs[i := (pr, bind (store_get ?pid) k)], ms, w) = (fs[i := (pr, bind (Ret (Some r)) k)], ms, w1)" for k
    using i by (simp add: system_step_def fiber_step_def w1(1) store_get_def redis_hget_def parse_payment_def)
  have s3: "system_step H i (fs[i := (pr, check_final C job t r)], ms, w1) = (fs[i := (pr, contend C job (m_nextObject (ms pr)) t)], ms(pr := ?m), w2)" for t
    using i rep live by (auto simp: check_final_def system_step_def fiber_step_def w2(1) idem_get_def redis_get_def new_object_def sync_step_def parse_idem_def)
  show ?thesis using w1 w2 by (simp add: s1 s2 s3)
qed

lemma acquire_phase:
  assumes i: "i < length fs" "fs ! i = (pr, contend C job ref t)" and ty: "typed (ks w)" and ttl: "valid_ttl (leaseTtlSeconds (cfg_idempotency C))"
    and free: "locks (db_of (ks w)) (j_paymentId (jb_data job)) = None"
  shows "\<exists>w1 w2 w3 rec. interleave H [i, i, i, i] (fs, ms, w) =
      (fs[i := (pr, finally_do (locked_attempt C job ref t) (releaseExecutionLock (j_paymentId (jb_data job))))], ms, w3) \<and>
     w1 = snd (H (Redis_set_ex_nx (lock_key (j_paymentId (jb_data job))) (P_text ''1'') (leaseTtlSeconds (cfg_idempotency C))) w) \<and>
     w2 = snd (H (Redis_get (idem_key (j_paymentId (jb_data job)))) w1) \<and>
     w3 = snd (H (Redis_set_ex (idem_key (j_paymentId (jb_data job))) (P_idem rec) (leaseTtlSeconds (cfg_idempotency C))) w2) \<and>
     typed (ks w3) \<and> locks (db_of (ks w3)) (j_paymentId (jb_data job)) = Some (deadline (clock w1) (leaseTtlSeconds (cfg_idempotency C)))"
proof -
  let ?pid = "j_paymentId (jb_data job)" and ?ttl = "leaseTtlSeconds (cfg_idempotency C)"
  let ?go = "finally_do (locked_attempt C job ref t) (releaseExecutionLock ?pid)"
  obtain w1 where a1: "H (Redis_set_ex_nx (lock_key ?pid) (P_text ''1'') ?ttl) w = (R_ok, w1)"
    "ks w1 = (ks w)(lock_key ?pid \<mapsto> (StrV (P_text ''1''), Some (deadline (clock w1) ?ttl)))"
    using answer [of "Redis_set_ex_nx (lock_key ?pid) (P_text ''1'') ?ttl" w] ttl free by (auto simp: lock_live [OF ty] locked_at_def)
  have ty1: "typed (ks w1)" unfolding a1(2) by (rule typed_updates(5) [OF ty])
  obtain w2 rep where a2: "H (Redis_get (idem_key ?pid)) w1 = (rep, w2)" "ks w2 = ks w1" and rep: "rep = R_nil \<or> (\<exists>rec. rep = R_payload (P_idem rec))"
    using answer [of "Redis_get (idem_key ?pid)" w1] unfolding get_idem_sem [OF ty1] by (auto split: option.splits)
  define rec where "rec = processing_record ?pid (Option.bind (parse_idem (case rep of R_payload p \<Rightarrow> Some p | _ \<Rightarrow> None)) i_claimedAt) (clock w2)"
  obtain w3 where a3: "H (Redis_set_ex (idem_key ?pid) (P_idem rec) ?ttl) w2 = (R_ok, w3)"
    "ks w3 = (ks w1)(idem_key ?pid \<mapsto> (StrV (P_idem rec), Some (deadline (clock w3) ?ttl)))"
    using answer [of "Redis_set_ex (idem_key ?pid) (P_idem rec) ?ttl" w2] ttl a2(2) by auto
  have ty3: "typed (ks w3)" unfolding a3(2) by (rule typed_updates(4) [OF ty1])
  have "locks (db_of (ks w3)) ?pid = Some (deadline (clock w1) ?ttl)" by (simp add: a3(2) db_of_idem a1(2) db_of_lock)
  moreover have "interleave H [i, i, i, i] (fs, ms, w) = (fs[i := (pr, ?go)], ms, w3)"
    using i rep a1(1) a2(1) a3(1) [unfolded rec_def]
    by (auto simp: contend_def acquireExecutionLock_def Let_def system_step_def fiber_step_def redis_set_ex_nx_def idem_get_def
        redis_get_def date_now_def clock_reading redis_set_ex_def)
  ultimately show ?thesis using a1(1) a2(1) a3(1) ty3 by (metis snd_conv)
qed

lemma refused_phase:
  assumes i: "i < length fs" "fs ! i = (pr, contend C job ref t)" and ty: "typed (ks w)" and ttl: "valid_ttl (leaseTtlSeconds (cfg_idempotency C))"
    and w': "w' = snd (H (Redis_set_ex_nx (lock_key (j_paymentId (jb_data job))) (P_text ''1'') (leaseTtlSeconds (cfg_idempotency C))) w)"
    and taken: "locks (db_of (ks w)) (j_paymentId (jb_data job)) = Some e" "clock w' < e"
  shows "interleave H [i] (fs, ms, w) =
    (fs[i := (pr, Ret (Process_skipped (j_paymentId (jb_data job)) ''concurrent execution lock held by another worker''))], ms, w')"
proof -
  let ?c = "Redis_set_ex_nx (lock_key (j_paymentId (jb_data job))) (P_text ''1'') (leaseTtlSeconds (cfg_idempotency C))"
  have "H ?c w = (R_nil, w')"
    using answer [of ?c w] ttl taken w' by (auto simp: lock_live [OF ty] locked_at_def)
  with i show ?thesis by (simp add: contend_def acquireExecutionLock_def Let_def system_step_def fiber_step_def redis_set_ex_nx_def)
qed

end

subsection \<open>Properties of concurrent workers\<close>

text \<open>C2. Mutual exclusion of the workers: any number of attempts of any jobs, in any processes, interleaved in any order of their calls,
  over a Redis whose commands may fail. Until the lease time of the execution lock has passed since the start, at most one of
  them at a time is between taking and releasing the lock of a payment.\<close>

theorem lock_excludes:
  assumes w: "redis_world H clock ks" and sched: "interleave H sched (workers C js, ms, w) = (fs, ms', w')"
    and lease: "clock w' < deadline (clock w) (leaseTtlSeconds (cfg_idempotency C))"
  shows "card {i. i < length fs \<and> holding (lock_key pid) (snd (fs ! i))} \<le> 1"
proof -
  have "one_holder (lock_key pid) (leaseTtlSeconds (cfg_idempotency C)) clock ks (clock w) (workers C js, ms, w)"
    by (simp add: one_holder_def workers_def case_prod_unfold disciplined_processJob not_holding_processJob)
  from redis_world.one_holder_interleave [OF w this sched lease] show ?thesis
    unfolding One_nat_def by (subst card_le_Suc0_iff_eq) (auto simp: one_holder_def)
qed

text \<open>Two workers with the same job: both pass the checks, the first takes the lock and holds it, the second is refused.\<close>

lemma sample_sel [simp]:
  "j_paymentId (jb_data sample_job) = ''p1''" "w_clock sample_world = 1000" "docs (db_of (w_keys sample_world)) ''p1'' = Some sample_record"
  "locks (db_of (w_keys sample_world)) pid = None" "leases (db_of (w_keys sample_world)) pid = None"
  by (simp_all add: sample_job_def sample_world_def start_world_def db_of_def doc_of_def parse_payment_def jget_def)

lemma sample_contention:
  "\<exists>ref ms' w'. interleave world_step [0, 0, 0, 1, 1, 1, 0, 0, 0, 0, 1]
       (workers default_config [(0, sample_job), (1, sample_job)], \<lambda>_. empty_mem, sample_world) =
     ([(0, finally_do (locked_attempt default_config sample_job ref 1000) (releaseExecutionLock ''p1'')),
       (1, Ret (Process_skipped ''p1'' ''concurrent execution lock held by another worker''))], ms', w') \<and> w_clock w' = 1000"
proof -
  let ?fs = "workers default_config [(0, sample_job), (1, sample_job)]"
  let ?contend = "contend default_config sample_job 0 1000"
  obtain ms1 w1 where s1: "interleave world_step [0, 0, 0] (?fs, \<lambda>_. empty_mem, sample_world) = ([(0, ?contend), (1, processJob default_config sample_job)], ms1, w1)"
    and w1: "w_keys w1 = w_keys sample_world" "w_clock w1 = 1000" and ms1: "m_nextObject (ms1 1) = 0"
    using calm.check_phase [of 0 ?fs 0 default_config sample_job sample_world sample_record "\<lambda>_. empty_mem"] sample_typed
    by (auto simp: workers_def empty_mem_def)
  obtain ms2 w2 where s2: "interleave world_step [1, 1, 1] ([(0, ?contend), (1, processJob default_config sample_job)], ms1, w1) = ([(0, ?contend), (1, ?contend)], ms2, w2)"
    and w2: "w_keys w2 = w_keys sample_world" "w_clock w2 = 1000"
    using calm.check_phase [of 1 "[(0, ?contend), (1, processJob default_config sample_job)]" 1 default_config sample_job w1 sample_record ms1] sample_typed w1 ms1
    by auto
  have ttl: "valid_ttl (leaseTtlSeconds (cfg_idempotency default_config))" "leaseTtlSeconds (cfg_idempotency default_config) = 600"
    using default_ttl by (simp_all add: default_config_def buildConfig_def Let_def)
  let ?go = "finally_do (locked_attempt default_config sample_job 0 1000) (releaseExecutionLock ''p1'')"
  obtain w3 where s3: "interleave world_step [0, 0, 0, 0] ([(0, ?contend), (1, ?contend)], ms2, w2) = ([(0, ?go), (1, ?contend)], ms2, w3)"
    and w3: "w_clock w3 = 1000" "typed (w_keys w3)" "locks (db_of (w_keys w3)) ''p1'' = Some (deadline 1000 600)"
    using calm.acquire_phase [of 0 "[(0, ?contend), (1, ?contend)]" 0 default_config sample_job 0 1000 w2 ms2] sample_typed w2 ttl
    by (auto simp: world_step_redis)
  define w4 where "w4 = snd (world_step (Redis_set_ex_nx (lock_key ''p1'') (P_text ''1'') 600) w3)"
  have w4: "w_clock w4 = 1000" using w3 by (simp add: w4_def world_step_redis)
  have s4: "interleave world_step [1] ([(0, ?go), (1, ?contend)], ms2, w3) =
      ([(0, ?go), (1, Ret (Process_skipped ''p1'' ''concurrent execution lock held by another worker''))], ms2, w4)"
    using calm.refused_phase [of 1 "[(0, ?go), (1, ?contend)]" 1 default_config sample_job 0 1000 w3 w4 "deadline 1000 600" ms2] w3 w4 ttl
    by (simp add: w4_def deadline_def)
  have "interleave world_step ([0, 0, 0] @ [1, 1, 1] @ [0, 0, 0, 0] @ [1]) (?fs, \<lambda>_. empty_mem, sample_world) =
     ([(0, ?go), (1, Ret (Process_skipped ''p1'' ''concurrent execution lock held by another worker''))], ms2, w4)"
    unfolding interleave_append s1 s2 s3 s4 ..
  then show ?thesis using w4 by (metis append_Cons append_Nil)
qed

theorem lock_excludes_witness:
  "\<exists>fs ms w. interleave world_step [0, 0, 0, 1, 1, 1, 0, 0, 0, 0, 1]
       (workers default_config [(0, sample_job), (1, sample_job)], \<lambda>_. empty_mem, sample_world) = (fs, ms, w) \<and>
     holding (lock_key ''p1'') (snd (fs ! 0)) \<and> card {i. i < length fs \<and> holding (lock_key ''p1'') (snd (fs ! i))} \<le> 1"
proof -
  from sample_contention obtain ref fs ms w where s: "interleave world_step [0, 0, 0, 1, 1, 1, 0, 0, 0, 0, 1]
       (workers default_config [(0, sample_job), (1, sample_job)], \<lambda>_. empty_mem, sample_world) = (fs, ms, w)" "w_clock w = 1000"
      and fs: "snd (fs ! 0) = finally_do (locked_attempt default_config sample_job ref 1000) (releaseExecutionLock ''p1'')"
    by fastforce
  have "card {i. i < length fs \<and> holding (lock_key ''p1'') (snd (fs ! i))} \<le> 1"
    by (rule lock_excludes [OF calm.redis_world_axioms s(1)]) (simp add: s(2) deadline_def default_config_def buildConfig_def Let_def)
  moreover have "holding (lock_key ''p1'') (snd (fs ! 0))"
    unfolding fs by (rule holding_section [OF calm.wp_locked_bills [OF refl, where C = default_config] spares_attempt])
  ultimately show ?thesis using s(1) by blast
qed

text \<open>C8. What the lock does not exclude: the idempotency record is read before the lock is taken and not again after it. For every
  stored payment that is neither final nor locked, and two attempts of its job in two processes, there is an order of their calls in
  which both run the saga, one after the other: neither is skipped, and every one that completes adds its own
  settlement of the same order. (A stalled job that BullMQ hands to a second worker is such a pair.)\<close>

theorem stale_check_runs_twice:
  assumes rw: "reliable_world H clock ks" and ok: "queues_ok H" and ty: "typed (ks w)"
    and ttl: "valid_ttl (leaseTtlSeconds (cfg_idempotency C))" "valid_ttl (retentionSeconds (cfg_idempotency C))"
    and doc: "docs (db_of (ks w)) pid = Some r" and free: "locks (db_of (ks w)) pid = None"
    and lease: "\<And>rec e. leases (db_of (ks w)) pid = Some (rec, e) \<Longrightarrow> i_state rec = Idem_PROCESSING"
    and jobs: "j_paymentId (jb_data job0) = pid" "j_paymentId (jb_data job1) = pid"
  shows "\<exists>sched res0 res1 ms' w' d. interleave H sched (workers C [(0, job0), (1, job1)], ms, w) = ([(0, done_with res0), (1, done_with res1)], ms', w') \<and>
    attempt_ran r res0 (db_of (ks w)) d \<and> attempt_ran r res1 d (db_of (ks w')) \<and>
    settlements (db_of (ks w')) pid = settlements (db_of (ks w)) pid + completions res0 + completions res1"
proof -
  have red: "redis_world H clock ks" using rw by (rule reliable_world.axioms(1))
  note rel = reliable_world.reliable [OF rw]
  have pid: "p_id r = pid" using docs_id [OF ty doc] .
  let ?fs = "workers C [(0, job0), (1, job1)]" and ?ref = "m_nextObject (ms 1)"
  obtain w1 m1 where s1: "interleave H [1, 1, 1] (?fs, ms, w) = ([(0, processJob C job0), (1, contend C job1 ?ref (clock w))], ms(1 := m1), w1)"
    and w1: "ks w1 = ks w" "clock w \<le> clock w1" and m1: "object m1 ?ref = r"
    using reliable_world.check_phase [OF rw, of 1 ?fs 1 C job1 w r ms] ty doc lease jobs by (auto simp: workers_def)
  let ?ms1 = "ms(1 := m1)"
  have h1: "holds clock ks (clock w) (db_of (ks w)) w1" using w1 ty by (simp add: holds_def)
  from do_wp [OF redis_world.do_processJob [OF red rel ok ttl jobs(1) [symmetric]] h1, THEN wp_run] obtain res0 m2 w2
    where r0: "run H (processJob C job0) (?ms1 0) w1 = Some (res0, m2, w2)" and h2: "holds clock ks (clock w) (db_of (ks w2)) w2"
      and e0: "attempt_ends C pid (clock w) (?ms1 0) (db_of (ks w)) res0 m2 (db_of (ks w2))"
    unfolding holds_def by (metis (mono_tags, lifting) fun_upd_apply)
  have ran0: "attempt_ran r res0 (db_of (ks w)) (db_of (ks w2))" using attempt_of_new_payment [OF e0 doc pid free lease] .
  let ?fs1 = "[(0, processJob C job0), (1, contend C job1 ?ref (clock w))]"
  from fiber_alone [where ms = ?ms1 and pr = 0 and i = 0 and fs = ?fs1, OF r0] obtain n where
    s2: "interleave H (replicate (Suc n) 0) (?fs1, ?ms1, w1) = ([(0, done_with res0), (1, contend C job1 ?ref (clock w))], ?ms1(0 := m2), w2)" by auto
  have free2: "locks (db_of (ks w2)) pid = None" using ran0 pid by (auto simp: attempt_ran_def)
  have "does H clock ks (clock w) (contend C job1 ?ref (clock w)) m1 (db_of (ks w2)) (\<lambda>res m' d'. attempt_ran (object m1 ?ref) res (db_of (ks w2)) d')"
    unfolding contend_def jobs(2) by (rule redis_world.do_contend [OF red rel ok ttl jobs(2) [symmetric] _ free2]) (simp only: m1 pid)
  from do_wp [OF this h2, THEN wp_run] obtain res1 m3 w3 where r1: "run H (contend C job1 ?ref (clock w)) m1 w2 = Some (res1, m3, w3)"
    and ran1: "attempt_ran r res1 (db_of (ks w2)) (db_of (ks w3))"
    unfolding m1 holds_def by blast
  let ?fs2 = "[(0, done_with res0), (1, contend C job1 ?ref (clock w))]"
  from fiber_alone [where ms = "?ms1(0 := m2)" and pr = 1 and i = 1 and fs = ?fs2, of H _ w2 res1 m3 w3] r1 obtain k
    where s3: "interleave H (replicate (Suc k) 1) (?fs2, ?ms1(0 := m2), w2) = ([(0, done_with res0), (1, done_with res1)], ?ms1(0 := m2, 1 := m3), w3)"
    by auto
  have "interleave H ([1, 1, 1] @ replicate (Suc n) 0 @ replicate (Suc k) 1) (?fs, ms, w) =
      ([(0, done_with res0), (1, done_with res1)], ?ms1(0 := m2, 1 := m3), w3)"
    unfolding interleave_append s1 s2 s3 ..
  moreover have "settlements (db_of (ks w3)) pid = settlements (db_of (ks w)) pid + completions res0 + completions res1"
    using attempt_ran_settles [OF ran0] attempt_ran_settles [OF ran1] by (simp add: pid)
  ultimately show ?thesis using ran0 ran1 by blast
qed

theorem stale_check_runs_twice_witness:
  "\<exists>sched res0 res1 ms' w' d. interleave world_step sched (workers default_config [(0, sample_job), (1, sample_job)], \<lambda>_. empty_mem, sample_world) =
      ([(0, done_with res0), (1, done_with res1)], ms', w') \<and>
    attempt_ran sample_record res0 (db_of (w_keys sample_world)) d \<and> attempt_ran sample_record res1 d (db_of (w_keys w')) \<and>
    settlements (db_of (w_keys w')) ''p1'' = settlements (db_of (w_keys sample_world)) ''p1'' + completions res0 + completions res1"
  by (rule stale_check_runs_twice [OF calm.reliable_world_axioms world_queues_ok sample_typed default_ttl]) simp_all

text \<open>An execution lock does not say whose it is: a worker that outlives its lease (601 s against 600 s) deletes the lock of the worker
  that took over, and a third one enters while the second is at work. Four operations of three workers, in this order, the
  results of the three acquisitions.\<close>

definition overrun :: "app_config \<Rightarrow> string \<Rightarrow> bool list async" where
  "overrun C pid =
     bind (acquireExecutionLock C pid) (\<lambda>first. bind (sleep 601000) (\<lambda>_.
     bind (acquireExecutionLock C pid) (\<lambda>second. bind (releaseExecutionLock pid) (\<lambda>_.
     bind (acquireExecutionLock C pid) (\<lambda>third. Ret [first, second, third])))))"

theorem overrun_breaks_exclusion:
  "case run world_step (overrun default_config ''p1'') empty_mem sample_world of
     Some (Inr granted, _, _) \<Rightarrow> granted = [True, True, True] | _ \<Rightarrow> False"
proof -
  have ttl: "leaseTtlSeconds (cfg_idempotency default_config) = 600" by (simp add: default_config_def buildConfig_def Let_def)
  have valid: "valid_ttl 600" by (simp add: valid_ttl_def)
  show ?thesis unfolding overrun_def acquireExecutionLock_def releaseExecutionLock_def idem_get_def call_defs ttl Let_def
    by (simp add: redis_step_def valid live_def sample_world_def start_world_def deadline_def tick_def)
qed

end
