(* ===== verification/Persistence.thy ===== *)
theory Persistence
  imports Interleaving
begin

text \<open>
  What is written to Redis reads back: a payment record, saved and read by
  \<^verbatim>\<open>payment-store.service.ts\<close>, and a final idempotency record of \<^verbatim>\<open>idempotency.service.ts\<close>, whose key
  expires. Between writing and reading any program may run that keeps off the key.
\<close>

text \<open>The record that \<open>finalize\<close> writes at time \<open>t\<close>.\<close>

definition final_for :: "string \<Rightarrow> finalize_input \<Rightarrow> idempotency_record \<Rightarrow> bool" where
  "final_for pid inp rec \<longleftrightarrow> i_paymentId rec = pid \<and> i_state rec = fi_state inp \<and> i_paymentStatus rec = fi_paymentStatus inp \<and>
     i_transactionId rec = fi_transactionId inp \<and> i_failureReason rec = fi_failureReason inp"

context redis_world
begin

lemma run_spares: "spares k p \<Longrightarrow> run H p m w = Some (r, m', w') \<Longrightarrow> ks w' k = ks w k"
proof (induction arbitrary: m w rule: calls_in.induct)
  case (ci_call c f)
  obtain rep w1 where c: "H c w = (rep, w1)" by fastforce
  from ci_call.IH [of rep m w1] ci_call.prems c call_keys [OF ci_call.hyps(1), of w] show ?case by simp
qed auto

lemma wp_spares:
  assumes "spares k p" and "\<And>m w. \<exists>x. run H p m w = Some x" and "\<And>r m' w'. ks w' k = ks w k \<Longrightarrow> clock w \<le> clock w' \<Longrightarrow> Q r m' w'"
  shows "wp H p Q m w"
proof -
  obtain r m' w' where r: "run H p m w = Some (r, m', w')" using assms(2) [of m w] by auto
  with assms(3) run_spares [OF assms(1) r] run_clock [OF r] show ?thesis by (auto intro: wp_runI)
qed

end

context reliable_world
begin

lemma wp_answer:
  assumes "is_redis c" and "\<And>w'. clock w \<le> clock w' \<Longrightarrow> ks w' = snd (redis_sem c (clock w') (ks w)) \<Longrightarrow>
     wp H (k (fst (redis_sem c (clock w') (ks w)))) Q m w'"
  shows "wp H (Call c k) Q m w"
  using answer [OF assms(1), of w] assms(2) by (auto simp: wp_Call)

lemma wp_saved:
  assumes p: "spares (payment_key (p_id r)) p" "\<And>m w. \<exists>x. run H p m w = Some x" and ty: "typed (ks w)"
  shows "wp H (bind (store_save r) (\<lambda>_. bind (attempt p) (\<lambda>_. store_get (p_id r)))) (\<lambda>x m' w'. x = Inr (Some r)) m w"
  unfolding store_save_def redis_hset_def bind.simps
proof (rule wp_answer)
  fix w1
  let ?c = "Redis_hset (payment_key (p_id r)) ''doc'' (P_payment r)"
  assume k1: "ks w1 = snd (redis_sem ?c (clock w1) (ks w))"
  from hset_sem [OF ty refl, of r "clock w1"] obtain n ks' where s: "redis_sem ?c (clock w1) (ks w) = (R_int n, ks')" "typed ks'"
    "docs (db_of ks') (p_id r) = Some r" by auto
  have d1: "typed (ks w1)" "docs (db_of (ks w1)) (p_id r) = Some r" using s k1 by simp_all
  have get: "wp H (store_get (p_id r)) (\<lambda>x m' w'. x = Inr (Some r)) m' w'" if "ks w' (payment_key (p_id r)) = ks w1 (payment_key (p_id r))" for m' w'
    unfolding store_get_def redis_hget_def bind.simps
  proof (rule wp_answer)
    fix w''
    have same: "fst (redis_sem (Redis_hget (payment_key (p_id r)) ''doc'') (clock w'') (ks w')) =
        fst (redis_sem (Redis_hget (payment_key (p_id r)) ''doc'') (clock w'') (ks w1))"
      using that by (simp add: live_def split: option.splits redis_value.splits)
    from hget_sem [OF d1(1), of "p_id r" "clock w''"] d1(2) obtain q
      where "fst (redis_sem (Redis_hget (payment_key (p_id r)) ''doc'') (clock w'') (ks w1)) = R_payload q" "parse_payment (Some q) = Some r"
      by (auto simp del: redis_sem.simps)
    then show "wp H (bind (case fst (redis_sem (Redis_hget (payment_key (p_id r)) ''doc'') (clock w'') (ks w')) of
        R_nil \<Rightarrow> Ret None | R_payload p \<Rightarrow> Ret (Some p) | _ \<Rightarrow> unexpected (fst (redis_sem (Redis_hget (payment_key (p_id r)) ''doc'') (clock w'') (ks w'))))
        (\<lambda>doc. Ret (parse_payment doc))) (\<lambda>x m' w'. x = Inr (Some r)) m' w''"
      unfolding same by simp
  qed simp
  show "wp H (bind (case fst (redis_sem ?c (clock w1) (ks w)) of R_int n \<Rightarrow> Ret () | _ \<Rightarrow> unexpected (fst (redis_sem ?c (clock w1) (ks w))))
      (\<lambda>_. bind (attempt p) (\<lambda>_. store_get (p_id r)))) (\<lambda>x m' w'. x = Inr (Some r)) m w1"
    unfolding s fst_conv reply.case bind.simps wp_bind wp_attempt
    by (rule wp_spares [OF p]) (simp add: get)
qed simp

lemma wp_idem_read:
  assumes "ks w (idem_key pid) = Some (StrV (P_idem rec), Some e)"
    and "\<And>w'. clock w \<le> clock w' \<Longrightarrow> Q (Inr (if clock w' < e then Some rec else None)) m w'"
  shows "wp H (idem_get pid) Q m w"
  unfolding idem_get_def redis_get_def bind.simps
proof (rule wp_answer, simp)
  fix w'
  assume "clock w \<le> clock w'"
  moreover have "fst (redis_sem (Redis_get (idem_key pid)) (clock w') (ks w)) = (if clock w' < e then R_payload (P_idem rec) else R_nil)"
    using assms(1) by (simp add: live_def)
  ultimately show "wp H (bind (case fst (redis_sem (Redis_get (idem_key pid)) (clock w') (ks w)) of R_nil \<Rightarrow> Ret None | R_payload p \<Rightarrow> Ret (Some p)
      | _ \<Rightarrow> unexpected (fst (redis_sem (Redis_get (idem_key pid)) (clock w') (ks w)))) (\<lambda>raw. Ret (parse_idem raw))) Q m w'"
    using assms(2) [of w'] by (simp add: parse_idem_def split: if_splits)
qed

lemma wp_idem_written:
  assumes "valid_ttl ttl" and "\<And>w'. clock w \<le> clock w' \<Longrightarrow> ks w' (idem_key pid) = Some (StrV (P_idem rec), Some (deadline (clock w') ttl)) \<Longrightarrow> Q (Inr ()) m w'"
  shows "wp H (redis_set_ex (idem_key pid) (P_idem rec) ttl) Q m w"
  unfolding redis_set_ex_def by (rule wp_answer) (use assms in auto)

lemma wp_finalized:
  assumes p: "spares (idem_key pid) p" "\<And>m w. \<exists>x. run H p m w = Some x" and ty: "typed (ks w)"
    and ttl: "valid_ttl (retentionSeconds (cfg_idempotency C))"
  shows "wp H (bind (finalize C pid inp) (\<lambda>_. bind (attempt p) (\<lambda>_. idem_get pid)))
    (\<lambda>x m' w'. \<exists>rec t. final_for pid inp rec \<and> clock w \<le> t \<and>
       x = Inr (if clock w' < deadline t (retentionSeconds (cfg_idempotency C)) then Some rec else None)) m w"
proof -
  have rel: "never_fails H clock ks" using no_failure by (simp add: never_fails_def)
  have h: "holds clock ks (clock w) (db_of (ks w)) w" using ty by (simp add: holds_def)
  let ?ttl = "retentionSeconds (cfg_idempotency C)"
  have read: "wp H (bind (attempt p) (\<lambda>_. idem_get pid)) (\<lambda>x m' w'. \<exists>rec t. final_for pid inp rec \<and> clock w \<le> t \<and>
       x = Inr (if clock w' < deadline t ?ttl then Some rec else None)) m2 w2"
    if "ks w2 (idem_key pid) = Some (StrV (P_idem rec), Some (deadline (clock w2) ?ttl))" "final_for pid inp rec" "clock w \<le> clock w2" for m2 w2 rec
    unfolding wp_bind wp_attempt sum.case
  proof (rule wp_spares [OF p], goal_cases)
    case (1 x m' w')
    show ?case unfolding sum.case
      by (rule wp_idem_read [where rec = rec and e = "deadline (clock w2) ?ttl"]) (use 1 that in \<open>auto simp del: if_split\<close>)
  qed
  show ?thesis unfolding finalize_def bind_assoc wp_bind [of H "idem_get pid"]
  proof (rule wp_idem_get [OF h], goal_cases)
    case (2 w1)
    show ?case unfolding sum.case wp_bind [of H date_now] wp_date_now wp_bind [of H "redis_set_ex _ _ _"]
    proof (rule wp_idem_written [OF ttl], unfold sum.case, rule read, assumption)
      show "clock w1 \<le> clock w' \<Longrightarrow> clock w \<le> clock w'" for w' using 2 by simp
    qed (simp add: final_for_def)
  qed (use rel in simp)
qed

end




definition sample_final :: finalize_input where
  "sample_final = \<lparr>fi_state = Idem_COMPLETED, fi_paymentStatus = Some S_completed, fi_transactionId = Some ''tx'', fi_failureReason = None\<rparr>"


end
