(* ===== verification/Job_Lifecycle.thy ===== *)
theory Job_Lifecycle
  imports Persistence
begin

text \<open>
  The life of a job, from its first attempt to its end: the worker callbacks of
  \<^verbatim>\<open>src/queue/queue-manager.service.ts\<close> with the processor and the failure handler that
  \<^verbatim>\<open>src/payments/payments.module.ts\<close> registers, driven by the retry protocol that BullMQ documents.
\<close>

text \<open>The registration of the payment domain with the queue workers.\<close>

definition registered_processor :: "app_config \<Rightarrow> (job \<Rightarrow> process_result async) option" where
  "registered_processor C = Some (process C)"

definition registered_failureHandler :: "app_config \<Rightarrow> (job_data \<Rightarrow> exn \<Rightarrow> unit async) option" where
  "registered_failureHandler C = Some (handleJobFailure C)"

subsection \<open>The protocol of the queue\<close>

text \<open>
  A job whose processor returns is done. When it throws, the count of attempts grows by one and the event
  \<open>failed\<close> is emitted; while the count is below the option \<open>attempts\<close> the job is run again after its backoff.
\<close>

definition failed_once :: "job \<Rightarrow> job" where
  "failed_once job = job\<lparr>jb_attemptsMade := jb_attemptsMade job + 1\<rparr>"

definition runs_again :: "job \<Rightarrow> bool" where
  "runs_again job \<longleftrightarrow> (case jb_attempts job of None \<Rightarrow> False | Some n \<Rightarrow> jb_attemptsMade job < n)"

text \<open>
  Between two steps of a job anything may happen to other payments and in the memory of the processes; the rows of
  this payment stay, except that its lease may expire.
\<close>

definition elsewhere :: "('w \<Rightarrow> timestamp) \<Rightarrow> ('w \<Rightarrow> keyspace) \<Rightarrow> string \<Rightarrow> 'w \<Rightarrow> 'w \<Rightarrow> bool" where
  "elsewhere clock ks pid w w' \<longleftrightarrow>
     clock w \<le> clock w' \<and> typed (ks w') \<and> docs (db_of (ks w')) pid = docs (db_of (ks w)) pid \<and>
     locks (db_of (ks w')) pid = locks (db_of (ks w)) pid \<and> settlements (db_of (ks w')) pid = settlements (db_of (ks w)) pid \<and>
     leases (db_of (ks w')) pid \<in> {None, leases (db_of (ks w)) pid}"

inductive job_life :: "(cmd \<Rightarrow> 'w \<Rightarrow> reply \<times> 'w) \<Rightarrow> ('w \<Rightarrow> timestamp) \<Rightarrow> ('w \<Rightarrow> keyspace) \<Rightarrow> app_config \<Rightarrow>
    job \<Rightarrow> mem \<Rightarrow> 'w \<Rightarrow> (exn + process_result) list \<Rightarrow> 'w \<Rightarrow> bool"
  for H clock ks C where
  life_done: "run H (worker_run (registered_processor C) job) m w = Some (Inr x, m', w') \<Longrightarrow> job_life H clock ks C job m w [Inr x] w'"
| life_exhausted: "run H (worker_run (registered_processor C) job) m w = Some (Inl e, m1, w1) \<Longrightarrow>
     elsewhere clock ks (j_paymentId (jb_data job)) w1 w2 \<Longrightarrow>
     run H (worker_failed (registered_failureHandler C) (Some (failed_once job)) e) m2 w2 = Some (x, m3, w3) \<Longrightarrow>
     \<not> runs_again (failed_once job) \<Longrightarrow> job_life H clock ks C job m w [Inl e] w3"
| life_retried: "run H (worker_run (registered_processor C) job) m w = Some (Inl e, m1, w1) \<Longrightarrow>
     elsewhere clock ks (j_paymentId (jb_data job)) w1 w2 \<Longrightarrow>
     run H (worker_failed (registered_failureHandler C) (Some (failed_once job)) e) m2 w2 = Some (x, m3, w3) \<Longrightarrow>
     runs_again (failed_once job) \<Longrightarrow> elsewhere clock ks (j_paymentId (jb_data job)) w3 w4 \<Longrightarrow>
     job_life H clock ks C (failed_once job) m4 w4 xs w5 \<Longrightarrow> job_life H clock ks C job m w (Inl e # xs) w5"

subsection \<open>What a life leaves\<close>

definition open_payment :: "payment_record \<Rightarrow> db \<Rightarrow> bool" where
  "open_payment r d \<longleftrightarrow>
     docs d (p_id r) = Some r \<and> r_status r \<notin> {S_completed, S_dead_letter} \<and> locks d (p_id r) = None \<and>
     (\<forall>rec e. leases d (p_id r) = Some (rec, e) \<longrightarrow> i_state rec = Idem_PROCESSING)"

definition closed_payment :: "payment_record \<Rightarrow> nat \<Rightarrow> db \<Rightarrow> bool" where
  "closed_payment r n d \<longleftrightarrow>
     (\<exists>r' rec dl. docs d (p_id r) = Some r' \<and> evolves r r' \<and> locks d (p_id r) = None \<and> leases d (p_id r) = Some (rec, dl) \<and>
        (r_status r' = S_completed \<and> i_state rec = Idem_COMPLETED \<and> settlements d (p_id r) = n + 1 \<or>
         r_status r' = S_dead_letter \<and> i_state rec = Idem_FAILED \<and> settlements d (p_id r) = n))"

lemma closed_evolves: "evolves r r' \<Longrightarrow> closed_payment r' n d \<Longrightarrow> closed_payment r n d"
proof -
  assume e: "evolves r r'" and "closed_payment r' n d"
  moreover from e have "p_id r' = p_id r" using evolves_fields by blast
  ultimately show "closed_payment r n d"
    unfolding closed_payment_def using evolves_trans [OF e] by (elim exE) (intro exI, auto)
qed

text \<open>One attempt closes an open payment, or leaves it open under the same order.\<close>

definition attempt_advances :: "payment_record \<Rightarrow> db \<Rightarrow> exn + process_result \<Rightarrow> db \<Rightarrow> bool" where
  "attempt_advances r d res d' \<longleftrightarrow>
     (case res of
        Inr x \<Rightarrow> closed_payment r (settlements d (p_id r)) d'
      | Inl e \<Rightarrow> \<exists>r'. evolves r r' \<and> open_payment r' d' \<and> settlements d' (p_id r) = settlements d (p_id r))"

lemma attempt_ends_advances:
  assumes "attempt_ends C pid t m d res m' d'" and op: "open_payment r d" and pid: "p_id r = pid"
  shows "attempt_advances r d res d'"
  using assms(1)
proof cases
  case (already_final r0 now rec)
  then show ?thesis using op pid by (auto simp: open_payment_def lease_at_def split: if_splits option.splits)
next
  case (already_running r0 now)
  then show ?thesis using op pid by (simp add: open_payment_def locked_at_def)
next
  case (will_retry r0 r' rec now err)
  then have "evolves r r'" "p_id r' = pid" using op pid evolves_fields [of r r'] by (auto simp: open_payment_def)
  with will_retry pid show ?thesis
    by (auto simp: attempt_advances_def open_payment_def settlements_def intro!: exI [of _ r'])
qed (use op pid in \<open>auto simp: attempt_advances_def closed_payment_def open_payment_def settlements_def settlement_of_def\<close>)

lemma elsewhere_open:
  assumes "elsewhere clock ks (p_id r) w w'" "open_payment r (db_of (ks w))"
  shows "open_payment r (db_of (ks w'))"
  using assms by (auto simp: elsewhere_def open_payment_def)

context redis_world
begin

lemma do_worker_run:
  assumes "never_fails H clock ks" "queues_ok H"
    and "valid_ttl (leaseTtlSeconds (cfg_idempotency C))" "valid_ttl (retentionSeconds (cfg_idempotency C))"
    and op: "open_payment r d" "p_id r = j_paymentId (jb_data job)"
  shows "does H clock ks t (worker_run (registered_processor C) job) m d (\<lambda>res m' d'. attempt_advances r d res d')"
  unfolding worker_run_def registered_processor_def option.case process_def
  by (intro do_span do_conseq [OF do_processJob [OF assms(1-4) refl]]) (rule attempt_ends_advances [OF _ op])

text \<open>The handler of \<open>failed\<close> does nothing while the job runs again, and closes the payment otherwise.\<close>

lemma do_worker_failed:
  assumes ok: "never_fails H clock ks" "queues_ok H" and ttl: "valid_ttl (retentionSeconds (cfg_idempotency C))"
    and op: "open_payment r d" "p_id r = j_paymentId (jb_data job)" and made: "1 \<le> jb_attemptsMade job"
  shows "does H clock ks t (worker_failed (registered_failureHandler C) (Some job) e) m d
    (\<lambda>res m' d'. if runs_again job then d' = d else closed_payment r (settlements d (p_id r)) d')"
proof (cases "runs_again job")
  case True
  then have "\<not> jb_attemptsMade job \<ge> nullish (jb_attempts job) 1"
    by (auto simp: runs_again_def split: option.splits)
  with True show ?thesis
    by (simp add: worker_failed_def registered_failureHandler_def Let_def) (intro do_Ret, simp)
next
  case False
  with made have ex: "jb_attemptsMade job \<ge> nullish (jb_attempts job) 1"
    by (auto simp: runs_again_def split: option.splits)
  have "does H clock ks t (catch (handleJobFailure C (jb_data job) e) (\<lambda>e. Ret ())) m d
     (\<lambda>res m' d'. closed_payment r (settlements d (p_id r)) d')"
    by (intro do_catch do_handleJobFailure [OF ok ttl op(2)] caught_Inr)
      (use op in \<open>auto simp: open_payment_def closed_payment_def settlements_def evolves_def core_def transitionToDeadLetter_def Let_def push_history_def\<close>)
  with ex False show ?thesis
    by (simp add: worker_failed_def registered_failureHandler_def Let_def)
qed

end

subsection \<open>Every life closes its payment\<close>

context reliable_world
begin

lemma ran:
  assumes "queues_ok H" "valid_ttl (leaseTtlSeconds (cfg_idempotency C))" "valid_ttl (retentionSeconds (cfg_idempotency C))"
    and "typed (ks w)" and "open_payment r (db_of (ks w))" "p_id r = j_paymentId (jb_data job)"
  shows "\<exists>res m' w'. run H (worker_run (registered_processor C) job) m w = Some (res, m', w') \<and> typed (ks w') \<and>
    attempt_advances r (db_of (ks w)) res (db_of (ks w'))"
proof -
  have "holds clock ks (clock w) (db_of (ks w)) w" using assms(4) by (simp add: holds_def)
  from wp_run [OF do_wp [OF do_worker_run [OF reliable assms(1-3,5,6)] this]] show ?thesis unfolding holds_def by blast
qed

lemma notified:
  assumes "queues_ok H" "valid_ttl (retentionSeconds (cfg_idempotency C))"
    and "typed (ks w)" and "open_payment r (db_of (ks w))" "p_id r = j_paymentId (jb_data job)" and "1 \<le> jb_attemptsMade job"
  shows "\<exists>res m' w'. run H (worker_failed (registered_failureHandler C) (Some job) e) m w = Some (res, m', w') \<and> typed (ks w') \<and>
    (if runs_again job then db_of (ks w') = db_of (ks w) else closed_payment r (settlements (db_of (ks w)) (p_id r)) (db_of (ks w')))"
proof -
  have "holds clock ks (clock w) (db_of (ks w)) w" using assms(3) by (simp add: holds_def)
  from wp_run [OF do_wp [OF do_worker_failed [OF reliable assms(1,2,4-6)] this]] show ?thesis unfolding holds_def by blast
qed

lemma failed_once_sel [simp]:
  "jb_data (failed_once job) = jb_data job" "jb_attempts (failed_once job) = jb_attempts job"
  "jb_attemptsMade (failed_once job) = jb_attemptsMade job + 1"
  by (simp_all add: failed_once_def)

text \<open>An attempt that throws leaves the payment open, until the event \<open>failed\<close> arrives.\<close>

lemma threw:
  assumes "queues_ok H" "valid_ttl (leaseTtlSeconds (cfg_idempotency C))" "valid_ttl (retentionSeconds (cfg_idempotency C))"
    and "typed (ks w)" and "open_payment r (db_of (ks w))" "p_id r = j_paymentId (jb_data job)"
    and "run H (worker_run (registered_processor C) job) m w = Some (Inl e, m1, w1)"
    and "elsewhere clock ks (j_paymentId (jb_data job)) w1 w2"
  obtains r' where "evolves r r'" "p_id r' = p_id r" "typed (ks w2)" "open_payment r' (db_of (ks w2))"
    "settlements (db_of (ks w2)) (p_id r) = settlements (db_of (ks w)) (p_id r)"
proof -
  from ran [OF assms(1-6), of m] assms(7) obtain r'
    where r': "evolves r r'" "open_payment r' (db_of (ks w1))" "settlements (db_of (ks w1)) (p_id r) = settlements (db_of (ks w)) (p_id r)"
    by (auto simp: attempt_advances_def)
  moreover from r'(1) have "p_id r' = p_id r" using evolves_fields by blast
  ultimately show thesis
    using that [of r'] assms(6,8) elsewhere_open [where clock = clock and ks = ks and r = r' and w = w1 and w' = w2]
    by (simp add: elsewhere_def)
qed

lemma life_closes:
  assumes "job_life H clock ks C job m w xs w'" and ok: "queues_ok H"
    and ttl: "valid_ttl (leaseTtlSeconds (cfg_idempotency C))" "valid_ttl (retentionSeconds (cfg_idempotency C))"
    and "typed (ks w)" and "open_payment r (db_of (ks w))" "p_id r = j_paymentId (jb_data job)" and "0 \<le> jb_attemptsMade job"
  shows "closed_payment r (settlements (db_of (ks w)) (p_id r)) (db_of (ks w')) \<and>
    int (length xs) \<le> max 1 (nullish (jb_attempts job) 1 - jb_attemptsMade job)"
  using assms(1,5-)
proof (induction arbitrary: r rule: job_life.induct)
  case (life_done job m w x m' w')
  with ran [OF ok ttl life_done.prems(1-3), of m] show ?case by (auto simp: attempt_advances_def)
next
  case (life_exhausted job m w e m1 w1 w2 m2 x m3 w3)
  obtain r' where r': "evolves r r'" "p_id r' = p_id r" "typed (ks w2)" "open_payment r' (db_of (ks w2))"
    "settlements (db_of (ks w2)) (p_id r) = settlements (db_of (ks w)) (p_id r)"
    by (rule threw [OF ok ttl life_exhausted.prems(1-3) life_exhausted.hyps(1,2)])
  from notified [OF ok ttl(2) r'(3,4), of "failed_once job" e m2] life_exhausted.hyps(3,4) life_exhausted.prems(3,4)
  have "closed_payment r' (settlements (db_of (ks w2)) (p_id r')) (db_of (ks w3))" by (auto simp: r'(2))
  with closed_evolves [OF r'(1)] show ?case by (simp add: r'(2,5))
next
  case (life_retried job m w e m1 w1 w2 m2 x m3 w3 w4 m4 xs w5)
  obtain r' where r': "evolves r r'" "p_id r' = p_id r" "typed (ks w2)" "open_payment r' (db_of (ks w2))"
    "settlements (db_of (ks w2)) (p_id r) = settlements (db_of (ks w)) (p_id r)"
    by (rule threw [OF ok ttl life_retried.prems(1-3) life_retried.hyps(1,2)])
  from notified [OF ok ttl(2) r'(3,4), of "failed_once job" e m2] life_retried.hyps(3,4) life_retried.prems(3,4)
  have w3: "db_of (ks w3) = db_of (ks w2)" by (auto simp: r'(2))
  have w4: "typed (ks w4)" "settlements (db_of (ks w4)) (p_id r) = settlements (db_of (ks w)) (p_id r)" "open_payment r' (db_of (ks w4))"
    using life_retried.hyps(5) life_retried.prems(3) r' elsewhere_open [where clock = clock and ks = ks and r = r' and w = w3 and w' = w4]
    by (simp_all add: elsewhere_def w3)
  from life_retried.IH [OF w4(1,3)] life_retried.prems(3,4) w4(2)
  have "closed_payment r' (settlements (db_of (ks w)) (p_id r)) (db_of (ks w5))"
    "int (length xs) \<le> max 1 (nullish (jb_attempts job) 1 - (jb_attemptsMade job + 1))" by (simp_all add: r'(2))
  with closed_evolves [OF r'(1)] life_retried.hyps(4) show ?case by (auto simp: runs_again_def split: option.splits)
qed

text \<open>A life exists from every open payment: each attempt and each notification ends, and the count of attempts grows.\<close>

lemma life_exists:
  assumes ok: "queues_ok H" and ttl: "valid_ttl (leaseTtlSeconds (cfg_idempotency C))" "valid_ttl (retentionSeconds (cfg_idempotency C))"
    and "typed (ks w)" and "open_payment r (db_of (ks w))" "p_id r = j_paymentId (jb_data job)" and "0 \<le> jb_attemptsMade job"
  shows "\<exists>xs w'. job_life H clock ks C job m w xs w'"
  using assms(4-)
proof (induction "nat (nullish (jb_attempts job) 1 - jb_attemptsMade job)" arbitrary: job m w r rule: less_induct)
  case less
  have stay: "elsewhere clock ks (j_paymentId (jb_data job)) w w" if "typed (ks w)" for w
    using that by (simp add: elsewhere_def)
  from ran [OF ok ttl less.prems(1-3), of m] obtain res m1 w1
    where res: "run H (worker_run (registered_processor C) job) m w = Some (res, m1, w1)" "typed (ks w1)" by blast
  show ?case
  proof (cases res)
    case (Inl e)
    note threw = threw [OF ok ttl less.prems(1-3) res(1) [unfolded Inl] stay [OF res(2)]]
    then obtain r' where r': "p_id r' = p_id r" "open_payment r' (db_of (ks w1))" by blast
    from notified [OF ok ttl(2) res(2) r'(2), of "failed_once job" e m1] less.prems(3,4) obtain x m3 w3
      where w3: "run H (worker_failed (registered_failureHandler C) (Some (failed_once job)) e) m1 w1 = Some (x, m3, w3)" "typed (ks w3)"
        "runs_again (failed_once job) \<Longrightarrow> db_of (ks w3) = db_of (ks w1)" by (auto simp: r'(1) split: if_splits)
    show ?thesis
    proof (cases "runs_again (failed_once job)")
      case True
      then have "nat (nullish (jb_attempts (failed_once job)) 1 - jb_attemptsMade (failed_once job)) <
        nat (nullish (jb_attempts job) 1 - jb_attemptsMade job)" by (auto simp: runs_again_def split: option.splits)
      from less.hyps [OF this w3(2), of r' m3] less.prems(3,4) r' w3(3) [OF True]
      obtain xs w' where "job_life H clock ks C (failed_once job) m3 w3 xs w'" by auto
      with life_retried [OF res(1) [unfolded Inl] stay [OF res(2)] w3(1) True stay [OF w3(2)]] show ?thesis by blast
    next
      case False
      from life_exhausted [OF res(1) [unfolded Inl] stay [OF res(2)] w3(1) False] show ?thesis by blast
    qed
  next
    case (Inr x)
    from life_done [OF res(1) [unfolded Inr]] show ?thesis by blast
  qed
qed

end

subsection \<open>The job of a submission\<close>

text \<open>The job a worker is handed for what was added to the queue.\<close>

definition delivered :: "job_data \<Rightarrow> job_opts \<Rightarrow> job" where
  "delivered data opts = \<lparr>jb_id = jo_jobId opts, jb_data = data, jb_attemptsMade = 0, jb_attempts = Some (jo_attempts opts)\<rparr>"

lemma delivered_sel [simp]:
  "jb_data (delivered data opts) = data" "jb_attemptsMade (delivered data opts) = 0" "jb_attempts (delivered data opts) = Some (jo_attempts opts)"
  by (simp_all add: delivered_def)

context reliable_world
begin

lemma submitted:
  assumes "valid_ttl (leaseTtlSeconds (cfg_idempotency C))" and "0 \<le> workerPoolSize (cfg_queue C)" and "typed (ks w)"
    and free: "locks (db_of (ks w)) (cp_id inp) = None" and sub: "run H (submit C current inp) m w = Some (Inr (Submit_created r), m1, w1)"
  shows "typed (ks w1) \<and> p_id r = cp_id inp \<and> open_payment r (db_of (ks w1)) \<and>
    settlements (db_of (ks w1)) (cp_id inp) = settlements (db_of (ks w)) (cp_id inp)"
proof -
  have "holds clock ks (clock w) (db_of (ks w)) w" using assms(3) by (simp add: holds_def)
  from wp_runD [OF do_wp [OF do_submit [OF assms(1) reliable assms(2) refl] this] sub] obtain cid
    where w1: "typed (ks w1)" and "submit_ends C (queues_ok H) inp cid (clock w) m (db_of (ks w)) (Inr (Submit_created r)) m1 (db_of (ks w1))"
    by (auto simp: holds_def)
  from this(2) obtain ts rec e where r: "r = createPaymentRecord (create_input_of inp cid) ts" "enrolled r m (db_of (ks w)) m1 (db_of (ks w1))"
    and lease: "leases (db_of (ks w1)) (cp_id inp) = Some (rec, e)" "i_state rec = Idem_PROCESSING"
    by cases auto
  have "p_id r = cp_id inp" "r_status r = S_queued" using r(1) by (simp_all add: createPaymentRecord_def create_input_of_def)
  with w1 r(2) lease free show ?thesis by (auto simp: enrolled_def open_payment_def settlements_def)
qed

end

end
