(* ===== verification/Concurrent_Submissions.thy ===== *)
theory Concurrent_Submissions
  imports Interleaving
begin

text \<open>
  Two submissions of one payment id at work at the same time (\<^verbatim>\<open>src/payments/payment.service.ts\<close>): the recovery of
  stale leases cannot tell a submission that crashed from one that has not stored its payment yet.
\<close>

abbreviation correlation_of :: "string option \<Rightarrow> create_payment_input \<Rightarrow> string option" where
  "correlation_of current inp \<equiv> (case cp_correlationId inp of Some c \<Rightarrow> Some c | None \<Rightarrow> current)"

definition record_of :: "string option \<Rightarrow> create_payment_input \<Rightarrow> timestamp \<Rightarrow> payment_record" where
  "record_of current inp ts = createPaymentRecord (create_input_of inp (correlation_of current inp)) ts"

definition job_data_of :: "string option \<Rightarrow> create_payment_input \<Rightarrow> job_data" where
  "job_data_of current inp = \<lparr>j_paymentId = cp_id inp, j_correlationId = correlation_of current inp\<rparr>"

lemma record_of_id [simp]: "p_id (record_of current inp ts) = cp_id inp"
  by (simp add: record_of_def createPaymentRecord_def create_input_of_def)

subsection \<open>The two halves of a submission\<close>

text \<open>The claim of a free id takes the first two calls.\<close>

context reliable_world
begin

lemma claim_phase:
  assumes i: "i < length fs" "fs ! i = (pr, submit C current inp)" and ty: "typed (ks w)" and ttl: "valid_ttl (leaseTtlSeconds (cfg_idempotency C))"
    and free: "leases (db_of (ks w)) (cp_id inp) = None"
  shows "\<exists>w' rec e. interleave H [i, i] (fs, ms, w) = (fs[i := (pr, submit_new C inp (correlation_of current inp))], ms, w') \<and>
     w' = snd (H (Redis_set_ex_nx (idem_key (cp_id inp)) (P_idem rec) (leaseTtlSeconds (cfg_idempotency C))) w) \<and>
     typed (ks w') \<and> i_state rec = Idem_PROCESSING \<and>
     db_of (ks w') = (db_of (ks w))\<lparr>leases := (leases (db_of (ks w)))(cp_id inp \<mapsto> (rec, e))\<rparr>"
proof -
  let ?ttl = "leaseTtlSeconds (cfg_idempotency C)" and ?k = "idem_key (cp_id inp)"
  define rec where "rec = processing_record (cp_id inp) None (clock w)"
  obtain w' where a: "H (Redis_set_ex_nx ?k (P_idem rec) ?ttl) w = (R_ok, w')"
    "ks w' = (ks w)(?k \<mapsto> (StrV (P_idem rec), Some (deadline (clock w') ?ttl)))"
    using answer [of "Redis_set_ex_nx ?k (P_idem rec) ?ttl" w] ttl free by (auto simp: idem_live [OF ty] lease_at_def)
  have "typed (ks w')" unfolding a(2) by (rule typed_updates(4) [OF ty])
  moreover have "interleave H [i, i] (fs, ms, w) = (fs[i := (pr, submit_new C inp (correlation_of current inp))], ms, w')"
    using i a(1) unfolding rec_def
    by (simp add: submit_def claim_with_recovery_def claim_def system_step_def fiber_step_def redis_set_ex_nx_def date_now_def clock_reading Let_def)
  moreover have "i_state rec = Idem_PROCESSING" by (simp add: rec_def processing_record_def)
  moreover have "db_of (ks w') = (db_of (ks w))\<lparr>leases := (leases (db_of (ks w)))(cp_id inp \<mapsto> (rec, deadline (clock w') ?ttl))\<rparr>"
    by (simp only: a(2) db_of_idem)
  ultimately show ?thesis using a(1) by (metis snd_conv)
qed

text \<open>A submission that finds a lease and no payment takes the lease over.\<close>

lemma recovered:
  assumes ttl: "valid_ttl (leaseTtlSeconds (cfg_idempotency C))" and ok: "queues_ok H" and pool: "0 \<le> workerPoolSize (cfg_queue C)"
    and log: "job_log H jobs" and ty: "typed (ks w)"
    and stale: "docs (db_of (ks w)) (cp_id inp) = None" "leases (db_of (ks w)) (cp_id inp) = Some (rec, e)" "i_state rec = Idem_PROCESSING"
  shows "\<exists>ts m' w' q opts. run H (submit C current inp) m w = Some (Inr (Submit_created (record_of current inp ts)), m', w') \<and> typed (ks w') \<and>
     jobs w' = jobs w @ [(q, QUEUE_JOB_NAME, Job_payment (job_data_of current inp), opts)] \<and> jo_jobId opts = cp_id inp"
proof -
  have h: "holds clock ks (clock w) (db_of (ks w)) w" using ty by (simp add: holds_def)
  note jobs = job_log.wp_submit_jobs [OF log ok pool refl, where current = current and inp = inp and m = m and w = w]
  from wp_run [OF wp_conj [OF do_wp [OF do_submit [OF ttl reliable pool refl] h] jobs]] obtain res m' w'
    where res: "run H (submit C current inp) m w = Some (res, m', w')" "typed (ks w')"
      "submit_ends C (queues_ok H) inp (correlation_of current inp) (clock w) m (db_of (ks w)) res m' (db_of (ks w'))"
      and added: "case res of Inr (Submit_created rec) \<Rightarrow> \<exists>rt opts. jget (m_runtimes m') (cp_gatewayId inp) = Some rt \<and> queued_as inp opts \<and>
       jobs w' = jobs w @ [(rt_queueName rt, QUEUE_JOB_NAME, Job_payment \<lparr>j_paymentId = cp_id inp, j_correlationId = correlation_of current inp\<rparr>, opts)]
       | _ \<Rightarrow> jobs w' = jobs w"
    unfolding holds_def by blast
  from res(3) obtain ts where "res = Inr (Submit_created (record_of current inp ts))"
    by cases (use stale ok in \<open>auto simp: record_of_def lease_at_def split: if_splits\<close>)
  with res added show ?thesis by (auto simp: job_data_of_def queued_as_def)
qed

text \<open>The rest of the first submission: nothing is checked again.\<close>

lemma stored_over:
  assumes ok: "queues_ok H" and pool: "0 \<le> workerPoolSize (cfg_queue C)" and log: "job_log H jobs" and ty: "typed (ks w)"
  shows "\<exists>ts m' w' q opts. run H (submit_new C inp (correlation_of current inp)) m w = Some (Inr (Submit_created (record_of current inp ts)), m', w') \<and>
     typed (ks w') \<and> docs (db_of (ks w')) (cp_id inp) = Some (record_of current inp ts) \<and>
     jobs w' = jobs w @ [(q, QUEUE_JOB_NAME, Job_payment (job_data_of current inp), opts)] \<and> jo_jobId opts = cp_id inp"
proof -
  have h: "holds clock ks (clock w) (db_of (ks w)) w" using ty by (simp add: holds_def)
  let ?stored = "\<lambda>res m' d'. \<exists>ts. res = Inr (Submit_created (record_of current inp ts)) \<and> docs d' (cp_id inp) = Some (record_of current inp ts)"
  let ?added = "\<lambda>res m' w'. \<forall>x. res = Inr x \<longrightarrow> (\<exists>q opts. jobs w' = jobs w @ [(q, QUEUE_JOB_NAME, Job_payment (job_data_of current inp), opts)] \<and> jo_jobId opts = cp_id inp)"
  have "does H clock ks (clock w) (submit_new C inp (correlation_of current inp)) m (db_of (ks w)) ?stored"
    by (rule do_submit_new [OF reliable pool]) (use ok record_of_id [unfolded record_of_def] in \<open>auto simp: enrolled_def record_of_def\<close>)
  moreover have "wp H (submit_new C inp (correlation_of current inp)) ?added m w"
    by (rule job_log.wp_submit_new_jobs [OF log ok pool]) (auto simp: job_data_of_def queued_as_def)
  ultimately show ?thesis using wp_run [OF wp_conj [OF do_wp [OF _ h]]] unfolding holds_def by fastforce
qed

end

subsection \<open>Both are accepted\<close>



end
