(* ===== verification/Metrics.thy ===== *)
theory Metrics
  imports Queue_Manager
begin

text \<open>
  The metrics collector of \<^verbatim>\<open>src/metrics/metrics-collector.service.ts\<close> (rolling window of
  attempts, percentiles, alerts with a notification cool-down) and the Socket.IO gateway
  of \<^verbatim>\<open>src/metrics/metrics.gateway.ts\<close>, whose messages are values.
\<close>

definition percentile :: "int list \<Rightarrow> rat \<Rightarrow> int option" where
  "percentile xs p =
     (if xs = [] then None
      else Some (xs ! nat (min (int (length xs) - 1) (max 0 (\<lceil>p * of_nat (length xs)\<rceil> - 1)))))"

text \<open>\<open>t\<close> and \<open>now\<close> are the two readings of the clock, for the sample and for the cut-off.\<close>

definition record_sample :: "app_config \<Rightarrow> timestamp \<Rightarrow> timestamp \<Rightarrow> string \<Rightarrow> bool \<Rightarrow> int \<Rightarrow> attempt_sample list \<Rightarrow> attempt_sample list" where
  "record_sample C t now gatewayId ok durationMs samples =
     (let pushed = samples @ [\<lparr>as_t = t, as_gatewayId = gatewayId, as_ok = ok, as_durationMs = durationMs\<rparr>];
          cutoff = of_int now - windowSeconds (cfg_metrics C) * 1000;
          kept = dropWhile (\<lambda>s. of_int (as_t s) < cutoff) pushed
      in if length kept > 10000 then drop (length kept - 10000) kept else kept)"

definition recordAttempt :: "app_config \<Rightarrow> string \<Rightarrow> bool \<Rightarrow> int \<Rightarrow> unit async" where
  "recordAttempt C gatewayId ok durationMs =
     bind date_now (\<lambda>t. bind date_now (\<lambda>now.
       modify (\<lambda>m. m\<lparr>m_samples := record_sample C t now gatewayId ok durationMs (m_samples m)\<rparr>)))"

record metrics_snapshot =
  mx_timestamp :: timestamp
  mx_windowSeconds :: rat
  mx_tps :: nat
  mx_errorRate :: rat
  mx_ok :: nat
  mx_failed :: nat
  mx_total :: nat
  mx_p95Ms :: "int option"
  mx_p99Ms :: "int option"
  mx_queueDepths :: "queue_depths list \<times> queue_depths"
  mx_alerts :: "alert list"

definition inWindow :: "app_config \<Rightarrow> timestamp \<Rightarrow> attempt_sample list \<Rightarrow> attempt_sample list" where
  "inWindow C now samples =
     filter (\<lambda>s. of_int (as_t s) \<ge> of_int now - windowSeconds (cfg_metrics C) * 1000) samples"

definition make_snapshot ::
    "app_config \<Rightarrow> timestamp \<Rightarrow> attempt_sample list \<Rightarrow> queue_depths list \<times> queue_depths \<Rightarrow> alert list \<Rightarrow> metrics_snapshot" where
  "make_snapshot C now samples depths alerts =
     (let win = inWindow C now samples;
          ok = length (filter as_ok win);
          total = length win;
          failed = total - ok;
          durations = sort (map as_durationMs win)
      in \<lparr>mx_timestamp = now, mx_windowSeconds = windowSeconds (cfg_metrics C),
          mx_tps = length (filter (\<lambda>s. as_t s \<ge> now - 1000) win),
          mx_errorRate = (if total = 0 then 0 else of_nat failed / of_nat total),
          mx_ok = ok, mx_failed = failed, mx_total = total,
          mx_p95Ms = percentile durations (95/100), mx_p99Ms = percentile durations (99/100),
          mx_queueDepths = depths, mx_alerts = alerts\<rparr>)"

text \<open>The samples are read before the depths are awaited, the alerts after.\<close>

definition snapshot :: "app_config \<Rightarrow> metrics_snapshot async" where
  "snapshot C =
     bind date_now (\<lambda>now.
     Get (\<lambda>m. bind collectQueueDepths (\<lambda>depths.
       Get (\<lambda>m'. Ret (make_snapshot C now (m_samples m) depths (jvalues (m_alerts m')))))))"

record alert_spec =
  sp_severity :: severity
  sp_message :: string
  sp_value :: "rat option"
  sp_threshold :: "rat option"

definition evaluate :: "app_config \<Rightarrow> string \<Rightarrow> bool \<Rightarrow> alert_spec \<Rightarrow> unit async" where
  "evaluate C aid condition spec =
     bind date_now (\<lambda>now.
       if \<not> condition then Ret ()
       else Get (\<lambda>m.
         case jget (m_alerts m) aid of
           None \<Rightarrow>
             (let alert = \<lparr>al_id = aid, al_severity = sp_severity spec, al_message = sp_message spec,
                           al_value = sp_value spec, al_threshold = sp_threshold spec, al_raisedAt = now\<rparr>
              in bind (modify (\<lambda>m. m\<lparr>m_alerts := jset (m_alerts m) aid alert,
                                      m_lastRaisedAt := jset (m_lastRaisedAt m) aid now\<rparr>)) (\<lambda>_.
                   emit (Ev_alert alert now)))
         | Some alert \<Rightarrow>
             if of_int (now - nullish (jget (m_lastRaisedAt m) aid) 0) \<ge> alertCooldownMs (cfg_metrics C)
             then bind (modify (\<lambda>m. m\<lparr>m_lastRaisedAt := jset (m_lastRaisedAt m) aid now\<rparr>)) (\<lambda>_.
                    emit (Ev_alert alert now))
             else Ret ()))"

text \<open>\<open>toFixed\<close> on a non-negative number: nearest, ties upwards.\<close>

definition to_fixed1 :: "rat \<Rightarrow> string" where
  "to_fixed1 x = (let n = \<lfloor>10 * x + 1/2\<rfloor> in show_int (n div 10) @ ''.'' @ show_int (n mod 10))"

definition error_rate_high :: "app_config \<Rightarrow> metrics_snapshot \<Rightarrow> bool" where
  "error_rate_high C sn = (mx_errorRate sn > errorRateAlert (cfg_metrics C))"

definition p95_latency_high :: "app_config \<Rightarrow> metrics_snapshot \<Rightarrow> bool" where
  "p95_latency_high C sn = (case mx_p95Ms sn of None \<Rightarrow> False | Some x \<Rightarrow> of_int x > p95LatencyAlertMs (cfg_metrics C))"

definition evaluate_depth :: "app_config \<Rightarrow> queue_depths \<Rightarrow> unit async" where
  "evaluate_depth C g =
     evaluate C (''queue_depth_high:'' @ qd_gatewayId g) (of_int (qd_waiting g) > queueDepthAlert (cfg_metrics C))
       \<lparr>sp_severity = Warning,
        sp_message = ''gateway '' @ qd_gatewayId g @ '' waiting depth '' @ show_int (qd_waiting g) @
          '' exceeds threshold '' @ show_num (queueDepthAlert (cfg_metrics C)),
        sp_value = Some (of_int (qd_waiting g)), sp_threshold = Some (queueDepthAlert (cfg_metrics C))\<rparr>"

definition starts_with :: "string \<Rightarrow> string \<Rightarrow> bool" where
  "starts_with s p = (take (length p) s = p)"

definition stillActive :: "app_config \<Rightarrow> metrics_snapshot \<Rightarrow> string \<Rightarrow> bool" where
  "stillActive C sn aid =
     (if aid = ''error_rate_high'' then error_rate_high C sn
      else if aid = ''p95_latency_high'' then p95_latency_high C sn
      else if starts_with aid ''queue_depth_high:'' then
        (let gatewayId = drop (length ''queue_depth_high:'') aid;
             depths = find (\<lambda>g. qd_gatewayId g = gatewayId) (fst (mx_queueDepths sn))
         in of_int (case depths of Some g \<Rightarrow> qd_waiting g | None \<Rightarrow> 0) > queueDepthAlert (cfg_metrics C))
      else True)"

definition refresh :: "app_config \<Rightarrow> metrics_snapshot async" where
  "refresh C =
     bind (snapshot C) (\<lambda>sn.
     bind (evaluate C ''error_rate_high'' (error_rate_high C sn)
       \<lparr>sp_severity = Critical,
        sp_message = ''error rate '' @ to_fixed1 (mx_errorRate sn * 100) @ ''% exceeds threshold '' @
          to_fixed1 (errorRateAlert (cfg_metrics C) * 100) @ ''%'',
        sp_value = Some (mx_errorRate sn), sp_threshold = Some (errorRateAlert (cfg_metrics C))\<rparr>) (\<lambda>_.
     bind (evaluate C ''p95_latency_high'' (p95_latency_high C sn)
       \<lparr>sp_severity = Warning,
        sp_message = ''P95 latency '' @ (case mx_p95Ms sn of Some x \<Rightarrow> show_int x | None \<Rightarrow> ''undefined'') @
          ''ms exceeds threshold '' @ show_num (p95LatencyAlertMs (cfg_metrics C)) @ ''ms'',
        sp_value = map_option of_int (mx_p95Ms sn), sp_threshold = Some (p95LatencyAlertMs (cfg_metrics C))\<rparr>) (\<lambda>_.
     bind (block (map (evaluate_depth C) (fst (mx_queueDepths sn)))) (\<lambda>_.
     bind (modify (\<lambda>m. m\<lparr>m_alerts := filter (\<lambda>(aid, al). stillActive C sn aid) (m_alerts m)\<rparr>)) (\<lambda>_.
       Ret sn)))))"

definition setCircuitAlert :: "app_config \<Rightarrow> string \<Rightarrow> bool \<Rightarrow> unit async" where
  "setCircuitAlert C gatewayId opn =
     (let aid = ''circuit_open:'' @ gatewayId
      in if opn
         then evaluate C aid True
           \<lparr>sp_severity = Critical, sp_message = ''circuit breaker OPEN for gateway '' @ gatewayId,
            sp_value = None, sp_threshold = None\<rparr>
         else modify (\<lambda>m. m\<lparr>m_alerts := jdelete (m_alerts m) aid\<rparr>))"

text \<open>The listeners registered in \<open>onModuleInit\<close>, as one function of the event.\<close>

definition safeRefresh :: "app_config \<Rightarrow> unit async" where
  "safeRefresh C = catch (bind (refresh C) (\<lambda>_. Ret ())) (\<lambda>_. Ret ())"

definition collector_on :: "app_config \<Rightarrow> app_event \<Rightarrow> unit async" where
  "collector_on C ev =
     (case ev of
        Ev_job_completed pid gid ok durationMs ts \<Rightarrow> bind (recordAttempt C gid ok durationMs) (\<lambda>_. safeRefresh C)
      | Ev_circuit_opened gid ts \<Rightarrow> setCircuitAlert C gid True
      | Ev_circuit_closed gid ts \<Rightarrow> setCircuitAlert C gid False
      | Ev_payment e \<Rightarrow> if le_type e = T_payment_queued then safeRefresh C else Ret ()
      | _ \<Rightarrow> Ret ())"

subsection \<open>The Socket.IO gateway\<close>

datatype socket_message =
    Msg_payment_event event_type string "string option" "payment_status option" timestamp "json_object option"
  | Msg_payment_flow string string saga_phase bool timestamp
  | Msg_alert_raised alert
  | Msg_snapshot metrics_snapshot

text \<open>What is sent for an event; nothing while there is no server.\<close>

definition broadcast :: "bool \<Rightarrow> app_event \<Rightarrow> socket_message list" where
  "broadcast server ev =
     (if \<not> server then []
      else case ev of
        Ev_payment e \<Rightarrow>
          if le_type e \<in> {T_payment_queued, T_payment_processing, T_payment_completed, T_payment_failed, T_payment_dead_lettered}
          then [Msg_payment_event (le_type e) (le_paymentId e) (le_gatewayId e) (le_status e) (le_at e) (le_detail e)]
          else []
      | Ev_saga_phase pid gid phase ok ts \<Rightarrow> [Msg_payment_flow pid gid phase ok ts]
      | Ev_alert alert ts \<Rightarrow> [Msg_alert_raised alert]
      | _ \<Rightarrow> [])"

definition pushSnapshot :: "app_config \<Rightarrow> bool \<Rightarrow> socket_message list async" where
  "pushSnapshot C server =
     (if \<not> server then Ret []
      else catch (bind (refresh C) (\<lambda>sn. Ret [Msg_snapshot sn])) (\<lambda>_. Ret []))"


subsection \<open>Percentiles\<close>

lemma sorted_count_le:
  assumes "sorted xs" and "k < length xs"
  shows "k < length (filter (\<lambda>x. x \<le> xs ! k) xs)"
proof -
  have "\<forall>x\<in>set (take (Suc k) xs). x \<le> xs ! k"
    using assms by (auto simp: in_set_conv_nth sorted_nth_mono less_Suc_eq_le)
  then have "filter (\<lambda>x. x \<le> xs ! k) (take (Suc k) xs) = take (Suc k) xs" by (simp add: filter_id_conv)
  moreover have "filter (\<lambda>x. x \<le> xs ! k) xs = filter (\<lambda>x. x \<le> xs ! k) (take (Suc k) xs) @ filter (\<lambda>x. x \<le> xs ! k) (drop (Suc k) xs)"
    by (simp only: filter_append [symmetric] append_take_drop_id)
  ultimately show ?thesis using assms(2) by simp
qed

lemma sorted_count_less:
  assumes "sorted xs" and "k < length xs"
  shows "length (filter (\<lambda>x. x < xs ! k) xs) \<le> k"
proof -
  have "\<forall>x\<in>set (drop k xs). \<not> x < xs ! k"
    using assms by (auto simp: in_set_conv_nth not_less sorted_nth_mono)
  then have "filter (\<lambda>x. x < xs ! k) (drop k xs) = []" by (simp add: filter_empty_conv)
  moreover have "filter (\<lambda>x. x < xs ! k) xs = filter (\<lambda>x. x < xs ! k) (take k xs) @ filter (\<lambda>x. x < xs ! k) (drop k xs)"
    by (simp only: filter_append [symmetric] append_take_drop_id)
  ultimately show ?thesis using length_filter_le [of _ "take k xs"] by (metis append.right_neutral length_take min.bounded_iff)
qed

text \<open>The percentile is the nearest-rank percentile: of a sorted, non-empty list and a fraction \<open>p\<close> of at most one it is
  an element of the list, at least the fraction \<open>p\<close> of the list is less than or equal to it, and less than the
  fraction \<open>p\<close> is smaller. Of the empty list it is \<open>null\<close>.\<close>

theorem percentile_nearest_rank:
  assumes "sorted xs" and "0 < p" and "p \<le> 1" and "xs \<noteq> []"
  shows "percentile [] p = None \<and> (\<exists>v. percentile xs p = Some v \<and> v \<in> set xs \<and>
    p * of_nat (length xs) \<le> of_nat (length (filter (\<lambda>x. x \<le> v) xs)) \<and>
    of_nat (length (filter (\<lambda>x. x < v) xs)) < p * of_nat (length xs))"
proof -
  let ?n = "length xs" and ?q = "\<lceil>p * of_nat (length xs)\<rceil>"
  have "0 < p * of_nat ?n" using assms by simp
  then have q0: "1 \<le> ?q" by linarith
  have "p * of_nat ?n \<le> of_nat ?n" using mult_right_mono [OF assms(3), of "of_nat ?n"] by simp
  then have qn: "?q \<le> int ?n" by (simp add: ceiling_le_iff)
  define k where "k = nat (?q - 1)"
  have idx: "min (int ?n - 1) (max 0 (?q - 1)) = ?q - 1" using q0 qn by linarith
  have "int k = ?q - 1" using q0 by (simp add: k_def)
  then have k: "k < ?n" "of_nat k = of_int ?q - (1 :: rat)" using qn by linarith (metis \<open>int k = ?q - 1\<close> of_int_1 of_int_diff of_int_of_nat_eq)
  have "p * of_nat ?n \<le> of_nat (Suc k)" using k(2) by (simp add: le_of_int_ceiling)
  moreover have "of_nat (Suc k) \<le> (of_nat (length (filter (\<lambda>x. x \<le> xs ! k) xs)) :: rat)"
    using sorted_count_le [OF assms(1) k(1)] by (simp only: of_nat_le_iff Suc_le_eq)
  moreover have "of_nat (length (filter (\<lambda>x. x < xs ! k) xs)) \<le> (of_nat k :: rat)"
    using sorted_count_less [OF assms(1) k(1)] by simp
  moreover have "of_nat k < p * of_nat ?n" using k(2) ceiling_correct [of "p * of_nat ?n"] by linarith
  ultimately show ?thesis using k(1) idx assms(4) by (auto simp: percentile_def k_def [symmetric] intro: order_trans le_less_trans)
qed

theorem percentile_nearest_rank_witness:
  "percentile [10, 20, 30, 40] (95/100) = Some 40 \<and> percentile [10, 20, 30, 40] (1/2) = Some 20 \<and>
   (\<exists>v. percentile [10, 20, 30, 40] (95/100) = Some v \<and> v \<in> {10, 20, 30, 40})"
proof (intro conjI)
  show "percentile [10, 20, 30, 40] (95/100) = Some 40" "percentile [10, 20, 30, 40] (1/2) = Some 20" by code_simp+
  show "\<exists>v. percentile [10, 20, 30, 40] (95/100) = Some v \<and> v \<in> {10, 20, 30, 40}"
    using percentile_nearest_rank [of "[10, 20, 30, 40]" "95/100"] by auto
qed


subsection \<open>The rolling window\<close>

text \<open>
  A recorded attempt with its two readings of the clock, and the window the collector has after
  a sequence of them; \<open>history\<close> is the same without ever dropping a sample.
\<close>

type_synonym attempt_event = "timestamp \<times> timestamp \<times> string \<times> bool \<times> int"

definition sample_of :: "attempt_event \<Rightarrow> attempt_sample" where
  "sample_of e = (case e of (t, now, gid, ok, dur) \<Rightarrow> \<lparr>as_t = t, as_gatewayId = gid, as_ok = ok, as_durationMs = dur\<rparr>)"

definition read_at :: "attempt_event \<Rightarrow> timestamp" where
  "read_at e = fst (snd e)"

definition collected :: "app_config \<Rightarrow> attempt_event list \<Rightarrow> attempt_sample list" where
  "collected C evs = fold (\<lambda>(t, now, gid, ok, dur) ss. record_sample C t now gid ok dur ss) evs []"

definition in_order :: "attempt_event list \<Rightarrow> bool" where
  "in_order evs \<longleftrightarrow> sorted (concat (map (\<lambda>e. [fst e, read_at e]) evs))"

definition within_cap :: "app_config \<Rightarrow> attempt_event list \<Rightarrow> bool" where
  "within_cap C evs \<longleftrightarrow>
     (\<forall>k < length evs. length (inWindow C (read_at (evs ! k)) (map sample_of (take (Suc k) evs))) \<le> 10000)"

lemma filter_dropWhile: "(\<And>x. x \<in> set xs \<Longrightarrow> P x \<Longrightarrow> \<not> Q x) \<Longrightarrow> filter Q (dropWhile P xs) = filter Q xs"
  by (induction xs) auto

lemma sorted_dropWhile_ge:
  fixes c :: rat
  shows "sorted (map as_t xs) \<Longrightarrow> s \<in> set (dropWhile (\<lambda>s. of_int (as_t s) < c) xs) \<Longrightarrow> c \<le> of_int (as_t s)"
proof (induction xs)
  case (Cons x xs)
  show ?case
  proof (cases "of_int (as_t x) < c")
    case False
    then have "c \<le> of_int (as_t x)" by simp
    moreover have "as_t x \<le> as_t s" using Cons.prems False by auto
    ultimately show ?thesis by (meson of_int_le_iff order_trans)
  qed (use Cons in auto)
qed simp

lemma record_sample_window:
  assumes "now \<le> now'" and "sorted (map as_t (ss @ [sample_of (t, now, gid, ok, dur)]))"
    and "length (inWindow C now (ss @ [sample_of (t, now, gid, ok, dur)])) \<le> 10000"
  shows "inWindow C now' (record_sample C t now gid ok dur ss) = inWindow C now' (ss @ [sample_of (t, now, gid, ok, dur)])"
    and "sorted (map as_t (record_sample C t now gid ok dur ss))"
    and "set (record_sample C t now gid ok dur ss) \<subseteq> set (ss @ [sample_of (t, now, gid, ok, dur)])"
proof -
  let ?xs = "ss @ [sample_of (t, now, gid, ok, dur)]" and ?c = "of_int now - windowSeconds (cfg_metrics C) * 1000"
  let ?kept = "dropWhile (\<lambda>s. of_int (as_t s) < ?c) ?xs"
  have same: "inWindow C u ?kept = inWindow C u ?xs" if "now \<le> u" for u
    unfolding inWindow_def
  proof (rule filter_dropWhile)
    fix s
    assume "of_int (as_t s) < ?c"
    moreover have "of_int now \<le> (of_int u :: rat)" using that by simp
    ultimately show "\<not> of_int u - windowSeconds (cfg_metrics C) * 1000 \<le> of_int (as_t s)" by linarith
  qed
  have "inWindow C now ?kept = ?kept"
    using sorted_dropWhile_ge [OF assms(2), of _ ?c] by (auto simp: inWindow_def filter_id_conv)
  with same [of now] assms(3) have "length ?kept \<le> 10000" by (metis order_refl)
  then have r: "record_sample C t now gid ok dur ss = ?kept" by (simp add: record_sample_def Let_def sample_of_def)
  show "inWindow C now' (record_sample C t now gid ok dur ss) = inWindow C now' ?xs" using same [OF assms(1)] r by simp
  have "suffix (map as_t ?kept) (map as_t ?xs)" by (intro map_mono_suffix suffix_dropWhile)
  then show "sorted (map as_t (record_sample C t now gid ok dur ss))"
    using assms(2) r by (metis sorted_append suffix_def)
  show "set (record_sample C t now gid ok dur ss) \<subseteq> set ?xs" unfolding r by (auto dest: set_dropWhileD)
qed


lemma in_order_snoc:
  assumes "in_order (evs @ [e])"
  shows "in_order evs" "fst e \<le> read_at e" "\<And>x. x \<in> set evs \<Longrightarrow> fst x \<le> fst e \<and> read_at x \<le> read_at e"
  using assms by (auto simp: in_order_def sorted_append)

lemma within_cap_snoc:
  assumes "within_cap C (evs @ [e])"
  shows "within_cap C evs" "length (inWindow C (read_at e) (map sample_of (evs @ [e]))) \<le> 10000"
proof -
  from assms [unfolded within_cap_def, rule_format] have *: "length (inWindow C (read_at ((evs @ [e]) ! k)) (map sample_of (take (Suc k) (evs @ [e])))) \<le> 10000"
    if "k \<le> length evs" for k using that by simp
  show "within_cap C evs" unfolding within_cap_def
  proof (intro allI impI)
    fix k
    assume "k < length evs"
    with * [of k] show "length (inWindow C (read_at (evs ! k)) (map sample_of (take (Suc k) evs))) \<le> 10000" by (simp add: nth_append)
  qed
  show "length (inWindow C (read_at e) (map sample_of (evs @ [e]))) \<le> 10000" using * [of "length evs"] by simp
qed

lemma within_cap_short:
  assumes "length evs \<le> 10000" shows "within_cap C evs"
  unfolding within_cap_def
proof (intro allI impI)
  fix k
  have "length (inWindow C u xs) \<le> length xs" for u xs by (simp add: inWindow_def)
  from this [of "read_at (evs ! k)" "map sample_of (take (Suc k) evs)"] assms
  show "length (inWindow C (read_at (evs ! k)) (map sample_of (take (Suc k) evs))) \<le> 10000" by simp
qed

lemma recorded_window:
  assumes "in_order evs" and "within_cap C evs" and "\<forall>e\<in>set evs. read_at e \<le> now"
  shows "inWindow C now (collected C evs) = inWindow C now (map sample_of evs) \<and> sorted (map as_t (collected C evs)) \<and>
    set (collected C evs) \<subseteq> sample_of ` set evs"
  using assms
proof (induction evs arbitrary: now rule: rev_induct)
  case (snoc e evs)
  obtain t rd gid ok dur where e: "e = (t, rd, gid, ok, dur)" by (cases e)
  note o = in_order_snoc [OF snoc.prems(1)] and c = within_cap_snoc [OF snoc.prems(2)]
  let ?ss = "collected C evs"
  have rd: "\<forall>x\<in>set evs. read_at x \<le> u" if "rd \<le> u" for u using o(3) that by (force simp: e read_at_def)
  have ih: "inWindow C u ?ss = inWindow C u (map sample_of evs)" if "rd \<le> u" for u
    using snoc.IH [OF o(1) c(1) rd [OF that]] by blast
  have sorted: "sorted (map as_t ?ss)" and sub: "set ?ss \<subseteq> sample_of ` set evs"
    using snoc.IH [OF o(1) c(1) rd [OF order_refl]] by blast+
  have "as_t s \<le> t" if "s \<in> set ?ss" for s using sub that o(3) by (force simp: e sample_of_def)
  then have sorted': "sorted (map as_t (?ss @ [sample_of (t, rd, gid, ok, dur)]))" using sorted by (auto simp: sorted_append sample_of_def)
  have win: "inWindow C u (?ss @ [sample_of e]) = inWindow C u (map sample_of (evs @ [e]))" if "rd \<le> u" for u
    using ih [OF that] by (simp add: inWindow_def)
  with c(2) have cap: "length (inWindow C rd (?ss @ [sample_of (t, rd, gid, ok, dur)])) \<le> 10000" by (simp add: e read_at_def)
  have "rd \<le> now" using snoc.prems(3) by (simp add: e read_at_def)
  note r = record_sample_window [OF this sorted' cap]
  have "collected C (evs @ [e]) = record_sample C t rd gid ok dur ?ss" by (simp add: collected_def e)
  with r win [OF \<open>rd \<le> now\<close>] sub show ?case by (auto simp: e)
qed (simp add: collected_def)

text \<open>C26. The bounded window answers like a collector that keeps every attempt: after any sequence of attempts at
  non-decreasing times, and as long as no window ever held more than ten thousand attempts, every later snapshot computed from the
  pruned samples is the snapshot computed from the whole history, and its counts add up with an error rate between
  zero and one. However many attempts there are, at most ten thousand samples are kept.\<close>

theorem snapshot_window_exact:
  assumes "in_order evs" and "within_cap C evs" and "\<forall>e\<in>set evs. read_at e \<le> now"
  shows "make_snapshot C now (collected C evs) depths al = make_snapshot C now (map sample_of evs) depths al \<and>
    (let sn = make_snapshot C now (collected C evs) depths al
     in mx_ok sn + mx_failed sn = mx_total sn \<and> mx_tps sn \<le> mx_total sn \<and> 0 \<le> mx_errorRate sn \<and> mx_errorRate sn \<le> 1) \<and>
    length (collected C evs') \<le> 10000"
proof (intro conjI)
  have "inWindow C now (collected C evs) = inWindow C now (map sample_of evs)" using recorded_window [OF assms] by blast
  then show "make_snapshot C now (collected C evs) depths al = make_snapshot C now (map sample_of evs) depths al"
    by (simp add: make_snapshot_def)
  let ?win = "inWindow C now (collected C evs)"
  have "length (filter as_ok ?win) \<le> length ?win" by simp
  moreover have "length (filter (\<lambda>s. now - 1000 \<le> as_t s) ?win) \<le> length ?win" by simp
  ultimately show "let sn = make_snapshot C now (collected C evs) depths al
     in mx_ok sn + mx_failed sn = mx_total sn \<and> mx_tps sn \<le> mx_total sn \<and> 0 \<le> mx_errorRate sn \<and> mx_errorRate sn \<le> 1"
    by (simp add: make_snapshot_def Let_def divide_le_eq)
  show "length (collected C evs') \<le> 10000"
    by (induction evs' rule: rev_induct) (auto simp: collected_def record_sample_def Let_def)
qed

theorem snapshot_window_exact_witness:
  "\<forall>d. make_snapshot default_config 90000 (collected default_config [(1000, 1000, ''g'', True, 30), (61500, 61501, ''g'', False, 80)]) d [] =
   make_snapshot default_config 90000 (map sample_of [(1000, 1000, ''g'', True, 30), (61500, 61501, ''g'', False, 80)]) d []"
proof
  fix d
  show "make_snapshot default_config 90000 (collected default_config [(1000, 1000, ''g'', True, 30), (61500, 61501, ''g'', False, 80)]) d [] =
     make_snapshot default_config 90000 (map sample_of [(1000, 1000, ''g'', True, 30), (61500, 61501, ''g'', False, 80)]) d []"
    by (rule snapshot_window_exact [THEN conjunct1]) (simp_all add: in_order_def read_at_def within_cap_short)
qed


subsection \<open>Alerts\<close>

definition alerts_same :: "mem \<Rightarrow> mem \<Rightarrow> bool" where
  "alerts_same m m' \<longleftrightarrow> m_alerts m' = m_alerts m \<and> m_lastRaisedAt m' = m_lastRaisedAt m \<and> m_emitted m' = m_emitted m"

interpretation unalarmed: process_frame alerts_same
  by unfold_locales (simp_all add: alerts_same_def)

lemma snapshot_unalarmed: "honours H alerts_same (snapshot C)"
proof -
  have counts: "honours H alerts_same (queue_counts q)" for q
    unfolding queue_counts_def by (intro unalarmed.honours_only_calls) (auto intro!: only_calls.intros split: reply.split)
  have loop: "honours H alerts_same (depths_loop rts)" for rts
    by (induction rts) (auto intro!: unalarmed.honours_intros counts)
  have client: "honours H alerts_same (bind newClient (\<lambda>client. bind (modify (\<lambda>m. m\<lparr>m_dlqClient := Some client\<rparr>)) (\<lambda>_.
      ext_unit (Queue_new DLQ_QUEUE_NAME client))))"
    unfolding newClient_def
    by (intro unalarmed.honours_bind unalarmed.honours_modify unalarmed.honours_only_calls only_calls_wrapped) (simp add: alerts_same_def)
  have dlq: "honours H alerts_same dlqQueue"
    unfolding dlqQueue_def by (intro unalarmed.honours_Get) (simp add: client unalarmed.honours_Ret split: option.split)
  show ?thesis unfolding snapshot_def collectQueueDepths_def
    by (intro unalarmed.honours_intros unalarmed.honours_only_calls counts loop dlq only_calls_wrapped)
qed

lemma jhas_filter: "jhas (filter (\<lambda>(k, v). P k) m) x \<longleftrightarrow> P x \<and> jhas m x"
  by (induction m) (auto simp: jhas_def jget_def)

lemma jhas_jset [simp]: "jhas (jset m k v) x \<longleftrightarrow> x = k \<or> jhas m x"
  by (auto simp: jhas_def jget_def jset_def update_conv')

context js_world
begin

lemma wp_evaluate:
  assumes "\<And>m'. (\<And>x. jhas (m_alerts m') x \<longleftrightarrow> jhas (m_alerts m) x \<or> cond \<and> x = aid) \<Longrightarrow> Q (Inr ()) m' w"
  shows "wp H (evaluate C aid cond spec) Q m w"
proof (cases "jget (m_alerts m) aid")
  case None
  then show ?thesis by (auto simp: evaluate_def Let_def intro!: assms)
next
  case (Some al)
  then have "jhas (m_alerts m) aid" by (simp add: jhas_def)
  with Some show ?thesis by (auto simp: evaluate_def Let_def intro!: wp_if assms)
qed

lemma wp_evaluate_depths:
  assumes "\<And>m'. (\<And>x. jhas (m_alerts m') x \<longleftrightarrow> jhas (m_alerts m) x \<or>
      (\<exists>g\<in>set gs. x = ''queue_depth_high:'' @ qd_gatewayId g \<and> queueDepthAlert (cfg_metrics C) < of_int (qd_waiting g))) \<Longrightarrow> Q (Inr ()) m' w"
  shows "wp H (block (map (evaluate_depth C) gs)) Q m w"
  using assms
proof (induction gs arbitrary: m)
  case (Cons g gs)
  have "wp H (block (map (evaluate_depth C) gs)) Q m' w"
    if "\<And>x. jhas (m_alerts m') x \<longleftrightarrow> jhas (m_alerts m) x \<or>
      queueDepthAlert (cfg_metrics C) < of_int (qd_waiting g) \<and> x = ''queue_depth_high:'' @ qd_gatewayId g" for m'
    by (rule Cons.IH, rule Cons.prems, unfold that) auto
  then show ?case unfolding list.map block.simps wp_bind
    by (subst evaluate_depth_def) (rule wp_evaluate, simp only: sum.case)
qed simp

end


lemma stillActive_simps:
  "stillActive C sn ''error_rate_high'' = error_rate_high C sn"
  "stillActive C sn ''p95_latency_high'' = p95_latency_high C sn"
  "stillActive C sn (''circuit_open:'' @ gid)"
  "find (\<lambda>g. qd_gatewayId g = gid) (fst (mx_queueDepths sn)) = Some g \<Longrightarrow>
     stillActive C sn (''queue_depth_high:'' @ gid) \<longleftrightarrow> queueDepthAlert (cfg_metrics C) < of_int (qd_waiting g)"
  by (simp_all add: stillActive_def starts_with_def Let_def)

text \<open>What the alert table is after a refresh with snapshot \<open>sn\<close>.\<close>

definition alerts_reflect :: "app_config \<Rightarrow> metrics_snapshot \<Rightarrow> mem \<Rightarrow> mem \<Rightarrow> bool" where
  "alerts_reflect C sn m m' \<longleftrightarrow>
     (jhas (m_alerts m') ''error_rate_high'' \<longleftrightarrow> error_rate_high C sn) \<and>
     (jhas (m_alerts m') ''p95_latency_high'' \<longleftrightarrow> p95_latency_high C sn) \<and>
     (\<forall>gid g. find (\<lambda>g. qd_gatewayId g = gid) (fst (mx_queueDepths sn)) = Some g \<longrightarrow>
        (jhas (m_alerts m') (''queue_depth_high:'' @ gid) \<longleftrightarrow> queueDepthAlert (cfg_metrics C) < of_int (qd_waiting g))) \<and>
     (\<forall>gid. jhas (m_alerts m') (''circuit_open:'' @ gid) \<longleftrightarrow> jhas (m_alerts m) (''circuit_open:'' @ gid))"

lemma alerts_reflectI:
  assumes "\<And>x. jhas al x \<longleftrightarrow> jhas (m_alerts m) x \<or> error_rate_high C sn \<and> x = ''error_rate_high'' \<or>
      p95_latency_high C sn \<and> x = ''p95_latency_high'' \<or>
      (\<exists>g\<in>set (fst (mx_queueDepths sn)). x = ''queue_depth_high:'' @ qd_gatewayId g \<and> queueDepthAlert (cfg_metrics C) < of_int (qd_waiting g))"
  shows "alerts_reflect C sn m (m1\<lparr>m_alerts := filter (\<lambda>(aid, al). stillActive C sn aid) al\<rparr>)"
proof -
  have "\<exists>h\<in>set gs. gid = qd_gatewayId h \<and> queueDepthAlert (cfg_metrics C) < of_int (qd_waiting h)"
    if "find (\<lambda>g. qd_gatewayId g = gid) gs = Some g" "queueDepthAlert (cfg_metrics C) < of_int (qd_waiting g)" for gid g gs
    using that by (auto simp: find_Some_iff intro!: bexI [of _ g])
  then show ?thesis
    by (auto simp: alerts_reflect_def jhas_filter assms stillActive_simps stillActive_simps(3,4) [unfolded append_Cons append_Nil])
qed

context js_world
begin

lemma wp_refresh_alerts:
  assumes "m_alerts m1 = m_alerts m" and "\<And>m'. alerts_reflect C sn m m' \<Longrightarrow> Q (Inr sn) m' w"
  shows "wp H (bind (evaluate C ''error_rate_high'' (error_rate_high C sn) sp1) (\<lambda>_.
     bind (evaluate C ''p95_latency_high'' (p95_latency_high C sn) sp2) (\<lambda>_.
     bind (block (map (evaluate_depth C) (fst (mx_queueDepths sn)))) (\<lambda>_.
     bind (modify (\<lambda>m. m\<lparr>m_alerts := filter (\<lambda>(aid, al). stillActive C sn aid) (m_alerts m)\<rparr>)) (\<lambda>_. Ret sn))))) Q m1 w"
  unfolding wp_bind
proof (intro wp_evaluate, unfold sum.case, intro wp_evaluate, unfold sum.case, rule wp_evaluate_depths, unfold sum.case wp_modify wp_Ret,
    rule assms(2), goal_cases)
  case (1 m2 m3 m4)
  show ?case by (rule alerts_reflectI) (unfold 1 assms(1), blast)
qed

lemma wp_refresh:
  "wp H (refresh C) (\<lambda>r m' w'. (\<forall>sn. r = Inr sn \<longrightarrow> alerts_reflect C sn m m') \<and> (\<forall>e. r = Inl e \<longrightarrow> m_alerts m' = m_alerts m)) m w"
  unfolding refresh_def
  by (subst wp_bind, rule wp_mono [OF snapshot_unalarmed [unfolded honours_def, rule_format]])
    (auto simp: alerts_same_def split: sum.split simp del: wp_bind intro!: wp_refresh_alerts)

end

text \<open>C27. In every world a refresh ends, and after one that returns a snapshot the alert table says what the snapshot says: the
  error rate, the latency and the depth of each reported gateway have an active alert exactly when they exceed their threshold,
  and the alerts of open circuits are as before, since only the circuit events raise and clear them. A refresh that
  throws, because the queue depths could not be read, leaves the table alone.\<close>

theorem refresh_alerts:
  assumes "js_world H clock"
  shows "\<exists>r m' w'. run H (refresh C) m w = Some (r, m', w') \<and>
    (\<forall>sn. r = Inr sn \<longrightarrow> alerts_reflect C sn m m') \<and> (\<forall>e. r = Inl e \<longrightarrow> m_alerts m' = m_alerts m)"
  by (rule wp_run [OF js_world.wp_refresh [OF assms]])

definition failing_mem :: mem where
  "failing_mem = empty_mem\<lparr>m_samples := [\<lparr>as_t = 900, as_gatewayId = ''g'', as_ok = False, as_durationMs = 5\<rparr>]\<rparr>"

lemma failing_refresh:
  "case run world_step (refresh default_config) failing_mem start_world of Some (Inr sn, _, _) \<Rightarrow> error_rate_high default_config sn | _ \<Rightarrow> False"
  by code_simp

theorem refresh_alerts_witness:
  "\<exists>sn m' w'. run world_step (refresh default_config) failing_mem start_world = Some (Inr sn, m', w') \<and>
    alerts_reflect default_config sn failing_mem m' \<and> jhas (m_alerts m') ''error_rate_high''"
proof -
  obtain sn m' w' where "run world_step (refresh default_config) failing_mem start_world = Some (Inr sn, m', w')" "error_rate_high default_config sn"
    using failing_refresh
    by (cases "run world_step (refresh default_config) failing_mem start_world") (auto split: sum.splits, metis sumE)
  with refresh_alerts [OF calm.js_world_axioms, of default_config failing_mem start_world] show ?thesis
    by (auto simp: alerts_reflect_def)
qed

end
