(* ===== verification/Geometry.thy ===== *)
theory Geometry
  imports Js_Prelude "HOL-Library.Sublist" "HOL-Library.Product_Lexorder"
begin

text \<open>
  The geometry shared by the diagram renderers of the archify skill,
  \<^verbatim>\<open>.agents/skills/archify/renderers/shared/geometry.mjs\<close>, first part: points, rectangles,
  segments and routes.

  Coordinates are rationals: the floating point arithmetic of the program is modelled
  exactly, without rounding. A coordinate as it comes in may be any JavaScript value;
  \<open>raw_num\<close> is \<open>None\<close> for everything that is not a finite number. Distances are real
  numbers (square roots); where the program only compares a distance with a tolerance,
  \<open>hypot_le\<close> compares the squares.
\<close>

type_synonym point = "rat \<times> rat"
type_synonym raw_num = "rat option"
type_synonym raw_point = "raw_num list option"

record raw_rect =
  rr_x :: raw_num
  rr_y :: raw_num
  rr_width :: raw_num
  rr_height :: raw_num

record rect =
  box_x :: rat
  box_y :: rat
  box_w :: rat
  box_h :: rat

text \<open>A measured rectangle of a renderer: a rectangle with its identity and centre.\<close>

record box = rect +
  box_id :: string
  box_cx :: rat
  box_cy :: rat

definition isFinitePoint :: "raw_num list \<Rightarrow> bool" where
  "isFinitePoint coords = list_all (\<lambda>c. c \<noteq> None) coords"

text \<open>\<open>Array.isArray(p) && p.length === 2 && isFinitePoint(...p)\<close>, and the point then.\<close>

fun finite_point :: "raw_point \<Rightarrow> point option" where
  "finite_point (Some [Some px, Some py]) = Some (px, py)"
| "finite_point p = None"

definition raw_of_rect :: "'x rect_scheme \<Rightarrow> raw_rect" where
  "raw_of_rect r = \<lparr>rr_x = Some (box_x r), rr_y = Some (box_y r), rr_width = Some (box_w r), rr_height = Some (box_h r)\<rparr>"

definition finite_rect :: "raw_rect \<Rightarrow> rect option" where
  "finite_rect r =
     (case (rr_x r, rr_y r, rr_width r, rr_height r) of
        (Some rx, Some ry, Some rw, Some rh) \<Rightarrow> Some \<lparr>box_x = rx, box_y = ry, box_w = rw, box_h = rh\<rparr>
      | _ \<Rightarrow> None)"

definition rectsOverlap :: "raw_rect \<Rightarrow> raw_rect \<Rightarrow> rat \<Rightarrow> bool" where
  "rectsOverlap ra rb gap =
     (case (finite_rect ra, finite_rect rb) of
        (Some a, Some b) \<Rightarrow>
          \<not> (box_x a + box_w a + gap \<le> box_x b \<or> box_x b + box_w b + gap \<le> box_x a \<or>
             box_y a + box_h a + gap \<le> box_y b \<or> box_y b + box_h b + gap \<le> box_y a)
      | _ \<Rightarrow> False)"

subsection \<open>Segments and boxes\<close>

definition epsilon :: rat where
  "epsilon = 1 / 10000"

definition tiny :: rat where
  "tiny = 1 / 10000000"

definition pointInBox :: "point \<Rightarrow> point \<Rightarrow> point \<Rightarrow> bool" where
  "pointInBox p lo hi = (fst lo \<le> fst p \<and> fst p \<le> fst hi \<and> snd lo \<le> snd p \<and> snd p \<le> snd hi)"

definition orientation :: "point \<Rightarrow> point \<Rightarrow> point \<Rightarrow> nat" where
  "orientation a b c =
     (let value = (snd b - snd a) * (fst c - fst b) - (fst b - fst a) * (snd c - snd b)
      in if \<bar>value\<bar> < epsilon then 0 else if 0 < value then 1 else 2)"

definition onSegment :: "point \<Rightarrow> point \<Rightarrow> point \<Rightarrow> bool" where
  "onSegment a b c =
     (fst b \<le> max (fst a) (fst c) \<and> min (fst a) (fst c) \<le> fst b \<and>
      snd b \<le> max (snd a) (snd c) \<and> min (snd a) (snd c) \<le> snd b)"

definition segmentsIntersect :: "point \<Rightarrow> point \<Rightarrow> point \<Rightarrow> point \<Rightarrow> bool" where
  "segmentsIntersect a b c d =
     (let o1 = orientation a b c; o2 = orientation a b d; o3 = orientation c d a; o4 = orientation c d b
      in if o1 = 0 \<and> onSegment a c b then True
         else if o2 = 0 \<and> onSegment a d b then True
         else if o3 = 0 \<and> onSegment c a d then True
         else if o4 = 0 \<and> onSegment c b d then True
         else o1 \<noteq> o2 \<and> o3 \<noteq> o4)"

definition segmentIntersectsRect :: "point \<Rightarrow> point \<Rightarrow> 'x rect_scheme \<Rightarrow> rat \<Rightarrow> bool" where
  "segmentIntersectsRect a b r gap =
     (let x1 = box_x r - gap; y1 = box_y r - gap; x2 = box_x r + box_w r + gap; y2 = box_y r + box_h r + gap
      in if pointInBox a (x1, y1) (x2, y2) \<or> pointInBox b (x1, y1) (x2, y2) then True
         else segmentsIntersect a b (x1, y1) (x2, y1) \<or> segmentsIntersect a b (x2, y1) (x2, y2) \<or>
              segmentsIntersect a b (x2, y2) (x1, y2) \<or> segmentsIntersect a b (x1, y2) (x1, y1))"

definition crossProduct :: "point \<Rightarrow> point \<Rightarrow> point \<Rightarrow> rat" where
  "crossProduct a b c = (fst b - fst a) * (snd c - snd a) - (snd b - snd a) * (fst c - fst a)"

definition opposite :: "rat \<Rightarrow> rat \<Rightarrow> bool" where
  "opposite left right = (epsilon < left \<and> right < - epsilon \<or> left < - epsilon \<and> epsilon < right)"

definition properSegmentIntersection :: "point \<Rightarrow> point \<Rightarrow> point \<Rightarrow> point \<Rightarrow> point option" where
  "properSegmentIntersection a b c d =
     (if \<not> opposite (crossProduct a b c) (crossProduct a b d) \<or> \<not> opposite (crossProduct c d a) (crossProduct c d b) then None
      else
        let denominator = (fst a - fst b) * (snd c - snd d) - (snd a - snd b) * (fst c - fst d)
        in if \<bar>denominator\<bar> < epsilon then None
           else
             let ab = fst a * snd b - snd a * fst b; cd = fst c * snd d - snd c * fst d
             in Some ((ab * (fst c - fst d) - (fst a - fst b) * cd) / denominator,
                      (ab * (snd c - snd d) - (snd a - snd b) * cd) / denominator))"

record axis_overlap =
  ov_length :: rat
  ov_start :: point
  ov_end :: point

definition collinearAxisOverlap :: "point \<Rightarrow> point \<Rightarrow> point \<Rightarrow> point \<Rightarrow> axis_overlap option" where
  "collinearAxisOverlap a b c d =
     (let horizontal = \<bar>snd a - snd b\<bar> \<le> epsilon \<and> \<bar>snd c - snd d\<bar> \<le> epsilon \<and> \<bar>snd a - snd c\<bar> \<le> epsilon;
          vertical = \<bar>fst a - fst b\<bar> \<le> epsilon \<and> \<bar>fst c - fst d\<bar> \<le> epsilon \<and> \<bar>fst a - fst c\<bar> \<le> epsilon
      in if \<not> horizontal \<and> \<not> vertical then None
         else
           let axis = (if horizontal then fst else snd);
               low = max (min (axis a) (axis b)) (min (axis c) (axis d));
               high = min (max (axis a) (axis b)) (max (axis c) (axis d))
           in if high - low \<le> epsilon then None
              else let fixed = (if horizontal then snd a else fst a) in
                Some \<lparr>ov_length = high - low,
                      ov_start = (if horizontal then (low, fixed) else (fixed, low)),
                      ov_end = (if horizontal then (high, fixed) else (fixed, high))\<rparr>)"

subsection \<open>Distances\<close>

definition hypot :: "rat \<Rightarrow> rat \<Rightarrow> real" where
  "hypot dx dy = sqrt (of_rat (dx * dx + dy * dy))"

definition hypot_le :: "rat \<Rightarrow> rat \<Rightarrow> rat \<Rightarrow> bool" where
  "hypot_le dx dy e = (dx * dx + dy * dy \<le> e * e)"

lemma hypot_le: "0 \<le> e \<Longrightarrow> hypot_le dx dy e \<longleftrightarrow> hypot dx dy \<le> of_rat e"
proof -
  assume "0 \<le> e"
  then have "of_rat e = sqrt (of_rat (e * e))" by (simp add: of_rat_mult)
  then have "hypot dx dy \<le> of_rat e \<longleftrightarrow> sqrt (of_rat (dx * dx + dy * dy)) \<le> sqrt (of_rat (e * e))"
    by (simp only: hypot_def)
  then show ?thesis by (simp only: hypot_le_def real_sqrt_le_iff of_rat_less_eq)
qed

definition max3 :: "rat \<Rightarrow> rat \<Rightarrow> rat \<Rightarrow> rat" where
  "max3 a b c = max a (max b c)"

definition pointRectDistance :: "point \<Rightarrow> 'x rect_scheme \<Rightarrow> real" where
  "pointRectDistance p r =
     hypot (max3 (box_x r - fst p) 0 (fst p - (box_x r + box_w r))) (max3 (box_y r - snd p) 0 (snd p - (box_y r + box_h r)))"

definition pointSegmentDistance :: "point \<Rightarrow> point \<Rightarrow> point \<Rightarrow> real" where
  "pointSegmentDistance p a b =
     (let dx = fst b - fst a; dy = snd b - snd a; lengthSquared = dx * dx + dy * dy
      in if lengthSquared \<le> tiny then hypot (fst p - fst a) (snd p - snd a)
         else
           let projection = max 0 (min 1 (((fst p - fst a) * dx + (snd p - snd a) * dy) / lengthSquared))
           in hypot (fst p - (fst a + projection * dx)) (snd p - (snd a + projection * dy)))"

definition segmentRectClearance :: "raw_point \<Rightarrow> raw_point \<Rightarrow> raw_rect \<Rightarrow> real option" where
  "segmentRectClearance start end rr =
     (case (finite_point start, finite_point end, finite_rect rr) of
        (Some a, Some b, Some r) \<Rightarrow>
          if box_w r < 0 \<or> box_h r < 0 then None
          else if segmentIntersectsRect a b r 0 then Some 0
          else
            let corners = [(box_x r, box_y r), (box_x r + box_w r, box_y r), (box_x r + box_w r, box_y r + box_h r), (box_x r, box_y r + box_h r)]
            in Some (Min (set ([pointRectDistance a r, pointRectDistance b r] @
                 map (\<lambda>corner. pointSegmentDistance corner a b) corners)))
      | _ \<Rightarrow> None)"

text \<open>The clipping loop: \<open>None\<close> is the early \<open>return 0\<close>.\<close>

primrec clip_bounds :: "(rat \<times> rat) list \<Rightarrow> rat \<Rightarrow> rat \<Rightarrow> (rat \<times> rat) option" where
  "clip_bounds [] enter leave = Some (enter, leave)"
| "clip_bounds (b # bs) enter leave =
     (case b of (direction, distance) \<Rightarrow>
        if \<bar>direction\<bar> \<le> tiny then (if distance < - tiny then None else clip_bounds bs enter leave)
        else
          let ratio = distance / direction;
              enter' = (if direction < 0 then max enter ratio else enter);
              leave' = (if direction < 0 then leave else min leave ratio)
          in if leave' + tiny < enter' then None else clip_bounds bs enter' leave')"

definition segmentRectIntersectionLength :: "raw_point \<Rightarrow> raw_point \<Rightarrow> raw_rect \<Rightarrow> real option" where
  "segmentRectIntersectionLength start end rr =
     (case (finite_point start, finite_point end, finite_rect rr) of
        (Some a, Some b, Some r) \<Rightarrow>
          if box_w r < 0 \<or> box_h r < 0 then None
          else
            let dx = fst b - fst a; dy = snd b - snd a
            in if hypot_le dx dy tiny then Some 0
               else
                 (case clip_bounds [(- dx, fst a - box_x r), (dx, box_x r + box_w r - fst a),
                                    (- dy, snd a - box_y r), (dy, box_y r + box_h r - snd a)] 0 1 of
                    None \<Rightarrow> Some 0
                  | Some (enter, leave) \<Rightarrow> Some (hypot dx dy * of_rat (max 0 (leave - enter))))
      | _ \<Rightarrow> None)"

subsection \<open>Routes\<close>

definition collinearForward :: "point \<Rightarrow> point \<Rightarrow> point \<Rightarrow> bool" where
  "collinearForward a b c =
     (if epsilon < \<bar>crossProduct a b c\<bar> then False
      else - epsilon \<le> (fst b - fst a) * (fst c - fst b) + (snd b - snd a) * (snd c - snd b))"

definition apart :: "point \<Rightarrow> point \<Rightarrow> bool" where
  "apart p q = (epsilon < \<bar>fst p - fst q\<bar> \<or> epsilon < \<bar>snd p - snd q\<bar>)"

text \<open>
  The two loops of \<open>normalizeRoutePoints\<close>. The arrays they build with \<open>push\<close> and \<open>pop\<close> are
  kept in reverse, last element first.
\<close>

primrec dedupe :: "point list \<Rightarrow> point list \<Rightarrow> point list" where
  "dedupe [] acc = acc"
| "dedupe (p # ps) acc =
     (case acc of
        [] \<Rightarrow> dedupe ps [p]
      | previous # _ \<Rightarrow> dedupe ps (if apart p previous then p # acc else acc))"

fun pop_collinear :: "point \<Rightarrow> point list \<Rightarrow> point list" where
  "pop_collinear p (b # a # rest) = (if collinearForward a b p then pop_collinear p (a # rest) else b # a # rest)"
| "pop_collinear p acc = acc"

primrec straighten :: "point list \<Rightarrow> point list \<Rightarrow> point list" where
  "straighten [] acc = acc"
| "straighten (p # ps) acc = straighten ps (p # pop_collinear p acc)"

definition normalizeRoutePoints :: "raw_point list \<Rightarrow> point list" where
  "normalizeRoutePoints points =
     rev (straighten (rev (dedupe (List.map_filter finite_point points) [])) [])"

datatype side = Left | Right | Top | Bottom

fun side_text :: "side \<Rightarrow> string" where
  "side_text Left = ''left''"
| "side_text Right = ''right''"
| "side_text Top = ''top''"
| "side_text Bottom = ''bottom''"

record side_rule =
  horizontal :: bool
  sourceSign :: rat
  targetSign :: rat
  sourceDirection :: string
  targetDirection :: string

fun ENDPOINT_SIDE_RULES :: "side \<Rightarrow> side_rule" where
  "ENDPOINT_SIDE_RULES Left = \<lparr>horizontal = True, sourceSign = -1, targetSign = 1,
     sourceDirection = ''leftward'', targetDirection = ''rightward from the left''\<rparr>"
| "ENDPOINT_SIDE_RULES Right = \<lparr>horizontal = True, sourceSign = 1, targetSign = -1,
     sourceDirection = ''rightward'', targetDirection = ''leftward from the right''\<rparr>"
| "ENDPOINT_SIDE_RULES Top = \<lparr>horizontal = False, sourceSign = -1, targetSign = 1,
     sourceDirection = ''upward'', targetDirection = ''downward from above''\<rparr>"
| "ENDPOINT_SIDE_RULES Bottom = \<lparr>horizontal = False, sourceSign = 1, targetSign = -1,
     sourceDirection = ''downward'', targetDirection = ''upward from below''\<rparr>"

datatype endpoint = Source | Target

record side_issue =
  si_endpoint :: endpoint
  si_side :: side
  si_segmentIndex :: nat
  si_start :: point
  si_end :: point
  si_expectedAxis :: string
  si_expectedDirection :: string

text \<open>\<open>side\<close> is \<open>None\<close> for a value without a rule.\<close>

definition endpointSideIssue :: "raw_point list \<Rightarrow> endpoint \<Rightarrow> side option \<Rightarrow> side_issue option" where
  "endpointSideIssue points ep sd =
     (case sd of
        None \<Rightarrow> None
      | Some s \<Rightarrow>
          let rule = ENDPOINT_SIDE_RULES s; normalized = normalizeRoutePoints points
          in if length normalized < 2 then None
             else
               let segmentIndex = (if ep = Source then 0 else length normalized - 2);
                   start = normalized ! segmentIndex;
                   end = normalized ! (segmentIndex + 1);
                   dx = fst end - fst start;
                   dy = snd end - snd start;
                   along = (if horizontal rule then dx else dy);
                   across = (if horizontal rule then dy else dx);
                   expectedSign = (if ep = Source then sourceSign rule else targetSign rule)
               in if \<bar>across\<bar> \<le> epsilon \<and> epsilon < along * expectedSign then None
                  else Some \<lparr>si_endpoint = ep, si_side = s, si_segmentIndex = segmentIndex, si_start = start, si_end = end,
                         si_expectedAxis = (if horizontal rule then ''horizontal'' else ''vertical''),
                         si_expectedDirection = (if ep = Source then sourceDirection rule else targetDirection rule)\<rparr>)"

definition routeHonorsEndpointSides :: "raw_point list \<Rightarrow> side option \<Rightarrow> side option \<Rightarrow> bool" where
  "routeHonorsEndpointSides points fromSide toSide =
     (endpointSideIssue points Source fromSide = None \<and> endpointSideIssue points Target toSide = None)"

text \<open>A point that a function of the program computed, as a JavaScript value.\<close>

definition raw_of :: "point \<Rightarrow> raw_point" where
  "raw_of p = Some [Some (fst p), Some (snd p)]"

lemma finite_raw_of [simp]: "finite_point (raw_of p) = Some p"
  by (simp add: raw_of_def)

subsection \<open>Analysis segments\<close>

record source_segment =
  ss_start :: raw_point
  ss_end :: raw_point
  ss_index :: nat

record analysis_segment =
  as_start :: raw_point
  as_end :: raw_point
  as_index :: nat
  as_sources :: "source_segment list"

definition segmentsContinueForward :: "raw_point \<Rightarrow> raw_point \<Rightarrow> raw_point \<Rightarrow> raw_point \<Rightarrow> bool" where
  "segmentsContinueForward firstStart firstEnd secondStart secondEnd =
     (case (finite_point firstStart, finite_point firstEnd, finite_point secondStart, finite_point secondEnd) of
        (Some a, Some b, Some c, Some d) \<Rightarrow>
          let v = (fst b - fst a, snd b - snd a); u = (fst d - fst c, snd d - snd c)
          in if epsilon < \<bar>fst b - fst c\<bar> \<or> epsilon < \<bar>snd b - snd c\<bar> then False
             else if hypot_le (fst v) (snd v) epsilon \<or> hypot_le (fst u) (snd u) epsilon then False
             else if epsilon < \<bar>fst v * snd u - snd v * fst u\<bar> then False
             else epsilon < fst v * fst u + snd v * snd u
      | _ \<Rightarrow> False)"

text \<open>The loop of \<open>forwardCollinearAnalysisSegments\<close>; the array of segments is kept in reverse.\<close>

fun merge_forward :: "nat \<Rightarrow> raw_point list \<Rightarrow> analysis_segment list \<Rightarrow> analysis_segment list" where
  "merge_forward i (p # q # ps) acc =
     (let src = \<lparr>ss_start = p, ss_end = q, ss_index = i\<rparr>;
          fresh = \<lparr>as_start = p, as_end = q, as_index = i, as_sources = [src]\<rparr>
      in merge_forward (i + 1) (q # ps)
           (case acc of
              [] \<Rightarrow> [fresh]
            | previous # rest \<Rightarrow>
                if segmentsContinueForward (as_start previous) (as_end previous) p q
                then previous\<lparr>as_end := q, as_sources := as_sources previous @ [src]\<rparr> # rest
                else fresh # acc))"
| "merge_forward i ps acc = acc"

definition forwardCollinearAnalysisSegments :: "raw_point list \<Rightarrow> analysis_segment list" where
  "forwardCollinearAnalysisSegments points = rev (merge_forward 0 points [])"

fun authored_from :: "nat \<Rightarrow> raw_point list \<Rightarrow> analysis_segment list" where
  "authored_from i (p # q # ps) =
     \<lparr>as_start = p, as_end = q, as_index = i, as_sources = [\<lparr>ss_start = p, ss_end = q, ss_index = i\<rparr>]\<rparr>
       # authored_from (i + 1) (q # ps)"
| "authored_from i ps = []"

definition authoredAnalysisSegments :: "raw_point list \<Rightarrow> analysis_segment list" where
  "authoredAnalysisSegments points = authored_from 0 points"

text \<open>The tolerance of the cross product is scaled with the length; both sides are squared.\<close>

definition pointLiesOnSegment :: "point \<Rightarrow> raw_point \<Rightarrow> raw_point \<Rightarrow> bool" where
  "pointLiesOnSegment p start end =
     (case (finite_point start, finite_point end) of
        (Some a, Some b) \<Rightarrow>
          if hypot_le (fst b - fst a) (snd b - snd a) epsilon then hypot_le (fst p - fst a) (snd p - snd a) epsilon
          else if epsilon * epsilon * ((fst b - fst a) * (fst b - fst a) + (snd b - snd a) * (snd b - snd a))
                    < crossProduct a b p * crossProduct a b p then False
          else min (fst a) (fst b) - epsilon \<le> fst p \<and> fst p \<le> max (fst a) (fst b) + epsilon \<and>
               min (snd a) (snd b) - epsilon \<le> snd p \<and> snd p \<le> max (snd a) (snd b) + epsilon
      | _ \<Rightarrow> False)"

definition sourceSegmentIndexAtPoint :: "analysis_segment \<Rightarrow> point \<Rightarrow> nat" where
  "sourceSegmentIndexAtPoint segment p =
     (case List.find (\<lambda>src. pointLiesOnSegment p (ss_start src) (ss_end src)) (as_sources segment) of
        Some src \<Rightarrow> ss_index src
      | None \<Rightarrow> as_index segment)"

subsection \<open>Route metrics\<close>

definition manhattan :: "point \<Rightarrow> point \<Rightarrow> rat" where
  "manhattan p q = \<bar>fst q - fst p\<bar> + \<bar>snd q - snd p\<bar>"

datatype segment_position = Source_stub | Target_stub | Interior

fun position_text :: "segment_position \<Rightarrow> string" where
  "position_text Source_stub = ''source-stub''"
| "position_text Target_stub = ''target-stub''"
| "position_text Interior = ''interior''"

definition segmentPosition :: "nat \<Rightarrow> nat \<Rightarrow> segment_position" where
  "segmentPosition index segmentCount =
     (if index = 0 then Source_stub else if index = segmentCount - 1 then Target_stub else Interior)"

text \<open>The segments of a route with their indices.\<close>

fun segments_from :: "nat \<Rightarrow> point list \<Rightarrow> (nat \<times> point \<times> point) list" where
  "segments_from i (p # q # ps) = (i, p, q) # segments_from (i + 1) (q # ps)"
| "segments_from i ps = []"

record budget_limits =
  bendsPerRelationship :: rat
  stretch_limit :: rat
  segmentPx :: rat
  microSegmentPx :: rat

record budget_metrics =
  maxBends :: rat
  routesOverSuggestedBends :: nat
  maxStretch :: "rat option"
  routesOverSuggestedStretch :: nat
  minSegmentPx :: "rat option"
  minInteriorSegmentPx :: "rat option"
  shortSegmentCount :: nat
  shortEndpointSegmentCount :: nat
  shortInteriorSegmentCount :: nat
  microSegmentCount :: nat

definition opt_min :: "rat option \<Rightarrow> rat \<Rightarrow> rat option" where
  "opt_min m v = Some (case m of None \<Rightarrow> v | Some w \<Rightarrow> min w v)"

definition opt_max :: "rat option \<Rightarrow> rat \<Rightarrow> rat option" where
  "opt_max m v = Some (case m of None \<Rightarrow> v | Some w \<Rightarrow> max w v)"

text \<open>The inner loop: the length of the route is accumulated beside the metrics.\<close>

definition budget_segment :: "budget_limits \<Rightarrow> nat \<Rightarrow> nat \<times> point \<times> point \<Rightarrow> rat \<times> budget_metrics \<Rightarrow> rat \<times> budget_metrics" where
  "budget_segment L segmentCount seg acc =
     (case seg of (index, p, q) \<Rightarrow> case acc of (routeLength, M) \<Rightarrow>
        let len = manhattan p q; position = segmentPosition index segmentCount
        in if len \<le> epsilon then (routeLength, M)
           else
             let M1 = M\<lparr>minSegmentPx := opt_min (minSegmentPx M) len\<rparr>;
                 M2 = (if position = Interior then M1\<lparr>minInteriorSegmentPx := opt_min (minInteriorSegmentPx M1) len\<rparr> else M1);
                 M3 = (if len < segmentPx L
                       then let M' = M2\<lparr>shortSegmentCount := shortSegmentCount M2 + 1\<rparr>
                            in if position = Interior
                               then M'\<lparr>shortInteriorSegmentCount := shortInteriorSegmentCount M' + 1\<rparr>
                               else M'\<lparr>shortEndpointSegmentCount := shortEndpointSegmentCount M' + 1\<rparr>
                       else M2);
                 M4 = (if len < microSegmentPx L then M3\<lparr>microSegmentCount := microSegmentCount M3 + 1\<rparr> else M3)
             in (routeLength + len, M4))"

definition budget_route :: "budget_limits \<Rightarrow> raw_point list \<Rightarrow> budget_metrics \<Rightarrow> budget_metrics" where
  "budget_route L raw M =
     (let points = normalizeRoutePoints raw
      in if length points < 2 then M
         else
           let bends = of_nat (length points - 2);
               M1 = M\<lparr>maxBends := max (maxBends M) bends\<rparr>;
               M2 = (if bendsPerRelationship L < bends
                     then M1\<lparr>routesOverSuggestedBends := routesOverSuggestedBends M1 + 1\<rparr> else M1);
               (routeLength, M3) = fold (budget_segment L (length points - 1)) (segments_from 0 points) (0, M2);
               direct = manhattan (hd points) (last points)
           in if epsilon < direct
              then let routeStretch = routeLength / direct;
                       M4 = M3\<lparr>maxStretch := opt_max (maxStretch M3) routeStretch\<rparr>
                   in if stretch_limit L + epsilon < routeStretch
                      then M4\<lparr>routesOverSuggestedStretch := routesOverSuggestedStretch M4 + 1\<rparr> else M4
              else M3)"

definition no_metrics :: budget_metrics where
  "no_metrics = \<lparr>maxBends = 0, routesOverSuggestedBends = 0, maxStretch = None, routesOverSuggestedStretch = 0,
     minSegmentPx = None, minInteriorSegmentPx = None, shortSegmentCount = 0, shortEndpointSegmentCount = 0,
     shortInteriorSegmentCount = 0, microSegmentCount = 0\<rparr>"

definition routeBudgetMetrics :: "budget_limits \<Rightarrow> raw_point list list \<Rightarrow> budget_metrics" where
  "routeBudgetMetrics L routes = fold (budget_route L) routes no_metrics"

datatype rhythm_code = Micro_segment | Short_interior_segment

record rhythm_issue =
  ri_code :: rhythm_code
  ri_segmentIndex :: nat
  ri_position :: segment_position
  ri_length :: rat
  ri_start :: point
  ri_end :: point

definition segment_issue :: "rat \<Rightarrow> rat \<Rightarrow> nat \<Rightarrow> nat \<times> point \<times> point \<Rightarrow> rhythm_issue option" where
  "segment_issue interiorPx microPx segmentCount seg =
     (case seg of (index, p, q) \<Rightarrow>
        let len = manhattan p q; position = segmentPosition index segmentCount
        in if len \<le> epsilon then None
           else
             let issue = (\<lambda>code. Some \<lparr>ri_code = code, ri_segmentIndex = index, ri_position = position,
                            ri_length = len, ri_start = p, ri_end = q\<rparr>)
             in if len < microPx - epsilon then issue Micro_segment
                else if position = Interior \<and> len < interiorPx - epsilon then issue Short_interior_segment
                else None)"

definition route_issues :: "rat \<Rightarrow> rat \<Rightarrow> raw_point list \<Rightarrow> rhythm_issue list" where
  "route_issues interiorPx microPx raw =
     (let points = normalizeRoutePoints raw
      in if length points < 2 then []
         else List.map_filter (segment_issue interiorPx microPx (length points - 1)) (segments_from 0 points))"

subsection \<open>Ports\<close>

text \<open>A side that is none of the four is anchored on the right.\<close>

definition anchor :: "'a box_scheme \<Rightarrow> side option \<Rightarrow> point" where
  "anchor r s =
     (case s of
        Some Left \<Rightarrow> (box_x r, box_cy r)
      | Some Right \<Rightarrow> (box_x r + box_w r, box_cy r)
      | Some Top \<Rightarrow> (box_cx r, box_y r)
      | Some Bottom \<Rightarrow> (box_cx r, box_y r + box_h r)
      | None \<Rightarrow> (box_x r + box_w r, box_cy r))"

fun PORT_OUTWARD_VECTOR :: "side \<Rightarrow> point" where
  "PORT_OUTWARD_VECTOR Left = (-1, 0)"
| "PORT_OUTWARD_VECTOR Right = (1, 0)"
| "PORT_OUTWARD_VECTOR Top = (0, -1)"
| "PORT_OUTWARD_VECTOR Bottom = (0, 1)"

definition port_stub :: "point \<Rightarrow> side \<Rightarrow> rat \<Rightarrow> point" where
  "port_stub p s len = (fst p + fst (PORT_OUTWARD_VECTOR s) * len, snd p + snd (PORT_OUTWARD_VECTOR s) * len)"

definition bridge_candidates :: "point \<Rightarrow> point \<Rightarrow> side \<Rightarrow> side \<Rightarrow> rat \<Rightarrow> rat \<Rightarrow> point list list" where
  "bridge_candidates start end fromSide toSide stubPx interiorPx =
     (let startStub = port_stub start fromSide stubPx; endStub = port_stub end toSide stubPx
      in (if fromSide \<in> {Top, Bottom} \<and> toSide \<in> {Top, Bottom} \<and> \<bar>fst start - fst end\<bar> < interiorPx
          then map (\<lambda>channelX. [start, startStub, (channelX, snd startStub), (channelX, snd endStub), endStub, end])
                 [max (fst start) (fst end) + interiorPx, min (fst start) (fst end) - interiorPx]
          else []) @
         (if fromSide \<in> {Left, Right} \<and> toSide \<in> {Left, Right} \<and> \<bar>snd start - snd end\<bar> < interiorPx
          then map (\<lambda>channelY. [start, startStub, (fst startStub, channelY), (fst endStub, channelY), endStub, end])
                 [max (snd start) (snd end) + interiorPx, min (snd start) (snd end) - interiorPx]
          else []))"

text \<open>\<open>accept\<close> is the caller's predicate; the micro segment floor is the default of the issue collector.\<close>

definition automaticPortRhythmBridge ::
    "raw_point \<Rightarrow> raw_point \<Rightarrow> side option \<Rightarrow> side option \<Rightarrow> rat \<Rightarrow> rat \<Rightarrow> (point list \<Rightarrow> bool) option \<Rightarrow> point list option" where
  "automaticPortRhythmBridge start end fromSide toSide stubPx interiorPx accept =
     (case (finite_point start, finite_point end, fromSide, toSide) of
        (Some a, Some b, Some fs, Some ts) \<Rightarrow>
          List.find (\<lambda>points. routeHonorsEndpointSides (map raw_of points) fromSide toSide \<and>
              route_issues interiorPx 8 (map raw_of points) = [] \<and> (case accept of None \<Rightarrow> True | Some f \<Rightarrow> f points))
            (map (\<lambda>points. normalizeRoutePoints (map raw_of points)) (bridge_candidates a b fs ts stubPx interiorPx))
      | _ \<Rightarrow> None)"

definition defaultFromSide :: "'a box_scheme \<Rightarrow> 'b box_scheme \<Rightarrow> side" where
  "defaultFromSide from to =
     (if box_cx to < box_cx from then Left
      else if box_cx from < box_cx to then Right
      else if box_cy from < box_cy to then Bottom
      else Top)"

definition defaultToSide :: "'a box_scheme \<Rightarrow> 'b box_scheme \<Rightarrow> side" where
  "defaultToSide from to =
     (if box_cx to < box_cx from then Right
      else if box_cx from < box_cx to then Left
      else if box_cy from < box_cy to then Top
      else Bottom)"

text \<open>\<open>side\<close> is \<open>None\<close> when it is not set or \<open>auto\<close>.\<close>

definition chosenSide :: "side option \<Rightarrow> side \<Rightarrow> side" where
  "chosenSide s fallback = (case s of Some v \<Rightarrow> v | None \<Rightarrow> fallback)"

subsection \<open>Rectangles\<close>

lemma finite_rect_raw [simp]: "finite_rect (raw_of_rect r) = Some \<lparr>box_x = box_x r, box_y = box_y r, box_w = box_w r, box_h = box_h r\<rparr>"
  by (simp add: finite_rect_def raw_of_rect_def)

lemma open_intervals_meet:
  fixes a b c d :: rat
  assumes "a < b" "c < d"
  shows "(\<exists>z. a < z \<and> z < b \<and> c < z \<and> z < d) \<longleftrightarrow> \<not> (b \<le> c \<or> d \<le> a)"
proof
  assume "\<not> (b \<le> c \<or> d \<le> a)"
  with assms have "max a c < min b d" by simp
  then obtain z where "max a c < z" "z < min b d" using dense by blast
  then show "\<exists>z. a < z \<and> z < b \<and> c < z \<and> z < d" by auto
qed auto

definition inside :: "point \<Rightarrow> 'x rect_scheme \<Rightarrow> bool" where
  "inside p r = (box_x r < fst p \<and> fst p < box_x r + box_w r \<and> box_y r < snd p \<and> snd p < box_y r + box_h r)"

text \<open>
  The overlap test is exact: two rectangles of positive size overlap, with no gap asked
  for, exactly when some point lies strictly inside both; rectangles that only touch do
  not overlap.
\<close>

theorem overlap_iff_common_point:
  assumes "0 < box_w a" "0 < box_h a" "0 < box_w b" "0 < box_h b"
  shows "rectsOverlap (raw_of_rect a) (raw_of_rect b) 0 \<longleftrightarrow> (\<exists>p. inside p a \<and> inside p b)"
proof -
  have "(\<exists>p. inside p a \<and> inside p b) \<longleftrightarrow>
      (\<exists>u. box_x a < u \<and> u < box_x a + box_w a \<and> box_x b < u \<and> u < box_x b + box_w b) \<and>
      (\<exists>v. box_y a < v \<and> v < box_y a + box_h a \<and> box_y b < v \<and> v < box_y b + box_h b)"
    unfolding inside_def by (auto; metis fst_conv snd_conv)
  also have "\<dots> \<longleftrightarrow> \<not> (box_x a + box_w a \<le> box_x b \<or> box_x b + box_w b \<le> box_x a) \<and>
      \<not> (box_y a + box_h a \<le> box_y b \<or> box_y b + box_h b \<le> box_y a)"
    using assms by (simp only: open_intervals_meet less_add_same_cancel1)
  finally show ?thesis by (auto simp: rectsOverlap_def)
qed

definition unit_rect :: "rat \<Rightarrow> rect" where
  "unit_rect left = \<lparr>box_x = left, box_y = 0, box_w = 1, box_h = 1\<rparr>"

theorem overlap_iff_common_point_witness:
  "(\<exists>p. inside p (unit_rect 0) \<and> inside p (unit_rect (1/2))) \<and> \<not> (\<exists>p. inside p (unit_rect 0) \<and> inside p (unit_rect 1))"
  using overlap_iff_common_point [of "unit_rect 0" "unit_rect (1/2)"] overlap_iff_common_point [of "unit_rect 0" "unit_rect 1"]
  by (simp add: unit_rect_def rectsOverlap_def)

subsection \<open>Crossings\<close>

lemma opposite_ratio:
  assumes "opposite l r"
  shows "0 < l / (l - r) \<and> l / (l - r) < 1"
  using assms by (auto simp: opposite_def epsilon_def divide_less_eq zero_less_divide_iff)

definition along :: "point \<Rightarrow> point \<Rightarrow> rat \<Rightarrow> point" where
  "along a b s = (fst a + s * (fst b - fst a), snd a + s * (snd b - snd a))"

text \<open>
  A reported crossing is a crossing: the point that the test for proper crossings
  returns lies strictly between the ends of both segments.
\<close>

theorem crossing_is_interior:
  assumes "properSegmentIntersection a b c d = Some p"
  shows "\<exists>s t. 0 < s \<and> s < 1 \<and> 0 < t \<and> t < 1 \<and> p = along a b s \<and> p = along c d t"
proof -
  obtain ax ay bx by' cx cy dx dy where pts: "a = (ax, ay)" "b = (bx, by')" "c = (cx, cy)" "d = (dx, dy)"
    by (metis surj_pair)
  let ?D = "(ax - bx) * (cy - dy) - (ay - by') * (cx - dx)"
  from assms have opp: "opposite (crossProduct a b c) (crossProduct a b d)" "opposite (crossProduct c d a) (crossProduct c d b)"
    and nz: "?D \<noteq> 0"
    by (auto simp: properSegmentIntersection_def pts Let_def epsilon_def split: if_splits)
  from assms have p: "p = (((ax * by' - ay * bx) * (cx - dx) - (ax - bx) * (cx * dy - cy * dx)) / ?D,
      ((ax * by' - ay * bx) * (cy - dy) - (ay - by') * (cx * dy - cy * dx)) / ?D)"
    by (auto simp: properSegmentIntersection_def pts Let_def split: if_splits)
  have s: "crossProduct c d a - crossProduct c d b = ?D" "crossProduct a b c - crossProduct a b d = - ?D"
    by (simp_all add: crossProduct_def pts algebra_simps)
  have "p = along a b (crossProduct c d a / ?D)" "p = along c d (crossProduct a b c / (- ?D))"
    using nz by (simp_all add: p along_def crossProduct_def pts divide_simps) (simp_all add: algebra_simps)
  then show ?thesis using opposite_ratio [OF opp(1)] opposite_ratio [OF opp(2)] unfolding s by blast
qed

theorem crossing_is_interior_witness:
  "\<exists>s t. 0 < s \<and> s < 1 \<and> 0 < t \<and> t < 1 \<and> (5, 5) = along (0, 0) (10, 10) s \<and> (5, 5) = along (0, 10) (10, 0) t"
  using crossing_is_interior [of "(0, 0)" "(10, 10)" "(0, 10)" "(10, 0)" "(5, 5)"]
  by (simp add: properSegmentIntersection_def opposite_def crossProduct_def epsilon_def)

subsection \<open>Normalised routes\<close>

text \<open>No straight triple: the stack (last point first) has no middle point that lies straight on the way.\<close>

fun no_straight :: "point list \<Rightarrow> bool" where
  "no_straight (c # b # a # rest) = (\<not> collinearForward a b c \<and> no_straight (b # a # rest))"
| "no_straight ps = True"

lemma no_straight_tl: "no_straight (p # ps) \<Longrightarrow> no_straight ps"
  by (cases "p # ps" rule: no_straight.cases) auto

lemma no_straight_nth: "no_straight ps \<Longrightarrow> i + 2 < length ps \<Longrightarrow> \<not> collinearForward (ps ! (i + 2)) (ps ! (i + 1)) (ps ! i)"
proof (induction ps arbitrary: i rule: no_straight.induct)
  case (1 c b a rest)
  then show ?case by (cases i) auto
qed auto

lemma pop_collinear_suffix: "suffix (pop_collinear p acc) acc"
  by (induction p acc rule: pop_collinear.induct) (auto intro: suffix_ConsI)

lemma pop_collinear_ne: "acc \<noteq> [] \<Longrightarrow> pop_collinear p acc \<noteq> []"
  by (induction p acc rule: pop_collinear.induct) auto

lemma suffix_last: "suffix xs ys \<Longrightarrow> xs \<noteq> [] \<Longrightarrow> last xs = last ys"
  by (auto simp: suffix_def)

lemma pop_collinear_straight: "no_straight acc \<Longrightarrow> no_straight (p # pop_collinear p acc)"
proof (induction p acc rule: pop_collinear.induct)
  case (1 p b a rest)
  then show ?case using no_straight_tl by auto
qed auto

lemma subseq_revI: "subseq xs ys \<Longrightarrow> subseq (rev xs) (rev ys)"
proof (induction rule: list_emb.induct)
  case (list_emb_Cons xs ys y)
  then have "subseq (rev xs @ []) (rev ys @ [y])" by (intro list_emb_append_mono) auto
  then show ?case by simp
next
  case (list_emb_Cons2 x y xs ys)
  then show ?case by (simp add: list_emb_append_mono)
qed simp

lemma straighten_facts:
  assumes "no_straight acc"
  shows "no_straight (straighten ps acc) \<and> (ps @ acc \<noteq> [] \<longrightarrow> straighten ps acc \<noteq> [] \<and>
     hd (straighten ps acc) = hd (rev ps @ acc) \<and> last (straighten ps acc) = last (rev ps @ acc)) \<and>
     subseq (straighten ps acc) (rev ps @ acc)"
  using assms
proof (induction ps arbitrary: acc)
  case (Cons p ps)
  let ?acc = "p # pop_collinear p acc"
  note IH = Cons.IH [OF pop_collinear_straight [OF Cons.prems, of p]]
  have l: "last ?acc = last (p # acc)"
    using suffix_last [OF pop_collinear_suffix pop_collinear_ne, of acc p] by (cases "acc = []") (auto simp: pop_collinear_ne)
  have "subseq ?acc (p # acc)" by (simp add: suffix_imp_subseq [OF pop_collinear_suffix])
  then have "subseq (rev ps @ ?acc) (rev ps @ p # acc)" by (intro list_emb_append_mono) auto
  with IH have s: "subseq (straighten ps ?acc) (rev ps @ p # acc)" by (auto elim: subseq_order.trans)
  have ends: "hd (rev ps @ ?acc) = hd (rev ps @ p # acc)" "last (rev ps @ ?acc) = last (rev ps @ p # acc)"
    using l by (cases "rev ps"; simp)+
  show ?case using IH s ends by simp
qed simp

lemma dedupe_facts:
  "subseq (dedupe ps acc) (rev ps @ acc) \<and> (ps @ acc \<noteq> [] \<longrightarrow> dedupe ps acc \<noteq> [] \<and>
     last (dedupe ps acc) = last (rev ps @ acc) \<and> (\<not> apart (hd (rev ps @ acc)) (hd (dedupe ps acc))))"
proof (induction ps arbitrary: acc)
  case Nil
  then show ?case by (simp add: apart_def epsilon_def)
next
  case (Cons p ps)
  note hyp = Cons.IH
  show ?case
  proof (cases acc)
    case Nil
    with hyp [of "[p]"] show ?thesis by simp
  next
    case (Cons q qs)
    show ?thesis
    proof (cases "apart p q")
      case True
      with hyp [of "p # acc"] Cons show ?thesis by simp
    next
      case False
      from hyp [of acc] have IH: "subseq (dedupe ps acc) (rev ps @ acc)" "dedupe ps acc \<noteq> []"
        "last (dedupe ps acc) = last (rev ps @ acc)" "\<not> apart (hd (rev ps @ acc)) (hd (dedupe ps acc))"
        using Cons by auto
      have "subseq (rev ps @ acc) (rev ps @ p # acc)" by (intro list_emb_append_mono) auto
      with IH(1) have s: "subseq (dedupe ps acc) (rev ps @ p # acc)" by (rule subseq_order.trans)
      have "\<not> apart (hd (rev ps @ p # acc)) (hd (dedupe ps acc))"
      proof (cases ps)
        case Nil
        with False Cons show ?thesis by simp
      next
        case (Cons r rs)
        then have "rev ps \<noteq> []" by simp
        with IH(4) show ?thesis by simp
      qed
      with IH s Cons False show ?thesis by simp
    qed
  qed
qed

text \<open>
  Normalising a route keeps its meaning: the result is a subsequence of the finite
  points, starts at the first and ends within the tolerance of the last of them, and none
  of its inner points lies straight on the way between its neighbours.
\<close>

theorem normalized_route:
  assumes "List.map_filter finite_point points \<noteq> []"
  shows "normalizeRoutePoints points \<noteq> [] \<and>
    subseq (normalizeRoutePoints points) (List.map_filter finite_point points) \<and>
    hd (normalizeRoutePoints points) = hd (List.map_filter finite_point points) \<and>
    \<not> apart (last (List.map_filter finite_point points)) (last (normalizeRoutePoints points)) \<and>
    (\<forall>i. i + 2 < length (normalizeRoutePoints points) \<longrightarrow> \<not> collinearForward (normalizeRoutePoints points ! i)
       (normalizeRoutePoints points ! (i + 1)) (normalizeRoutePoints points ! (i + 2)))"
proof -
  define F D S where "F = List.map_filter finite_point points" and "D = dedupe F []" and "S = straighten (rev D) []"
  have r: "normalizeRoutePoints points = rev S" by (simp add: normalizeRoutePoints_def F_def D_def S_def)
  have F: "F \<noteq> []" using assms by (simp add: F_def)
  from dedupe_facts [of F "[]"] F have D: "subseq D (rev F)" "D \<noteq> []" "last D = hd F" "\<not> apart (last F) (hd D)"
    by (simp_all add: D_def last_rev hd_rev)
  from straighten_facts [of "[]" "rev D"] D have S: "no_straight S" "S \<noteq> []" "hd S = hd D" "last S = last D" "subseq S D"
    by (simp_all add: S_def)
  have "subseq (rev S) (rev (rev F))" using subseq_order.trans [OF S(5) D(1)] by (rule subseq_revI)
  moreover have "\<not> collinearForward (rev S ! i) (rev S ! (i + 1)) (rev S ! (i + 2))" if "i + 2 < length (rev S)" for i
  proof -
    let ?j = "length S - 3 - i"
    have "?j + 2 < length S" "length S - Suc i = ?j + 2" "length S - Suc (i + 1) = ?j + 1" "length S - Suc (i + 2) = ?j"
      using that by simp_all
    with no_straight_nth [OF S(1), of ?j] that show ?thesis by (simp add: rev_nth)
  qed
  ultimately show ?thesis using S D F by (simp add: r F_def [symmetric] hd_rev last_rev)
qed

theorem normalized_route_witness:
  "hd (normalizeRoutePoints (map raw_of [(0, 0), (5, 0), (10, 0), (10, 10)])) = (0, 0) \<and>
   normalizeRoutePoints (map raw_of [(0, 0), (5, 0), (10, 0), (10, 10)]) = [(0, 0), (10, 0), (10, 10)]"
  using normalized_route [of "map raw_of [(0, 0), (5, 0), (10, 0), (10, 10)]"]
  by (simp add: normalizeRoutePoints_def List.map_filter_def collinearForward_def crossProduct_def apart_def epsilon_def)

subsection \<open>Clipping\<close>

lemma clip_bounds_within:
  "clip_bounds bs enter leave = Some (e, l) \<Longrightarrow> enter \<le> e \<and> l \<le> leave"
proof (induction bs arbitrary: enter leave)
  case (Cons b bs)
  obtain direction distance where b: "b = (direction, distance)" by fastforce
  show ?case
  proof (cases "\<bar>direction\<bar> \<le> tiny")
    case True
    with Cons b show ?thesis by (auto split: if_splits)
  next
    case False
    let ?e = "if direction < 0 then max enter (distance / direction) else enter"
    let ?l = "if direction < 0 then leave else min leave (distance / direction)"
    from False Cons.prems b have "clip_bounds bs ?e ?l = Some (e, l)" by (auto simp: Let_def split: if_splits)
    from Cons.IH [OF this] show ?thesis by (auto split: if_splits)
  qed
qed simp

lemma distances_nonneg [simp]: "0 \<le> hypot dx dy" "0 \<le> pointRectDistance p r" "0 \<le> pointSegmentDistance p a b"
  by (simp_all add: hypot_def pointRectDistance_def pointSegmentDistance_def Let_def)

lemma clearance_some:
  assumes "finite_rect r = Some q" "\<not> (box_w q < 0 \<or> box_h q < 0)"
  shows "\<exists>d. segmentRectClearance (raw_of a) (raw_of b) r = Some d \<and> 0 \<le> d"
proof (cases "segmentIntersectsRect a b q 0")
  case False
  define ds where "ds = [pointRectDistance a q, pointRectDistance b q] @ map (\<lambda>corner. pointSegmentDistance corner a b)
    [(box_x q, box_y q), (box_x q + box_w q, box_y q), (box_x q + box_w q, box_y q + box_h q), (box_x q, box_y q + box_h q)]"
  have "segmentRectClearance (raw_of a) (raw_of b) r = Some (Min (set ds))"
    using assms False by (simp only: segmentRectClearance_def finite_raw_of prod.case option.case if_False ds_def Let_def)
  moreover have "0 \<le> Min (set ds)" by (subst Min_ge_iff) (auto simp: ds_def)
  ultimately show ?thesis by blast
qed (use assms in \<open>simp add: segmentRectClearance_def\<close>)

text \<open>
  The clipped length is sound: the part of a segment that is reported to lie inside a
  rectangle has a length between zero and the length of the segment, and the clearance of
  a segment from a rectangle is never negative.
\<close>

theorem clipped_length_bounds:
  assumes "segmentRectIntersectionLength (raw_of a) (raw_of b) r = Some len"
  shows "0 \<le> len \<and> len \<le> hypot (fst b - fst a) (snd b - snd a) \<and>
    (\<exists>d. segmentRectClearance (raw_of a) (raw_of b) r = Some d \<and> 0 \<le> d)"
proof -
  from assms obtain q where q: "finite_rect r = Some q" "\<not> (box_w q < 0 \<or> box_h q < 0)"
    by (auto simp: segmentRectIntersectionLength_def split: option.splits if_splits)
  have "0 \<le> len \<and> len \<le> hypot (fst b - fst a) (snd b - snd a)"
  proof (cases "len = 0")
    case False
    let ?bs = "[(- (fst b - fst a), fst a - box_x q), (fst b - fst a, box_x q + box_w q - fst a),
      (- (snd b - snd a), snd a - box_y q), (snd b - snd a, box_y q + box_h q - snd a)]"
    from False assms q obtain e l where c: "clip_bounds ?bs 0 1 = Some (e, l)"
      and len: "len = hypot (fst b - fst a) (snd b - snd a) * of_rat (max 0 (l - e))"
      by (auto simp: segmentRectIntersectionLength_def Let_def simp del: clip_bounds.simps split: option.splits if_splits)
    have "(0::real) \<le> of_rat (max 0 (l - e))" "(of_rat (max 0 (l - e)) :: real) \<le> 1"
      using clip_bounds_within [OF c] by (simp_all add: max_def)
    with len show ?thesis by (simp add: mult_left_le)
  qed simp
  with clearance_some [OF q] show ?thesis by blast
qed

theorem clipped_length_bounds_witness:
  "\<exists>d. segmentRectClearance (raw_of (0, 0)) (raw_of (10, 0)) (raw_of_rect (unit_rect 20)) = Some d \<and> 0 \<le> d"
proof -
  have "segmentRectIntersectionLength (raw_of (0, 0)) (raw_of (10, 0)) (raw_of_rect (unit_rect 20)) = Some 0"
    by (simp add: segmentRectIntersectionLength_def unit_rect_def hypot_le_def tiny_def Let_def)
  from clipped_length_bounds [OF this] show ?thesis by blast
qed

end
