(* ===== verification/Diagnostics.thy ===== *)
theory Diagnostics
  imports Js_Prelude
begin

text \<open>
  The diagnostics recorder of the renderers,
  \<^verbatim>\<open>.agents/skills/archify/renderers/shared/diagnostics.mjs\<close>: normalisation, recording without
  duplicates, suppression, and the payload of a failing renderer. The module's variables
  are a record; writing the payload to the standard error stream and ending the process
  are not modelled.
\<close>

datatype diag_severity = Sev_error | Sev_warning

text \<open>A diagnostic as a caller gives it, fields possibly missing or \<open>undefined\<close>, and normalised.\<close>

record raw_diagnostic =
  rd_code :: "string option"
  rd_severity :: "string option"
  rd_message :: "string option"
  rd_subject :: "(string \<times> json option) list option"
  rd_evidence :: "(string \<times> json option) list option"
  rd_fixes :: "string list option"
  rd_suppresses :: "string list option"

record diagnostic =
  dg_code :: string
  dg_severity :: diag_severity
  dg_message :: string
  dg_subject :: json_object
  dg_evidence :: json_object
  dg_fixes :: "string list"
  dg_suppresses :: "string list option"

definition plainObject :: "(string \<times> json option) list option \<Rightarrow> json_object" where
  "plainObject v =
     (case v of None \<Rightarrow> []
      | Some entries \<Rightarrow> List.map_filter (\<lambda>(k, e). map_option (Pair k) e) entries)"

definition text_list :: "string list \<Rightarrow> string list" where
  "text_list xs = unique (filter (\<lambda>t. t \<noteq> []) (map trim xs))"

definition or_text :: "string option \<Rightarrow> string \<Rightarrow> string" where
  "or_text v d = (case v of Some t \<Rightarrow> if t = [] then d else t | None \<Rightarrow> d)"

definition normalizedDiagnostic :: "raw_diagnostic \<Rightarrow> diagnostic" where
  "normalizedDiagnostic d =
     \<lparr>dg_code = or_text (rd_code d) ''internal/unclassified'',
      dg_severity = (if rd_severity d = Some ''warning'' then Sev_warning else Sev_error),
      dg_message = trim (or_text (rd_message d) ''Archify could not classify this failure.''),
      dg_subject = plainObject (rd_subject d),
      dg_evidence = plainObject (rd_evidence d),
      dg_fixes = (case rd_fixes d of None \<Rightarrow> [] | Some fs \<Rightarrow> text_list fs),
      dg_suppresses = map_option text_list (rd_suppresses d)\<rparr>"

record diag_state =
  DIAGNOSTIC_MODE :: bool
  recorded :: "diagnostic list"
  recordedMessages :: "string set"
  recordingSuppressionDepth :: int

definition fresh_diagnostics :: "bool \<Rightarrow> diag_state" where
  "fresh_diagnostics mode =
     \<lparr>DIAGNOSTIC_MODE = mode, recorded = [], recordedMessages = {}, recordingSuppressionDepth = 0\<rparr>"

definition recordDiagnostic :: "raw_diagnostic \<Rightarrow> diag_state \<Rightarrow> diag_state" where
  "recordDiagnostic d st =
     (if \<not> DIAGNOSTIC_MODE st \<or> 0 < recordingSuppressionDepth st then st
      else let normalized = normalizedDiagnostic d
           in if dg_message normalized \<in> recordedMessages st then st
              else st\<lparr>recordedMessages := insert (dg_message normalized) (recordedMessages st),
                      recorded := recorded st @ [normalized]\<rparr>)"

text \<open>\<open>callback\<close> is any stretch of code: it returns or throws, and may record in between.\<close>

definition withDiagnosticRecordingSuppressed :: "(diag_state \<Rightarrow> ('e + 'a) \<times> diag_state) \<Rightarrow> diag_state \<Rightarrow> ('e + 'a) \<times> diag_state" where
  "withDiagnosticRecordingSuppressed callback st =
     (case callback (st\<lparr>recordingSuppressionDepth := recordingSuppressionDepth st + 1\<rparr>) of
        (r, st') \<Rightarrow> (r, st'\<lparr>recordingSuppressionDepth := recordingSuppressionDepth st' - 1\<rparr>))"

record renderer_error =
  re_message :: "string option"
  re_name :: "string option"
  re_code :: "string option"
  re_syntax :: bool
  re_diagnostics :: "diagnostic list option"

definition throwDiagnosticError :: "string \<Rightarrow> raw_diagnostic list option \<Rightarrow> diag_state \<Rightarrow> (renderer_error + 'a) \<times> diag_state" where
  "throwDiagnosticError message diagnostics st =
     (let ds = (case diagnostics of None \<Rightarrow> [] | Some xs \<Rightarrow> xs)
      in (Inl \<lparr>re_message = Some message, re_name = Some ''Error'', re_code = None, re_syntax = False,
               re_diagnostics = Some (map normalizedDiagnostic ds)\<rparr>,
          fold recordDiagnostic ds st))"

definition raw_of_diagnostic :: "diagnostic \<Rightarrow> raw_diagnostic" where
  "raw_of_diagnostic d =
     \<lparr>rd_code = Some (dg_code d), rd_severity = Some (case dg_severity d of Sev_error \<Rightarrow> ''error'' | Sev_warning \<Rightarrow> ''warning''),
      rd_message = Some (dg_message d), rd_subject = Some (map (map_prod id Some) (dg_subject d)),
      rd_evidence = Some (map (map_prod id Some) (dg_evidence d)), rd_fixes = Some (dg_fixes d),
      rd_suppresses = dg_suppresses d\<rparr>"

primrec join_text :: "string \<Rightarrow> string list \<Rightarrow> string" where
  "join_text sep [] = []"
| "join_text sep (t # ts) = (if ts = [] then t else t @ sep @ join_text sep ts)"

definition throwDiagnosticProblems ::
    "string \<Rightarrow> string list option \<Rightarrow> string \<Rightarrow> (string \<times> json option) list \<Rightarrow> diag_state \<Rightarrow> (renderer_error + 'a) \<times> diag_state" where
  "throwDiagnosticProblems label problems code subject st =
     (let messages = (case problems of None \<Rightarrow> [] | Some ps \<Rightarrow> ps);
          diagnostics = map (\<lambda>message. normalizedDiagnostic
             \<lparr>rd_code = Some code, rd_severity = Some ''error'', rd_message = Some message, rd_subject = Some subject,
              rd_evidence = Some [], rd_fixes = Some [], rd_suppresses = None\<rparr>) messages
      in throwDiagnosticError (label @ '':'' @ [CHR 0x0A] @ ''- '' @ join_text ([CHR 0x0A] @ ''- '') messages)
           (Some (map raw_of_diagnostic diagnostics)) st)"

text \<open>\<open>input\<close> is the resolved path of the input file, when one was given.\<close>

definition fallbackDiagnostic :: "string option \<Rightarrow> renderer_error \<Rightarrow> diagnostic" where
  "fallbackDiagnostic input e =
     (let subject = Some [(''input'', map_option JStr input)]; reason = (''reason'', map_option JStr (re_message e))
      in if re_syntax e then
           normalizedDiagnostic \<lparr>rd_code = Some ''input/json-parse'', rd_severity = Some ''error'',
             rd_message = Some (''Input JSON could not be parsed: '' @ nullish (re_message e) ''undefined''),
             rd_subject = subject, rd_evidence = Some [reason],
             rd_fixes = Some [''repair the JSON syntax and run validation again''], rd_suppresses = None\<rparr>
         else if re_code e \<in> {Some ''ENOENT'', Some ''EACCES'', Some ''EISDIR''} then
           normalizedDiagnostic \<lparr>rd_code = Some ''input/read'', rd_severity = Some ''error'',
             rd_message = Some (''Input could not be read: '' @ nullish (re_message e) ''undefined''),
             rd_subject = subject, rd_evidence = Some [(''systemCode'', map_option JStr (re_code e)), reason],
             rd_fixes = Some [''provide one readable JSON input file''], rd_suppresses = None\<rparr>
         else
           normalizedDiagnostic \<lparr>rd_code = Some ''internal/unclassified'', rd_severity = Some ''error'',
             rd_message = Some (or_text (re_message e) ''Renderer failed without a diagnostic.''),
             rd_subject = subject, rd_evidence = Some [(''errorName'', Some (JStr (or_text (re_name e) ''Error'')))],
             rd_fixes = Some [], rd_suppresses = None\<rparr>)"

record renderer_failure =
  rf_error :: string
  rf_diagnostics :: "diagnostic list"

definition rendererFailure :: "string option \<Rightarrow> renderer_error \<Rightarrow> diag_state \<Rightarrow> renderer_failure" where
  "rendererFailure input e st =
     (let attached = (case re_diagnostics e of None \<Rightarrow> [] | Some ds \<Rightarrow> map (normalizedDiagnostic \<circ> raw_of_diagnostic) ds)
      in \<lparr>rf_error = or_text (re_message e) ''Renderer failed without a diagnostic.'',
          rf_diagnostics =
            (if recorded st \<noteq> [] then recorded st else if attached \<noteq> [] then attached else [fallbackDiagnostic input e])\<rparr>)"

subsection \<open>Properties of the recorder\<close>

lemma suppressed: "0 < recordingSuppressionDepth st \<Longrightarrow> fold recordDiagnostic ds st = st"
  by (induction ds) (simp_all add: recordDiagnostic_def)

lemma recording_facts:
  assumes "recordingSuppressionDepth st = 0" "DIAGNOSTIC_MODE st" "distinct (map dg_message (recorded st))"
    "recordedMessages st = dg_message ` set (recorded st)"
  shows "distinct (map dg_message (recorded (fold recordDiagnostic ds st))) \<and>
    dg_message ` set (recorded (fold recordDiagnostic ds st)) =
      dg_message ` set (recorded st) \<union> (dg_message \<circ> normalizedDiagnostic) ` set ds"
  using assms
proof (induction ds arbitrary: st)
  case (Cons d ds)
  then show ?case
    by (simp, subst Cons.IH [THEN conjunct1], auto simp: recordDiagnostic_def Let_def Cons.IH)
qed simp

text \<open>
  Every problem is recorded once: after any sequence of diagnostics the recorder holds
  exactly the distinct messages of the normalised diagnostics, each one time, or nothing
  when the diagnostic mode is off; and whatever is recorded while recording is suppressed
  leaves no trace.
\<close>

theorem recorded_once:
  "distinct (map dg_message (recorded (fold recordDiagnostic ds (fresh_diagnostics mode)))) \<and>
   dg_message ` set (recorded (fold recordDiagnostic ds (fresh_diagnostics mode))) =
     (if mode then (dg_message \<circ> normalizedDiagnostic) ` set ds else {}) \<and>
   withDiagnosticRecordingSuppressed (\<lambda>st. (res, fold recordDiagnostic ds st)) (fresh_diagnostics mode) = (res, fresh_diagnostics mode)"
proof -
  have off: "fold recordDiagnostic ds (fresh_diagnostics False) = fresh_diagnostics False"
    by (induction ds) (simp_all add: recordDiagnostic_def fresh_diagnostics_def)
  have "withDiagnosticRecordingSuppressed (\<lambda>st. (res, fold recordDiagnostic ds st)) (fresh_diagnostics mode) = (res, fresh_diagnostics mode)"
    by (simp add: withDiagnosticRecordingSuppressed_def suppressed fresh_diagnostics_def)
  with off recording_facts [of "fresh_diagnostics True" ds] show ?thesis
    by (cases mode) (simp_all add: fresh_diagnostics_def)
qed

end
