(* ===== verification/Route_Gates.thy ===== *)
theory Route_Gates
  imports Geometry Diagnostics "HOL-Library.List_Lexorder"
begin

text \<open>
  The geometry of the diagram renderers, second part
  (\<^verbatim>\<open>.agents/skills/archify/renderers/shared/geometry.mjs\<close>): relationships, the collectors of
  layout problems and the quality gates that turn them into messages and diagnostics.

  Relationships are objects and are compared by identity, \<open>rel_ref\<close>. \<open>pathFor\<close>, \<open>fromSideFor\<close>
  and the other functions a renderer passes in are parameters. A gate returns its
  diagnostics; \<open>gate\<close> gives the messages the function returns and the recorded state. A
  message is the text in UTF-8.
\<close>

record relation =
  rel_ref :: nat
  rel_key :: "string option"
  rel_id :: "string option"
  rel_from :: "string option"
  rel_to :: "string option"
  rel_label :: "string option"
  rel_fromSide :: "side option"
  rel_toSide :: "side option"
  rel_route :: "string option"
  rel_via :: "raw_point list option"
  rel_channelX :: raw_num
  rel_channelY :: raw_num
  rel_labelAt :: "point option"
  rel_labelDx :: raw_num
  rel_labelDy :: raw_num
  rel_labelSegment :: "int option"

record routed =
  rt_relation :: relation
  rt_index :: nat
  rt_points :: "point list"

definition or_empty :: "string option \<Rightarrow> string" where
  "or_empty v = nullish v []"

datatype relation_identity = Id_key string | Id_id string string string | Id_index nat

definition relationshipIdentity :: "relation option \<Rightarrow> nat \<Rightarrow> relation_identity" where
  "relationshipIdentity r index =
     (case r of
        None \<Rightarrow> Id_index index
      | Some rel \<Rightarrow>
          (case rel_key rel of
             Some k \<Rightarrow> Id_key k
           | None \<Rightarrow> if truthy (rel_id rel) then Id_id (or_empty (rel_from rel)) (or_empty (rel_to rel)) (or_empty (rel_id rel))
                     else Id_index index))"

definition sameRelationship :: "relation option \<Rightarrow> relation option \<Rightarrow> bool" where
  "sameRelationship left right =
     (case (left, right) of
        (Some l, Some r) \<Rightarrow>
          if rel_ref l = rel_ref r then True
          else if rel_key l \<noteq> None \<and> rel_key r \<noteq> None then rel_key l = rel_key r
          else truthy (rel_id l) \<and> truthy (rel_id r) \<and> rel_id l = rel_id r \<and> rel_from l = rel_from r \<and> rel_to l = rel_to r
      | _ \<Rightarrow> False)"

definition truthy_entry :: "string \<Rightarrow> string option \<Rightarrow> (string \<times> json option) list" where
  "truthy_entry k v = (if truthy v then [(k, map_option JStr v)] else [])"

definition relationshipSubject :: "string \<Rightarrow> string \<Rightarrow> nat \<Rightarrow> relation \<Rightarrow> (string \<times> json option) list" where
  "relationshipSubject diagramType collection index r =
     [(''diagramType'', Some (JStr diagramType)), (''collection'', Some (JStr collection)),
      (''index'', Some (JNum (of_nat index)))] @
     truthy_entry ''id'' (rel_id r) @ truthy_entry ''from'' (rel_from r) @ truthy_entry ''to'' (rel_to r)"

definition share_endpoint :: "relation \<Rightarrow> relation \<Rightarrow> bool" where
  "share_endpoint l r = (\<exists>i \<in> {rel_from l, rel_to l}. i = rel_from r \<or> i = rel_to r)"

subsection \<open>Texts\<close>

definition em_dash :: string where
  "em_dash = [CHR 0xE2, CHR 0x80, CHR 0x94]"

definition quote :: string where
  "quote = [CHR 0x22]"

definition quoted :: "string \<Rightarrow> string" where
  "quoted t = quote @ t @ quote"

definition show_nat :: "nat \<Rightarrow> string" where
  "show_nat n = show_int (int n)"

text \<open>\<open>Math.round(value * 10) / 10\<close>\<close>

definition tenths :: "rat \<Rightarrow> rat" where
  "tenths v = of_int (js_round (v * 10)) / 10"

definition real_tenths :: "real \<Rightarrow> rat" where
  "real_tenths v = of_int \<lfloor>v * 10 + 1/2\<rfloor> / 10"

definition tenths_point :: "point \<Rightarrow> string" where
  "tenths_point p = show_num (tenths (fst p)) @ '', '' @ show_num (tenths (snd p))"

definition rounded_point :: "point \<Rightarrow> string" where
  "rounded_point p = show_int (js_round (fst p)) @ '', '' @ show_int (js_round (snd p))"

definition span_text :: "string \<Rightarrow> string \<Rightarrow> string" where
  "span_text a b = ''['' @ a @ ''] -> ['' @ b @ '']''"

definition undefined_text :: "string option \<Rightarrow> string" where
  "undefined_text v = nullish v ''undefined''"

definition describe :: "string \<Rightarrow> relation \<Rightarrow> nat \<Rightarrow> string" where
  "describe collection r index =
     collection @ ''['' @ show_nat index @ '']'' @
     (if truthy (rel_id r) then '' id '' @ quoted (or_empty (rel_id r)) else []) @
     '' '' @ quoted (undefined_text (rel_from r)) @ '' -> '' @ quoted (undefined_text (rel_to r))"

definition json_point :: "point \<Rightarrow> json" where
  "json_point p = JArr [JNum (fst p), JNum (snd p)]"

definition error_diagnostic ::
    "string \<Rightarrow> string \<Rightarrow> (string \<times> json option) list \<Rightarrow> (string \<times> json option) list \<Rightarrow> string \<Rightarrow> raw_diagnostic" where
  "error_diagnostic code message subject evidence hint =
     \<lparr>rd_code = Some code, rd_severity = Some ''error'', rd_message = Some message, rd_subject = Some subject,
      rd_evidence = Some evidence, rd_fixes = Some [hint], rd_suppresses = None\<rparr>"

definition gate :: "raw_diagnostic list \<Rightarrow> diag_state \<Rightarrow> string list \<times> diag_state" where
  "gate ds st = (map (or_empty \<circ> rd_message) ds, fold recordDiagnostic ds st)"

definition formatRect :: "'x rect_scheme \<Rightarrow> string" where
  "formatRect r =
     ''['' @ show_int (js_round (box_x r)) @ '', '' @ show_int (js_round (box_y r)) @ '', '' @
       show_int (js_round (box_w r)) @ '', '' @ show_int (js_round (box_h r)) @ '']''"

definition formatDelta :: "rat \<Rightarrow> string" where
  "formatDelta n = (let v = js_round n in if 0 \<le> v then ''+'' @ show_int v else show_int v)"

definition newline :: string where
  "newline = [CHR 0x0A]"

definition suggestLabelObstacleFix :: "'x rect_scheme \<Rightarrow> rat \<Rightarrow> rat \<Rightarrow> 'y box_scheme \<Rightarrow> string \<Rightarrow> string" where
  "suggestLabelObstacleFix labelRect lx ly obstacle obstacleKind =
     (let lxR = js_round lx; lyR = js_round ly;
          belowY = js_round (box_y obstacle + box_h obstacle + 14);
          aboveY = js_round (box_y obstacle - 4)
      in join_text newline
        [''  label rect: '' @ formatRect labelRect,
         ''  '' @ obstacleKind @ '' '' @ quoted (box_id obstacle) @ '' rect: '' @ formatRect obstacle,
         ''  Suggested fix: labelAt ['' @ show_int lxR @ '', '' @ show_int belowY @ ''] or labelDy '' @
           formatDelta (of_int (belowY - lyR)) @ '' (below); or labelAt ['' @ show_int lxR @ '', '' @ show_int aboveY @
           ''] or labelDy '' @ formatDelta (of_int (aboveY - lyR)) @ '' (above)''])"

definition suggestLabelPairFix :: "string \<Rightarrow> 'x rect_scheme \<Rightarrow> string \<Rightarrow> 'y rect_scheme \<Rightarrow> string" where
  "suggestLabelPairFix labelA a labelB b =
     join_text newline
       [''  '' @ quoted labelA @ '' '' @ formatRect a @ ''; '' @ quoted labelB @ '' '' @ formatRect b,
        ''  Suggested fix: adjust labelDx/labelDy/labelSegment, or route one relationship through a separate corridor'']"

definition suggestComponentSeparation :: "'x box_scheme \<Rightarrow> 'y box_scheme \<Rightarrow> rat \<Rightarrow> string" where
  "suggestComponentSeparation a b minGap =
     (let rightX = js_round (box_x a + box_w a + minGap); belowY = js_round (box_y a + box_h a + minGap)
      in join_text newline
        [''  '' @ quoted (box_id a) @ '' '' @ formatRect a @ ''; '' @ quoted (box_id b) @ '' '' @ formatRect b,
         ''  Suggested fix: move '' @ quoted (box_id b) @ '' pos to ['' @ show_int rightX @ '', '' @
           show_int (js_round (box_y b)) @ ''] (right of '' @ quoted (box_id a) @ '') or ['' @
           show_int (js_round (box_x b)) @ '', '' @ show_int belowY @ ''] (below)''])"

definition polylinePath :: "point list \<Rightarrow> string" where
  "polylinePath points =
     join_text '' '' (map (\<lambda>(index, p). (if index = 0 then ''M'' else ''L'') @ '' '' @ show_num (fst p) @ '' '' @ show_num (snd p))
       (zip [0..<length points] points))"

definition routePointsValue :: "raw_point list \<Rightarrow> string" where
  "routePointsValue points =
     join_text '';'' (map (\<lambda>p. show_num (fst p) @ '','' @ show_num (snd p)) (List.map_filter finite_point points))"

text \<open>\<open>None\<close> is the type error on a route of fewer than two points.\<close>

definition labelPoint :: "relation \<Rightarrow> point list \<Rightarrow> point option" where
  "labelPoint item points =
     (case rel_labelAt item of
        Some p \<Rightarrow> Some p
      | None \<Rightarrow>
          let dx = nullish (rel_labelDx item) 0; dy = nullish (rel_labelDy item) 0
          in if length points = 2
             then Some ((fst (points ! 0) + fst (points ! 1)) / 2 + dx, snd (points ! 0) - 10 + dy)
             else if length points < 2 then None
             else
               let segmentIndex = nat (min (int (length points) - 2) (max 0 (nullish (rel_labelSegment item) 1)));
                   a = points ! segmentIndex; b = points ! (segmentIndex + 1)
               in Some ((fst a + fst b) / 2 + dx, (snd a + snd b) / 2 - 10 + dy))"

definition variantAccent :: "string \<Rightarrow> string \<Rightarrow> string" where
  "variantAccent variant dashed =
     (if variant = ''security'' then ''t-security''
      else if variant = ''emphasis'' then ''t-backend''
      else if variant = ''dashed'' then dashed
      else ''t-muted'')"

subsection \<open>Collectors\<close>

text \<open>
  A relationship with its route, as the gates hand it on; \<open>en_index\<close> is \<open>None\<close> when the entry
  carries no integer index and its position in the list counts.
\<close>

record route_entry =
  en_relation :: "relation option"
  en_index :: "nat option"
  en_points :: "raw_point list"

definition indexed :: "'a list \<Rightarrow> (nat \<times> 'a) list" where
  "indexed xs = zip [0..<length xs] xs"

definition has_ids :: "relation \<Rightarrow> bool" where
  "has_ids r = (rel_from r \<noteq> None \<and> rel_to r \<noteq> None)"

text \<open>The routes of at least two points, with their indices.\<close>

definition routed_of :: "(relation \<Rightarrow> bool) \<Rightarrow> route_entry list \<Rightarrow> routed list" where
  "routed_of eligible entries =
     List.map_filter (\<lambda>(fallback, e).
       case en_relation e of
         None \<Rightarrow> None
       | Some r \<Rightarrow>
           let points = normalizeRoutePoints (en_points e)
           in if eligible r \<and> 2 \<le> length points
              then Some \<lparr>rt_relation = r, rt_index = nullish (en_index e) fallback, rt_points = points\<rparr>
              else None) (indexed entries)"

text \<open>The first element of every identity; \<open>seen\<close> is the set the program keeps.\<close>

primrec first_by :: "('a \<Rightarrow> 'k) \<Rightarrow> 'k set \<Rightarrow> 'a list \<Rightarrow> 'a list" where
  "first_by key seen [] = []"
| "first_by key seen (a # as) =
     (if key a \<in> seen then first_by key seen as else a # first_by key (insert (key a) seen) as)"

record label_entry =
  lb_relation :: "relation option"
  lb_index :: "nat option"
  lb_text :: "string option"
  lb_rect :: raw_rect

record nearest_segment =
  ns_clearance :: real
  ns_intersection :: "real option"
  ns_segmentIndex :: nat
  ns_start :: point
  ns_end :: point

record clearance_hit =
  ch_label :: label_entry
  ch_labelIndex :: nat
  ch_other :: relation
  ch_otherIndex :: nat
  ch_rect :: rect
  ch_nearest :: nearest_segment
  ch_threshold :: rat

definition nearer :: "raw_rect \<Rightarrow> nat \<times> point \<times> point \<Rightarrow> nearest_segment option \<Rightarrow> nearest_segment option" where
  "nearer rr seg nearest =
     (case seg of (index, p, q) \<Rightarrow>
        case segmentRectClearance (raw_of p) (raw_of q) rr of
          None \<Rightarrow> nearest
        | Some clearance \<Rightarrow>
            if (case nearest of None \<Rightarrow> True | Some n \<Rightarrow> clearance < ns_clearance n)
            then Some \<lparr>ns_clearance = clearance, ns_intersection = segmentRectIntersectionLength (raw_of p) (raw_of q) rr,
                       ns_segmentIndex = index, ns_start = p, ns_end = q\<rparr>
            else nearest)"

definition label_hits :: "routed list \<Rightarrow> rat \<Rightarrow> nat \<times> label_entry \<times> rect \<Rightarrow> clearance_hit list" where
  "label_hits routes threshold l =
     (case l of (labelIndex, label, rect) \<Rightarrow>
        List.map_filter (\<lambda>route.
          if labelIndex = rt_index route \<or> sameRelationship (lb_relation label) (Some (rt_relation route)) then None
          else
            (case fold (nearer (lb_rect label)) (segments_from 0 (rt_points route)) None of
               None \<Rightarrow> None
             | Some nearest \<Rightarrow>
                 if of_rat threshold \<le> ns_clearance nearest + of_rat epsilon then None
                 else Some \<lparr>ch_label = label, ch_labelIndex = labelIndex, ch_other = rt_relation route,
                            ch_otherIndex = rt_index route, ch_rect = rect, ch_nearest = nearest, ch_threshold = threshold\<rparr>)) routes)"

definition usable_label :: "nat \<times> label_entry \<Rightarrow> (nat \<times> label_entry \<times> rect) option" where
  "usable_label l =
     (case l of (fallback, label) \<Rightarrow>
        case finite_rect (lb_rect label) of
          None \<Rightarrow> None
        | Some r \<Rightarrow> if box_w r < 0 \<or> box_h r < 0 then None else Some (nullish (lb_index label) fallback, label, r))"

definition collectLabelRouteClearance :: "label_entry list \<Rightarrow> route_entry list \<Rightarrow> raw_num \<Rightarrow> clearance_hit list" where
  "collectLabelRouteClearance labels entries threshold =
     (case threshold of
        None \<Rightarrow> []
      | Some t \<Rightarrow>
          if t < 0 then []
          else
            let routes = first_by (\<lambda>r. relationshipIdentity (Some (rt_relation r)) (rt_index r)) {} (routed_of (\<lambda>_. True) entries);
                usable = first_by (\<lambda>(index, label, _). relationshipIdentity (lb_relation label) index) {}
                  (List.map_filter usable_label (indexed labels))
            in concat (map (label_hits routes t) usable))"

record corridor =
  co_left :: routed
  co_right :: routed
  co_leftSegment :: nat
  co_rightSegment :: nat
  co_length :: rat
  co_start :: point
  co_end :: point

text \<open>All pairs of an element and a later one, in the order of the two loops.\<close>

fun later_pairs :: "'a list \<Rightarrow> ('a \<times> 'a) list" where
  "later_pairs [] = []"
| "later_pairs (a # as) = map (Pair a) as @ later_pairs as"

definition longer_corridor :: "rat \<Rightarrow> routed \<Rightarrow> routed \<Rightarrow> (nat \<times> point \<times> point) \<times> (nat \<times> point \<times> point) \<Rightarrow> corridor option \<Rightarrow> corridor option" where
  "longer_corridor minOverlapPx left right segs longest =
     (case segs of ((i, a, b), (j, c, d)) \<Rightarrow>
        case collinearAxisOverlap a b c d of
          None \<Rightarrow> longest
        | Some ov \<Rightarrow>
            if ov_length ov + epsilon < minOverlapPx then longest
            else if (case longest of None \<Rightarrow> True | Some l \<Rightarrow> co_length l + epsilon < ov_length ov)
            then Some \<lparr>co_left = left, co_right = right, co_leftSegment = i, co_rightSegment = j,
                       co_length = ov_length ov, co_start = ov_start ov, co_end = ov_end ov\<rparr>
            else longest)"

definition pair_corridor :: "rat \<Rightarrow> routed \<times> routed \<Rightarrow> corridor option" where
  "pair_corridor minOverlapPx p =
     (case p of (left, right) \<Rightarrow>
        if share_endpoint (rt_relation left) (rt_relation right) then None
        else fold (longer_corridor minOverlapPx left right)
               (List.product (segments_from 0 (rt_points left)) (segments_from 0 (rt_points right))) None)"

definition collectAmbiguousCorridors :: "route_entry list \<Rightarrow> rat \<Rightarrow> corridor list" where
  "collectAmbiguousCorridors entries minOverlapPx =
     List.map_filter (pair_corridor minOverlapPx) (later_pairs (routed_of has_ids entries))"

subsection \<open>Structural frames\<close>

datatype border_side = Border_line | Border_top | Border_right | Border_bottom | Border_left

fun border_text :: "border_side \<Rightarrow> string" where
  "border_text Border_line = ''line''"
| "border_text Border_top = ''top''"
| "border_text Border_right = ''right''"
| "border_text Border_bottom = ''bottom''"
| "border_text Border_left = ''left''"

datatype frame_shape = Frame_line raw_num raw_num raw_num raw_num | Frame_rect raw_rect raw_num

record frame =
  fr_kind :: "string option"
  fr_shape :: "string option"
  fr_label :: "string option"
  fr_id :: "string option"
  fr_geometry :: frame_shape

record border =
  bo_side :: border_side
  bo_start :: point
  bo_end :: point

definition rect_borders :: "rect \<Rightarrow> rat \<Rightarrow> border list" where
  "rect_borders r radius0 =
     (let radius = max 0 (min (min radius0 (box_w r / 2)) (box_h r / 2));
          left = box_x r; right = box_x r + box_w r; top = box_y r; bottom = box_y r + box_h r
      in filter (\<lambda>b. \<not> hypot_le (fst (bo_end b) - fst (bo_start b)) (snd (bo_end b) - snd (bo_start b)) epsilon)
        [\<lparr>bo_side = Border_top, bo_start = (left + radius, top), bo_end = (right - radius, top)\<rparr>,
         \<lparr>bo_side = Border_right, bo_start = (right, top + radius), bo_end = (right, bottom - radius)\<rparr>,
         \<lparr>bo_side = Border_bottom, bo_start = (right - radius, bottom), bo_end = (left + radius, bottom)\<rparr>,
         \<lparr>bo_side = Border_left, bo_start = (left, bottom - radius), bo_end = (left, top + radius)\<rparr>])"

definition frameBorderSegments :: "frame \<Rightarrow> border list" where
  "frameBorderSegments f =
     (case fr_geometry f of
        Frame_line x1 y1 x2 y2 \<Rightarrow>
          (case (finite_point (Some [x1, y1]), finite_point (Some [x2, y2])) of
             (Some a, Some b) \<Rightarrow> [\<lparr>bo_side = Border_line, bo_start = a, bo_end = b\<rparr>]
           | _ \<Rightarrow> [])
      | Frame_rect rr radius \<Rightarrow>
          (case finite_rect rr of
             None \<Rightarrow> []
           | Some r \<Rightarrow> if box_w r \<le> 0 \<or> box_h r \<le> 0 then [] else rect_borders r (nullish radius 0)))"

type_synonym interval = "rat \<times> rat"

text \<open>The merging loop; the array is kept in reverse.\<close>

primrec merge_intervals :: "interval list \<Rightarrow> interval list \<Rightarrow> interval list" where
  "merge_intervals [] acc = acc"
| "merge_intervals (i # is) acc =
     merge_intervals is
       (case acc of
          [] \<Rightarrow> [i]
        | previous # rest \<Rightarrow>
            if fst i \<le> snd previous + epsilon then (fst previous, max (snd previous) (snd i)) # rest else i # acc)"

definition merged_intervals :: "interval list \<Rightarrow> interval list" where
  "merged_intervals is = rev (merge_intervals (sort is) [])"

definition mergeBorderOverlaps :: "axis_overlap list \<Rightarrow> border \<Rightarrow> (interval \<times> axis_overlap) list" where
  "mergeBorderOverlaps overlaps b =
     (let horiz = \<bar>snd (bo_start b) - snd (bo_end b)\<bar> \<le> epsilon;
          axis = (if horiz then fst else snd);
          fixed = (if horiz then snd (bo_start b) else fst (bo_start b));
          intervals = map (\<lambda>ov. (min (axis (ov_start ov)) (axis (ov_end ov)), max (axis (ov_start ov)) (axis (ov_end ov)))) overlaps
      in map (\<lambda>(low, high). ((low, high),
           \<lparr>ov_length = high - low,
            ov_start = (if horiz then (low, fixed) else (fixed, low)),
            ov_end = (if horiz then (high, fixed) else (fixed, high))\<rparr>)) (merged_intervals intervals))"

record border_run =
  br_relation :: "relation option"
  br_index :: nat
  br_frame :: frame
  br_frameIndex :: nat
  br_side :: border_side
  br_segmentIndex :: nat
  br_length :: rat
  br_start :: point
  br_end :: point

text \<open>The finite segments of a route, \<open>None\<close> when one of them is malformed.\<close>

fun route_segments :: "nat \<Rightarrow> raw_point list \<Rightarrow> (nat \<times> point \<times> point) list option" where
  "route_segments i (p # q # ps) =
     (case (finite_point p, finite_point q, route_segments (i + 1) (q # ps)) of
        (Some a, Some b, Some rest) \<Rightarrow> Some ((i, a, b) # rest)
      | _ \<Rightarrow> None)"
| "route_segments i ps = Some []"

definition border_hit :: "route_entry \<Rightarrow> nat \<Rightarrow> (nat \<times> point \<times> point) list \<Rightarrow> nat \<times> frame \<Rightarrow> border \<Rightarrow> border_run option" where
  "border_hit e index segments fr b =
     (let overlaps = List.map_filter (\<lambda>(i, p, q).
            case collinearAxisOverlap p q (bo_start b) (bo_end b) of
              None \<Rightarrow> None
            | Some ov \<Rightarrow> if ov_length ov \<le> epsilon then None else Some (i, ov)) segments
      in if overlaps = [] then None
         else
           let merged = mergeBorderOverlaps (map snd overlaps) b;
               longest = snd (hd (sort_key (\<lambda>((low, _), ov). (- ov_length ov, low)) merged))
           in Some \<lparr>br_relation = en_relation e, br_index = index, br_frame = snd fr, br_frameIndex = fst fr, br_side = bo_side b,
                    br_segmentIndex = Min (set (map fst overlaps)),
                    br_length = sum_list (map (ov_length \<circ> snd) merged),
                    br_start = ov_start longest, br_end = ov_end longest\<rparr>)"

definition collectBorderRuns :: "route_entry list \<Rightarrow> frame list \<Rightarrow> border_run list" where
  "collectBorderRuns entries frames =
     concat (map (\<lambda>(fallback, e).
       case route_segments 0 (en_points e) of
         None \<Rightarrow> []
       | Some [] \<Rightarrow> []
       | Some segments \<Rightarrow>
           concat (map (\<lambda>fr. List.map_filter (border_hit e (nullish (en_index e) fallback) segments fr)
             (frameBorderSegments (snd fr))) (indexed frames))) (indexed entries))"

record rhythm_hit =
  rh_relation :: "relation option"
  rh_index :: nat
  rh_issue :: rhythm_issue

definition collectRouteRhythmIssues :: "route_entry list \<Rightarrow> rat \<Rightarrow> rat \<Rightarrow> rhythm_hit list" where
  "collectRouteRhythmIssues entries interiorPx microPx =
     concat (map (\<lambda>(fallback, e).
       map (\<lambda>issue. \<lparr>rh_relation = en_relation e, rh_index = nullish (en_index e) fallback, rh_issue = issue\<rparr>)
         (route_issues interiorPx microPx (en_points e))) (indexed entries))"

subsection \<open>Gates\<close>

text \<open>The quality profile: an environment variable overrides one that is not authoritative.\<close>

definition qualityProfileForGate :: "string option \<Rightarrow> string option \<Rightarrow> bool \<Rightarrow> string option" where
  "qualityProfileForGate env profile authoritative =
     (if authoritative then profile else if truthy env then env else profile)"

definition collectEligibleRoutedRelations :: "relation list \<Rightarrow> string set option \<Rightarrow> (relation \<Rightarrow> raw_point list option) \<Rightarrow> route_entry list" where
  "collectEligibleRoutedRelations relations endpointIds pathFor =
     List.map_filter (\<lambda>(index, r).
       case (rel_from r, rel_to r) of
         (Some from, Some to) \<Rightarrow>
           if (case endpointIds of None \<Rightarrow> True | Some ids \<Rightarrow> from \<in> ids \<and> to \<in> ids)
           then Some \<lparr>en_relation = Some r, en_index = Some index, en_points = nullish (pathFor r) []\<rparr>
           else None
       | _ \<Rightarrow> None) (indexed relations)"

text \<open>What every gate is told about the diagram.\<close>

record diagram =
  dm_type :: string
  dm_collection :: string
  dm_relations :: "relation list"
  dm_endpointIds :: "string set"
  dm_pathFor :: "relation \<Rightarrow> raw_point list option"
  dm_hint :: string

definition known_endpoints :: "diagram \<Rightarrow> relation \<Rightarrow> bool" where
  "known_endpoints D r =
     (case (rel_from r, rel_to r) of (Some from, Some to) \<Rightarrow> from \<in> dm_endpointIds D \<and> to \<in> dm_endpointIds D | _ \<Rightarrow> False)"

definition showcase :: "string option \<Rightarrow> string option \<Rightarrow> bool \<Rightarrow> bool" where
  "showcase env profile authoritative = (qualityProfileForGate env profile authoritative = Some ''showcase'')"

definition side_diagnostic :: "diagram \<Rightarrow> nat \<Rightarrow> relation \<Rightarrow> side_issue \<times> bool \<Rightarrow> raw_diagnostic" where
  "side_diagnostic D index r i =
     (case i of (issue, authored) \<Rightarrow>
        let authoredField = (if si_endpoint issue = Source then ''fromSide'' else ''toSide'');
            sideField = (if authored then authoredField else ''inferred '' @ authoredField);
            segmentRole = (if si_endpoint issue = Source then ''first'' else ''final'');
            message = ''[clean-flow/endpoint-side-direction] '' @ dm_type D @ '' '' @ describe (dm_collection D) r index @ '' '' @
              segmentRole @ '' segment '' @ show_nat (si_segmentIndex issue) @ '' '' @
              span_text (tenths_point (si_start issue)) (tenths_point (si_end issue)) @ '' does not honor '' @ sideField @ '' '' @
              quoted (side_text (si_side issue)) @ '' '' @ em_dash @ '' it must run '' @ si_expectedAxis issue @ '' '' @
              si_expectedDirection issue @ ''; '' @ dm_hint D @ ''.''
        in error_diagnostic ''clean-flow/endpoint-side-direction'' message
             (relationshipSubject (dm_type D) (dm_collection D) index r)
             [(''endpoint'', Some (JStr (if si_endpoint issue = Source then ''source'' else ''target''))),
              (''authoredField'', Some (JStr authoredField)),
              (''sideOrigin'', Some (JStr (if authored then ''authored'' else ''inferred''))),
              (''side'', Some (JStr (side_text (si_side issue)))),
              (''segmentIndex'', Some (JNum (of_nat (si_segmentIndex issue)))),
              (''from'', Some (json_point (si_start issue))), (''to'', Some (json_point (si_end issue))),
              (''expectedAxis'', Some (JStr (si_expectedAxis issue))),
              (''expectedDirection'', Some (JStr (si_expectedDirection issue)))]
             (dm_hint D))"

text \<open>
  The sides to check: the author's, or for a route without authored geometry the ones the
  renderer infers. The flag says whether the side is the author's.
\<close>

definition checked_side :: "side option \<Rightarrow> bool \<Rightarrow> (relation \<Rightarrow> side option) option \<Rightarrow> relation \<Rightarrow> (side \<times> bool) option" where
  "checked_side authored hasGeometry sideFor r =
     (case authored of
        Some s \<Rightarrow> Some (s, True)
      | None \<Rightarrow> (case sideFor of
                    None \<Rightarrow> None
                  | Some f \<Rightarrow> if hasGeometry then None else map_option (\<lambda>s. (s, False)) (f r)))"

definition cleanEndpointSideProblems ::
    "diagram \<Rightarrow> (relation \<Rightarrow> side option) option \<Rightarrow> (relation \<Rightarrow> side option) option \<Rightarrow> (relation \<Rightarrow> nat \<Rightarrow> bool) \<Rightarrow> raw_diagnostic list" where
  "cleanEndpointSideProblems D fromSideFor toSideFor shouldCheck =
     concat (map (\<lambda>(index, r).
       if \<not> known_endpoints D r \<or> \<not> shouldCheck r index then []
       else
         (case dm_pathFor D r of
            None \<Rightarrow> []
          | Some points \<Rightarrow>
              if length points < 2 then []
              else
                let hasGeometry = (truthy (rel_route r) \<and> rel_route r \<noteq> Some ''auto'') \<or> rel_via r \<noteq> None;
                    check = (\<lambda>ep sd. Option.bind sd (\<lambda>(s, authored).
                       map_option (\<lambda>issue. (issue, authored)) (endpointSideIssue points ep (Some s))));
                    issues = List.map_filter id
                      [check Source (checked_side (rel_fromSide r) hasGeometry fromSideFor r),
                       check Target (checked_side (rel_toSide r) hasGeometry toSideFor r)]
                in map (side_diagnostic D index r) issues)) (indexed (dm_relations D)))"

record obstacle =
  ob_id :: string
  ob_rect :: raw_rect

text \<open>All points of a path, when all of them are finite and there are at least two.\<close>

definition finite_path :: "raw_point list option \<Rightarrow> point list option" where
  "finite_path path =
     (case path of
        None \<Rightarrow> None
      | Some points \<Rightarrow>
          if 2 \<le> length points \<and> list_all (\<lambda>p. finite_point p \<noteq> None) points
          then Some (map (the \<circ> finite_point) points) else None)"

definition flow_diagnostic :: "diagram \<Rightarrow> string \<Rightarrow> rat \<Rightarrow> nat \<Rightarrow> relation \<Rightarrow> obstacle \<Rightarrow> nat \<times> point \<times> point \<Rightarrow> raw_diagnostic" where
  "flow_diagnostic D obstacleKind clearance index r ob seg =
     (case seg of (hitSegment, p, q) \<Rightarrow>
        let message = ''[clean-flow/edge-through-node] '' @ dm_type D @ '' '' @ describe (dm_collection D) r index @ '' crosses '' @
              obstacleKind @ '' '' @ quoted (ob_id ob) @ '' (unrelated to this relationship) on segment '' @ show_nat hitSegment @ '' '' @
              span_text (rounded_point p) (rounded_point q) @ '' ('' @ show_num clearance @ ''px clearance) '' @ em_dash @ '' '' @ dm_hint D @ ''.''
        in error_diagnostic ''clean-flow/edge-through-node'' message
             (relationshipSubject (dm_type D) (dm_collection D) index r)
             [(''obstacleKind'', Some (JStr obstacleKind)), (''obstacleId'', Some (JStr (ob_id ob))),
              (''segmentIndex'', Some (JNum (of_nat hitSegment))), (''from'', Some (json_point p)), (''to'', Some (json_point q)),
              (''clearancePx'', Some (JNum clearance))]
             (dm_hint D))"

definition first_hit :: "rat \<Rightarrow> rect \<Rightarrow> point list \<Rightarrow> (nat \<times> point \<times> point) option" where
  "first_hit clearance r points = List.find (\<lambda>(_, p, q). segmentIntersectsRect p q r clearance) (segments_from 0 points)"

definition cleanFlowProblems :: "diagram \<Rightarrow> obstacle list \<Rightarrow> string \<Rightarrow> rat \<Rightarrow> raw_diagnostic list" where
  "cleanFlowProblems D obstacles obstacleKind clearance =
     concat (map (\<lambda>(index, r).
       case (rel_from r, rel_to r) of
         (Some from, Some to) \<Rightarrow>
           if from \<notin> ob_id ` set obstacles \<or> to \<notin> ob_id ` set obstacles then []
           else
             (case finite_path (dm_pathFor D r) of
                None \<Rightarrow> []
              | Some points \<Rightarrow>
                  List.map_filter (\<lambda>ob.
                    if ob_id ob \<in> {from, to} then None
                    else
                      (case finite_rect (ob_rect ob) of
                         None \<Rightarrow> None
                       | Some rc \<Rightarrow> map_option (flow_diagnostic D obstacleKind clearance index r ob) (first_hit clearance rc points))) obstacles)
       | _ \<Rightarrow> []) (indexed (dm_relations D)))"

record analysed =
  an_relation :: relation
  an_index :: nat
  an_segments :: "analysis_segment list"

definition analysed_relations :: "diagram \<Rightarrow> bool \<Rightarrow> analysed list" where
  "analysed_relations D mergeForward =
     List.map_filter (\<lambda>(index, r).
       if \<not> known_endpoints D r then None
       else
         (case finite_path (dm_pathFor D r) of
            None \<Rightarrow> None
          | Some points \<Rightarrow>
              Some \<lparr>an_relation = r, an_index = index,
                    an_segments = (if mergeForward then forwardCollinearAnalysisSegments (map raw_of points)
                                   else authoredAnalysisSegments (map raw_of points))\<rparr>)) (indexed (dm_relations D))"

record crossing =
  cr_point :: point
  cr_leftSegment :: nat
  cr_rightSegment :: nat

definition segment_crossing :: "analysis_segment \<times> analysis_segment \<Rightarrow> crossing option" where
  "segment_crossing segs =
     (case segs of (l, r) \<Rightarrow>
        case (finite_point (as_start l), finite_point (as_end l), finite_point (as_start r), finite_point (as_end r)) of
          (Some a, Some b, Some c, Some d) \<Rightarrow>
            map_option (\<lambda>p. \<lparr>cr_point = p, cr_leftSegment = sourceSegmentIndexAtPoint l p,
                             cr_rightSegment = sourceSegmentIndexAtPoint r p\<rparr>) (properSegmentIntersection a b c d)
        | _ \<Rightarrow> None)"

definition first_crossing :: "analysed \<Rightarrow> analysed \<Rightarrow> crossing option" where
  "first_crossing left right =
     (case List.map_filter segment_crossing (List.product (an_segments left) (an_segments right)) of
        [] \<Rightarrow> None
      | hit # _ \<Rightarrow> Some hit)"

definition crossing_diagnostic :: "diagram \<Rightarrow> analysed \<Rightarrow> analysed \<Rightarrow> crossing \<Rightarrow> raw_diagnostic" where
  "crossing_diagnostic D left right hit =
     (let message = ''[composition/proper-crossing] showcase '' @ dm_type D @ '' '' @
            describe (dm_collection D) (an_relation left) (an_index left) @ '' crosses '' @
            describe (dm_collection D) (an_relation right) (an_index right) @ '' at ['' @ tenths_point (cr_point hit) @
            ''] (segments '' @ show_nat (cr_leftSegment hit) @ '' and '' @ show_nat (cr_rightSegment hit) @ '') '' @ em_dash @ '' '' @
            dm_hint D @ ''.''
      in error_diagnostic ''composition/proper-crossing'' message
           (relationshipSubject (dm_type D) (dm_collection D) (an_index left) (an_relation left))
           [(''otherRelationship'', Some (JObj (plainObject (Some (relationshipSubject (dm_type D) (dm_collection D) (an_index right) (an_relation right)))))),
            (''point'', Some (json_point (cr_point hit))),
            (''segmentIndex'', Some (JNum (of_nat (cr_leftSegment hit)))),
            (''otherSegmentIndex'', Some (JNum (of_nat (cr_rightSegment hit))))]
           (dm_hint D))"

definition cleanCrossingProblems :: "diagram \<Rightarrow> string option \<Rightarrow> string option \<Rightarrow> bool \<Rightarrow> bool \<Rightarrow> raw_diagnostic list" where
  "cleanCrossingProblems D env profile authoritative mergeForward =
     (if \<not> showcase env profile authoritative then []
      else List.map_filter (\<lambda>(left, right).
             if share_endpoint (an_relation left) (an_relation right) then None
             else map_option (crossing_diagnostic D left right) (first_crossing left right))
           (later_pairs (analysed_relations D mergeForward)))"

definition eligible_of :: "diagram \<Rightarrow> route_entry list" where
  "eligible_of D = collectEligibleRoutedRelations (dm_relations D) (Some (dm_endpointIds D)) (dm_pathFor D)"

definition corridor_diagnostic :: "diagram \<Rightarrow> rat \<Rightarrow> corridor \<Rightarrow> raw_diagnostic" where
  "corridor_diagnostic D minOverlapPx hit =
     (let l = co_left hit; r = co_right hit;
          message = ''[composition/ambiguous-corridor] showcase '' @ dm_type D @ '' '' @
            describe (dm_collection D) (rt_relation l) (rt_index l) @ '' shares a '' @ show_num (tenths (co_length hit)) @
            ''px corridor with '' @ describe (dm_collection D) (rt_relation r) (rt_index r) @ '' at '' @
            span_text (tenths_point (co_start hit)) (tenths_point (co_end hit)) @ '' (segments '' @ show_nat (co_leftSegment hit) @
            '' and '' @ show_nat (co_rightSegment hit) @ ''; minimum '' @ show_num minOverlapPx @ ''px) '' @ em_dash @ '' '' @ dm_hint D @ ''.''
      in error_diagnostic ''composition/ambiguous-corridor'' message
           (relationshipSubject (dm_type D) (dm_collection D) (rt_index l) (rt_relation l))
           [(''otherRelationship'', Some (JObj (plainObject (Some (relationshipSubject (dm_type D) (dm_collection D) (rt_index r) (rt_relation r)))))),
            (''overlapLengthPx'', Some (JNum (tenths (co_length hit)))), (''minimumPx'', Some (JNum minOverlapPx)),
            (''from'', Some (json_point (co_start hit))), (''to'', Some (json_point (co_end hit))),
            (''segmentIndex'', Some (JNum (of_nat (co_leftSegment hit)))),
            (''otherSegmentIndex'', Some (JNum (of_nat (co_rightSegment hit))))]
           (dm_hint D))"

definition cleanAmbiguousCorridorProblems :: "diagram \<Rightarrow> string option \<Rightarrow> string option \<Rightarrow> bool \<Rightarrow> rat \<Rightarrow> raw_diagnostic list" where
  "cleanAmbiguousCorridorProblems D env profile authoritative minOverlapPx =
     (if \<not> showcase env profile authoritative then []
      else map (corridor_diagnostic D minOverlapPx) (collectAmbiguousCorridors (eligible_of D) minOverlapPx))"

definition no_relation :: relation where
  "no_relation = \<lparr>rel_ref = 0, rel_key = None, rel_id = None, rel_from = None, rel_to = None, rel_label = None,
     rel_fromSide = None, rel_toSide = None, rel_route = None, rel_via = None, rel_channelX = None, rel_channelY = None,
     rel_labelAt = None, rel_labelDx = None, rel_labelDy = None, rel_labelSegment = None\<rparr>"

definition or_text2 :: "string option \<Rightarrow> string option \<Rightarrow> string \<Rightarrow> string" where
  "or_text2 a b d = (if truthy a then or_empty a else if truthy b then or_empty b else d)"

definition border_diagnostic :: "diagram \<Rightarrow> border_run \<Rightarrow> raw_diagnostic" where
  "border_diagnostic D hit =
     (let r = nullish (br_relation hit) no_relation; f = br_frame hit;
          frameKind = or_text2 (fr_kind f) (fr_shape f) ''frame'';
          frameIdentity = or_text2 (fr_label f) (fr_id f) (show_nat (br_frameIndex hit));
          message = ''[composition/container-border-run] '' @ dm_type D @ '' '' @ describe (dm_collection D) r (br_index hit) @
            '' follows '' @ frameKind @ '' '' @ quoted frameIdentity @ '' '' @ border_text (br_side hit) @ '' border for '' @
            show_num (tenths (br_length hit)) @ ''px on segment '' @ show_nat (br_segmentIndex hit) @ '' '' @
            span_text (tenths_point (br_start hit)) (tenths_point (br_end hit)) @ '' '' @ em_dash @ '' '' @ dm_hint D @ ''.''
      in error_diagnostic ''composition/container-border-run'' message
           (relationshipSubject (dm_type D) (dm_collection D) (br_index hit) r)
           [(''frameKind'', Some (JStr frameKind)), (''frameId'', map_option JStr (fr_id f)), (''frameLabel'', map_option JStr (fr_label f)),
            (''side'', Some (JStr (border_text (br_side hit)))), (''segmentIndex'', Some (JNum (of_nat (br_segmentIndex hit)))),
            (''overlapLengthPx'', Some (JNum (tenths (br_length hit)))),
            (''from'', Some (json_point (br_start hit))), (''to'', Some (json_point (br_end hit)))]
           (dm_hint D))"

definition cleanBorderRunProblems :: "diagram \<Rightarrow> frame list \<Rightarrow> string option \<Rightarrow> string option \<Rightarrow> bool \<Rightarrow> raw_diagnostic list" where
  "cleanBorderRunProblems D frames env profile authoritative =
     (if \<not> truthy (qualityProfileForGate env profile authoritative) then []
      else map (border_diagnostic D) (collectBorderRuns (eligible_of D) frames))"

fun rhythm_text :: "rhythm_code \<Rightarrow> string" where
  "rhythm_text Micro_segment = ''composition/micro-segment''"
| "rhythm_text Short_interior_segment = ''composition/short-interior-segment''"

definition rhythm_diagnostic :: "diagram \<Rightarrow> rat \<Rightarrow> rat \<Rightarrow> rhythm_hit \<Rightarrow> raw_diagnostic" where
  "rhythm_diagnostic D interiorPx microPx hit =
     (let r = nullish (rh_relation hit) no_relation; i = rh_issue hit; code = rhythm_text (ri_code i);
          rule = (if ri_code i = Micro_segment then ''is below the '' @ show_num microPx @ ''px micro-segment floor''
                  else ''is below the '' @ show_num interiorPx @ ''px interior-segment floor'');
          message = ''['' @ code @ ''] showcase '' @ dm_type D @ '' '' @ describe (dm_collection D) r (rh_index hit) @ '' has a '' @
            show_num (tenths (ri_length i)) @ ''px '' @ position_text (ri_position i) @ '' segment '' @ show_nat (ri_segmentIndex i) @ '' '' @
            span_text (tenths_point (ri_start i)) (tenths_point (ri_end i)) @ '' that '' @ rule @ '' '' @ em_dash @ '' '' @ dm_hint D @ ''.''
      in error_diagnostic code message
           (relationshipSubject (dm_type D) (dm_collection D) (rh_index hit) r)
           [(''segmentIndex'', Some (JNum (of_nat (ri_segmentIndex i)))), (''position'', Some (JStr (position_text (ri_position i)))),
            (''lengthPx'', Some (JNum (tenths (ri_length i)))),
            (''minimumPx'', Some (JNum (if ri_code i = Micro_segment then microPx else interiorPx))),
            (''from'', Some (json_point (ri_start i))), (''to'', Some (json_point (ri_end i)))]
           (dm_hint D))"

definition cleanRouteRhythmProblems :: "diagram \<Rightarrow> string option \<Rightarrow> string option \<Rightarrow> bool \<Rightarrow> rat \<Rightarrow> rat \<Rightarrow> raw_diagnostic list" where
  "cleanRouteRhythmProblems D env profile authoritative interiorPx microPx =
     (if \<not> showcase env profile authoritative then []
      else map (rhythm_diagnostic D interiorPx microPx) (collectRouteRhythmIssues (eligible_of D) interiorPx microPx))"

definition describe_labelled :: "string \<Rightarrow> relation \<Rightarrow> nat \<Rightarrow> string" where
  "describe_labelled collection r index =
     describe collection r index @ (if truthy (rel_label r) then '' label '' @ quoted (or_empty (rel_label r)) else [])"

definition clearance_diagnostic :: "diagram \<Rightarrow> clearance_hit \<Rightarrow> raw_diagnostic" where
  "clearance_diagnostic D hit =
     (let l = nullish (lb_relation (ch_label hit)) no_relation; n = ch_nearest hit;
          label = or_text2 (lb_text (ch_label hit)) (rel_label l) [];
          clearance = real_tenths (ns_clearance n); r = ch_rect hit;
          message = ''[composition/label-route-clearance] showcase '' @ dm_type D @ '' label '' @ quoted label @ '' on '' @
            describe_labelled (dm_collection D) l (ch_labelIndex hit) @ '' is '' @ show_num clearance @ ''px from '' @
            describe_labelled (dm_collection D) (ch_other hit) (ch_otherIndex hit) @ '' segment '' @ show_nat (ns_segmentIndex n) @ '' '' @
            span_text (tenths_point (ns_start n)) (tenths_point (ns_end n)) @ '' (label rect '' @ formatRect r @ ''; minimum '' @
            show_num (ch_threshold hit) @ ''px) '' @ em_dash @ '' '' @ dm_hint D @ ''.''
      in error_diagnostic ''composition/label-route-clearance'' message
           (relationshipSubject (dm_type D) (dm_collection D) (ch_labelIndex hit) l)
           [(''label'', Some (JStr label)),
            (''otherRelationship'', Some (JObj (plainObject (Some (relationshipSubject (dm_type D) (dm_collection D) (ch_otherIndex hit) (ch_other hit)))))),
            (''segmentIndex'', Some (JNum (of_nat (ns_segmentIndex n)))), (''clearancePx'', Some (JNum clearance)),
            (''minimumPx'', Some (JNum (ch_threshold hit))),
            (''labelRect'', Some (JObj [(''x'', JNum (box_x r)), (''y'', JNum (box_y r)), (''width'', JNum (box_w r)), (''height'', JNum (box_h r))])),
            (''from'', Some (json_point (ns_start n))), (''to'', Some (json_point (ns_end n)))]
           (dm_hint D))"

definition cleanLabelRouteClearanceProblems ::
    "diagram \<Rightarrow> label_entry list \<Rightarrow> string option \<Rightarrow> string option \<Rightarrow> bool \<Rightarrow> raw_num \<Rightarrow> raw_diagnostic list" where
  "cleanLabelRouteClearanceProblems D labels env profile authoritative threshold =
     (if \<not> showcase env profile authoritative then []
      else map (clearance_diagnostic D) (collectLabelRouteClearance labels (eligible_of D) threshold))"

subsection \<open>Spreading the ports\<close>

record port_item =
  pi_relation :: relation
  pi_endpoint :: endpoint
  pi_rect :: box
  pi_side :: side
  pi_counterpart :: box

definition automatic_route :: "relation \<Rightarrow> bool" where
  "automatic_route r =
     (\<not> (truthy (rel_route r) \<and> rel_route r \<noteq> Some ''auto'') \<and> rel_via r = None \<and> rel_channelX r = None \<and>
      rel_channelY r = None \<and> rel_labelAt r = None)"

text \<open>\<open>sideFor\<close> is the renderer's choice of a side, when it has one.\<close>

definition port_items :: "(string, box) jsmap \<Rightarrow> (relation \<Rightarrow> endpoint \<Rightarrow> side option) \<Rightarrow> relation \<Rightarrow> port_item list" where
  "port_items boxes sideFor r =
     (if \<not> automatic_route r then []
      else
        (case (Option.bind (rel_from r) (jget boxes), Option.bind (rel_to r) (jget boxes)) of
           (Some from, Some to) \<Rightarrow>
             let fromSide = chosenSide (rel_fromSide r) (nullish (sideFor r Source) (defaultFromSide from to));
                 toSide = chosenSide (rel_toSide r) (nullish (sideFor r Target) (defaultToSide from to))
             in [\<lparr>pi_relation = r, pi_endpoint = Source, pi_rect = from, pi_side = fromSide, pi_counterpart = to\<rparr>,
                 \<lparr>pi_relation = r, pi_endpoint = Target, pi_rect = to, pi_side = toSide, pi_counterpart = from\<rparr>]
         | _ \<Rightarrow> []))"

definition add_item :: "port_item \<Rightarrow> (string \<times> side, port_item list) jsmap \<Rightarrow> (string \<times> side, port_item list) jsmap" where
  "add_item i groups =
     (let key = (box_id (pi_rect i), pi_side i) in jset groups key (nullish (jget groups key) [] @ [i]))"

definition codes :: "string \<Rightarrow> nat list" where
  "codes t = map of_char t"

definition item_key :: "port_item \<Rightarrow> string" where
  "item_key i = (let r = pi_relation i; z = [CHR 0x00] in
     or_empty (rel_id r) @ z @ undefined_text (rel_from r) @ z @ undefined_text (rel_to r) @ z @ or_empty (rel_label r))"

definition vertical_side :: "side \<Rightarrow> bool" where
  "vertical_side s = (s = Left \<or> s = Right)"

definition port_order :: "port_item list \<Rightarrow> port_item list" where
  "port_order items =
     sort_key (\<lambda>i. (if vertical_side (pi_side (hd items)) then box_cy (pi_counterpart i) else box_cx (pi_counterpart i),
       codes (item_key i))) items"

type_synonym port_map = "(nat \<times> endpoint, point) jsmap"

definition place_port :: "bool \<Rightarrow> nat \<Rightarrow> rat \<Rightarrow> nat \<times> port_item \<Rightarrow> port_map \<Rightarrow> port_map" where
  "place_port vertical n spacing item spread =
     (case item of (index, i) \<Rightarrow>
        let offset = (of_nat index - (of_nat n - 1) / 2) * spacing;
            p = anchor (pi_rect i) (Some (pi_side i))
        in jset spread (rel_ref (pi_relation i), pi_endpoint i)
             (if vertical then (fst p, snd p + offset) else (fst p + offset, snd p)))"

definition spread_group :: "rat \<Rightarrow> rat \<Rightarrow> port_item list \<Rightarrow> port_map \<Rightarrow> port_map" where
  "spread_group gutter maxSpacing items0 spread =
     (if length items0 < 2 then spread
      else
        let vertical = vertical_side (pi_side (hd items0));
            items = port_order items0;
            extent = (if vertical then box_h (pi_rect (hd items)) else box_w (pi_rect (hd items)));
            usable = max 0 (extent - gutter * 2);
            spacing = min maxSpacing (usable / (of_nat (length items) - 1))
        in if \<not> 0 < spacing then spread
           else fold (place_port vertical (length items) spacing) (indexed items) spread)"

definition automaticPortSpread ::
    "relation list \<Rightarrow> (string, box) jsmap \<Rightarrow> rat \<Rightarrow> rat \<Rightarrow> (relation \<Rightarrow> endpoint \<Rightarrow> side option) \<Rightarrow> port_map" where
  "automaticPortSpread relations boxes gutter maxSpacing sideFor =
     fold (spread_group gutter maxSpacing) (jvalues (fold add_item (concat (map (port_items boxes sideFor) relations)) [])) []"

subsection \<open>Merged borders\<close>

definition before :: "interval \<Rightarrow> interval \<Rightarrow> bool" where
  "before i j = (snd i + epsilon < fst j)"

definition covers :: "interval \<Rightarrow> interval \<Rightarrow> bool" where
  "covers j i = (fst j \<le> fst i \<and> snd i \<le> snd j)"

lemma before_trans: "before i j \<Longrightarrow> fst j \<le> snd j \<Longrightarrow> before j k \<Longrightarrow> before i k"
  by (simp add: before_def epsilon_def)

lemma merge_step:
  assumes "sorted_wrt (\<lambda>j i. before i j) acc" "\<forall>k \<in> set acc. fst k \<le> snd k \<and> fst k \<le> fst i" "fst i \<le> snd i"
  defines "acc' \<equiv> (case acc of [] \<Rightarrow> [i] | previous # rest \<Rightarrow>
     if fst i \<le> snd previous + epsilon then (fst previous, max (snd previous) (snd i)) # rest else i # acc)"
  shows "sorted_wrt (\<lambda>j i. before i j) acc'" "\<forall>k \<in> set acc'. fst k \<le> snd k \<and> fst k \<le> fst i"
    "\<forall>k \<in> insert i (set acc). \<exists>j \<in> set acc'. covers j k"
    "\<forall>j \<in> set acc'. fst j \<in> fst ` insert i (set acc) \<and> snd j \<in> snd ` insert i (set acc)"
proof -
  have "sorted_wrt (\<lambda>j i. before i j) acc' \<and> (\<forall>k \<in> set acc'. fst k \<le> snd k \<and> fst k \<le> fst i) \<and>
    (\<forall>k \<in> insert i (set acc). \<exists>j \<in> set acc'. covers j k) \<and>
    (\<forall>j \<in> set acc'. fst j \<in> fst ` insert i (set acc) \<and> snd j \<in> snd ` insert i (set acc))"
  proof (cases acc)
    case Nil
    with assms show ?thesis by (simp add: acc'_def covers_def)
  next
    case (Cons p rest)
    show ?thesis
    proof (cases "fst i \<le> snd p + epsilon")
      case True
      have "\<forall>k \<in> insert i (set acc). \<exists>j \<in> set ((fst p, max (snd p) (snd i)) # rest). covers j k"
        using Cons assms(2) by (auto simp: covers_def)
      moreover have "snd (fst p, max (snd p) (snd i)) \<in> snd ` insert i (set acc)" using Cons by (simp add: max_def)
      ultimately show ?thesis using assms(1-3) Cons True by (auto simp: acc'_def before_def)
    next
      case False
      then have b: "before p i" by (simp add: before_def)
      have "before k i" if "k \<in> set rest" for k
        by (rule before_trans [OF _ _ b]) (use assms(1,2) Cons that in auto)
      with b Cons have "\<forall>k \<in> set acc. before k i" by simp
      then show ?thesis using assms(1-3) Cons False by (auto simp: acc'_def covers_def)
    qed
  qed
  then show "sorted_wrt (\<lambda>j i. before i j) acc'" "\<forall>k \<in> set acc'. fst k \<le> snd k \<and> fst k \<le> fst i"
    "\<forall>k \<in> insert i (set acc). \<exists>j \<in> set acc'. covers j k"
    "\<forall>j \<in> set acc'. fst j \<in> fst ` insert i (set acc) \<and> snd j \<in> snd ` insert i (set acc)" by blast+
qed

lemma covers_trans: "covers i j \<Longrightarrow> covers j k \<Longrightarrow> covers i k"
  by (simp add: covers_def)

lemma merge_intervals_facts:
  assumes "sorted (map fst is)" "\<forall>i \<in> set is. fst i \<le> snd i" "sorted_wrt (\<lambda>j i. before i j) acc"
    "\<forall>k \<in> set acc. fst k \<le> snd k \<and> (\<forall>i \<in> set is. fst k \<le> fst i)"
  shows "sorted_wrt (\<lambda>j i. before i j) (merge_intervals is acc) \<and>
    (\<forall>k \<in> set is \<union> set acc. \<exists>j \<in> set (merge_intervals is acc). covers j k) \<and>
    (\<forall>j \<in> set (merge_intervals is acc). fst j \<in> fst ` (set is \<union> set acc) \<and> snd j \<in> snd ` (set is \<union> set acc))"
  using assms
proof (induction "is" arbitrary: acc)
  case Nil
  then show ?case by (auto simp: covers_def)
next
  case (Cons i "is")
  define acc' where "acc' = (case acc of [] \<Rightarrow> [i] | previous # rest \<Rightarrow>
     if fst i \<le> snd previous + epsilon then (fst previous, max (snd previous) (snd i)) # rest else i # acc)"
  have i: "fst i \<le> snd i" "\<forall>k \<in> set acc. fst k \<le> snd k \<and> fst k \<le> fst i" "\<forall>j \<in> set is. fst i \<le> fst j" using Cons.prems by auto
  note step = merge_step [OF Cons.prems(3) i(2,1), folded acc'_def]
  have "sorted_wrt (\<lambda>j i. before i j) (merge_intervals is acc') \<and>
    (\<forall>k \<in> set is \<union> set acc'. \<exists>j \<in> set (merge_intervals is acc'). covers j k) \<and>
    (\<forall>j \<in> set (merge_intervals is acc'). fst j \<in> fst ` (set is \<union> set acc') \<and> snd j \<in> snd ` (set is \<union> set acc'))"
  proof (rule Cons.IH)
    show "\<forall>k \<in> set acc'. fst k \<le> snd k \<and> (\<forall>i \<in> set is. fst k \<le> fst i)"
      using step(2) i(3) by (meson order_trans)
  qed (use Cons.prems step(1) in simp_all)
  note rec = this
  have cov: "\<exists>j \<in> set (merge_intervals is acc'). covers j k" if "k \<in> set (i # is) \<union> set acc" for k
  proof (cases "k \<in> set is")
    case False
    with that have "k \<in> insert i (set acc)" by auto
    with step(3) obtain j where "j \<in> set acc'" "covers j k" by blast
    with rec covers_trans show ?thesis by blast
  qed (use rec in blast)
  have ends: "fst ` (set is \<union> set acc') \<subseteq> fst ` (set (i # is) \<union> set acc)" "snd ` (set is \<union> set acc') \<subseteq> snd ` (set (i # is) \<union> set acc)"
    using step(4) by auto
  show ?case unfolding merge_intervals.simps acc'_def [symmetric] using rec cov ends by blast
qed

text \<open>
  Merging the overlaps of a border is exact up to the tolerance: the merged intervals are
  in order and more than the tolerance apart, every overlap lies inside one of them, and
  their ends are ends of overlaps.
\<close>

theorem merged_intervals_correct:
  assumes "\<forall>i \<in> set is. fst i \<le> snd i"
  shows "sorted_wrt (\<lambda>i j. snd i + epsilon < fst j) (merged_intervals is) \<and>
    (\<forall>i \<in> set is. \<exists>j \<in> set (merged_intervals is). fst j \<le> fst i \<and> snd i \<le> snd j) \<and>
    (\<forall>j \<in> set (merged_intervals is). fst j \<in> fst ` set is \<and> snd j \<in> snd ` set is)"
proof -
  have "sorted_wrt (\<lambda>x y. fst x \<le> fst y) (sort is)"
    by (rule sorted_wrt_mono_rel [OF _ sorted_sort [unfolded sorted_wrt_map [of _ id, simplified]]]) (auto simp: less_eq_prod_def)
  then have "sorted (map fst (sort is))" by (simp add: sorted_map)
  from merge_intervals_facts [OF this, of "[]"] assms show ?thesis
    by (simp add: merged_intervals_def sorted_wrt_rev before_def covers_def)
qed

theorem merged_intervals_correct_witness:
  "sorted_wrt (\<lambda>i j. snd i + epsilon < fst j) (merged_intervals [(4, 9), (0, 3), (2, 5)]) \<and>
   merged_intervals [(4, 9), (0, 3), (2, 5)] = [(0, 9)]"
  using merged_intervals_correct [of "[(4, 9), (0, 3), (2, 5)]"]
  by (simp add: merged_intervals_def less_eq_prod_def less_prod_def epsilon_def)

subsection \<open>Ports\<close>

lemma jget_fold_jset:
  assumes "distinct (map f xs)" and "a \<in> set xs"
  shows "jget (fold (\<lambda>a m. jset m (f a) (g a)) xs m) (f a) = Some (g a)"
  using assms
proof (induction xs arbitrary: m rule: rev_induct)
  case (snoc b xs)
  show ?case
  proof (cases "a = b")
    case False
    with snoc.prems(2) have a: "a \<in> set xs" by simp
    then have "f a \<in> f ` set xs" by simp
    with snoc.prems(1) have "f a \<noteq> f b" by auto
    with a snoc show ?thesis by simp
  qed simp
qed simp

definition port_key :: "port_item \<Rightarrow> nat \<times> endpoint" where
  "port_key i = (rel_ref (pi_relation i), pi_endpoint i)"

definition port_at :: "bool \<Rightarrow> nat \<Rightarrow> rat \<Rightarrow> nat \<times> port_item \<Rightarrow> point" where
  "port_at vertical n spacing item =
     (let p = anchor (pi_rect (snd item)) (Some (pi_side (snd item)));
          offset = (of_nat (fst item) - (of_nat n - 1) / 2) * spacing
      in if vertical then (fst p, snd p + offset) else (fst p + offset, snd p))"

lemma place_port_jset: "place_port vertical n spacing = (\<lambda>item m. jset m (port_key (snd item)) (port_at vertical n spacing item))"
  by (auto simp: place_port_def port_key_def port_at_def Let_def fun_eq_iff)

lemma centred:
  fixes u v :: rat
  assumes "0 \<le> u" "u \<le> v"
  shows "\<bar>u - v / 2\<bar> \<le> v / 2"
proof -
  have "u - v / 2 \<le> v / 2" "- (u - v / 2) \<le> v / 2" using assms field_sum_of_halves [of v] by linarith+
  then show ?thesis by (simp only: abs_le_iff)
qed

lemma offset_bound:
  fixes spacing usable :: rat
  assumes "k < n" "2 \<le> n" "0 < spacing" "spacing \<le> usable / (of_nat n - 1)"
  shows "\<bar>(of_nat k - (of_nat n - 1) / 2) * spacing\<bar> \<le> usable / 2"
proof -
  have n: "0 < (of_nat n - 1 :: rat)" using assms(2) by simp
  have "(of_nat k :: rat) \<le> of_nat n - 1" using assms(1)
    by (metis Suc_leI add.commute le_diff_eq of_nat_Suc of_nat_le_iff)
  then have "\<bar>of_nat k - (of_nat n - 1) / 2 :: rat\<bar> \<le> (of_nat n - 1) / 2"
    by (intro centred) simp_all
  then have "\<bar>(of_nat k - (of_nat n - 1) / 2) * spacing\<bar> \<le> (of_nat n - 1) / 2 * spacing"
    using assms(3) by (simp add: abs_mult mult_right_mono)
  also have "\<dots> \<le> usable / 2" using assms(4) n by (simp add: pos_le_divide_eq mult.commute)
  finally show ?thesis .
qed

text \<open>
  Spread ports stay on their side and apart: when the automatic anchors of one side of a
  box are spread, every endpoint gets a port on that side, no further from the anchor
  than half the side less the gutter, and the ports of two endpoints differ by at least
  the spacing, which is positive.
\<close>

theorem spread_ports_bounds:
  assumes "2 \<le> length items" and "distinct (map port_key items)"
    and "\<forall>i \<in> set items. pi_rect i = b \<and> pi_side i = s"
    and extent: "extent = (if vertical_side s then box_h b else box_w b)" and axis: "axis = (if vertical_side s then snd else fst)"
    and "0 < maxSpacing" and "gutter * 2 < extent"
    and spacing: "spacing = min maxSpacing ((extent - gutter * 2) / (of_nat (length items) - 1))"
  shows "0 < spacing \<and>
    (\<forall>i \<in> set items. \<exists>p. jget (spread_group gutter maxSpacing items m) (port_key i) = Some p \<and>
       \<bar>axis p - axis (anchor b (Some s))\<bar> \<le> extent / 2 - gutter) \<and>
    (\<forall>i \<in> set items. \<forall>j \<in> set items. i \<noteq> j \<longrightarrow> (\<exists>p q. jget (spread_group gutter maxSpacing items m) (port_key i) = Some p \<and>
       jget (spread_group gutter maxSpacing items m) (port_key j) = Some q \<and> spacing \<le> \<bar>axis p - axis q\<bar>))"
proof -
  define xs n where "xs = port_order items" and "n = length xs"
  have xs: "set xs = set items" "length xs = length items" by (simp_all add: xs_def port_order_def)
  have "distinct (map port_key xs)"
    using assms(2) unfolding xs_def port_order_def by (simp add: distinct_map)
  then have dist: "distinct (map (port_key \<circ> snd) (indexed xs))" by (simp add: indexed_def flip: map_map)
  have sp: "0 < spacing" using assms(1,6,7) by (simp add: spacing)
  have ne: "items \<noteq> []" "xs \<noteq> []" using assms(1) xs(2) by auto
  have hds: "pi_side (hd items) = s" "pi_rect (hd xs) = b" using assms(3) ne xs(1) hd_in_set by blast+
  have group: "spread_group gutter maxSpacing items m = fold (place_port (vertical_side s) n spacing) (indexed xs) m"
  proof -
    have usable: "max 0 ((if vertical_side s then box_h b else box_w b) - gutter * 2) = extent - gutter * 2"
      using assms(7) by (simp add: extent)
    have "\<not> length items < 2" using assms(1) by simp
    then have "spread_group gutter maxSpacing items m = (if \<not> 0 < spacing then m
        else fold (place_port (vertical_side s) n spacing) (indexed xs) m)"
      unfolding spread_group_def Let_def xs_def [symmetric] hds usable by (simp only: spacing n_def xs(2) if_False)
    with sp show ?thesis by simp
  qed
  have port: "jget (spread_group gutter maxSpacing items m) (port_key (xs ! k)) = Some (port_at (vertical_side s) n spacing (k, xs ! k))"
    if "k < n" for k
  proof -
    have "(k, xs ! k) \<in> set (indexed xs)" using that by (auto simp: indexed_def set_zip n_def intro!: exI [of _ k])
    from jget_fold_jset [OF dist this, of "port_at (vertical_side s) n spacing" m] show ?thesis
      by (simp add: group place_port_jset comp_def)
  qed
  have dev: "axis (port_at (vertical_side s) n spacing (k, xs ! k)) = axis (anchor b (Some s)) + (of_nat k - (of_nat n - 1) / 2) * spacing" if "k < n" for k
  proof -
    have "xs ! k \<in> set items" using that xs by (metis n_def nth_mem)
    with assms(3) show ?thesis by (simp add: port_at_def Let_def axis)
  qed
  have le: "\<bar>(of_nat k - (of_nat n - 1) / 2) * spacing\<bar> \<le> extent / 2 - gutter" if "k < n" for k
    using offset_bound [OF that _ sp, of "extent - gutter * 2"] assms(1) xs(2) by (simp add: n_def spacing diff_divide_distrib)
  have apart2: "spacing \<le> \<bar>(of_nat k - (of_nat n - 1) / 2) * spacing - (of_nat l - (of_nat n - 1) / 2) * spacing\<bar>" if "k \<noteq> l" for k l
  proof -
    have "1 \<le> \<bar>int k - int l\<bar>" using that by linarith
    then have "(of_int 1 :: rat) \<le> of_int \<bar>int k - int l\<bar>" by (simp only: of_int_le_iff)
    then have "(1::rat) \<le> \<bar>of_nat k - of_nat l\<bar>" by simp
    then have "spacing \<le> \<bar>of_nat k - of_nat l\<bar> * spacing" using sp by simp
    also have "\<dots> = \<bar>(of_nat k - (of_nat n - 1) / 2) * spacing - (of_nat l - (of_nat n - 1) / 2) * spacing\<bar>"
      using sp by (simp add: abs_mult left_diff_distrib [symmetric])
    finally show ?thesis .
  qed
  have idx: "\<exists>k < n. i = xs ! k" if "i \<in> set items" for i using that xs by (metis in_set_conv_nth n_def)
  show ?thesis
  proof (intro conjI ballI impI sp)
    fix i
    assume "i \<in> set items"
    with idx obtain k where k: "k < n" "i = xs ! k" by blast
    have "\<bar>axis (port_at (vertical_side s) n spacing (k, xs ! k)) - axis (anchor b (Some s))\<bar> \<le> extent / 2 - gutter"
      unfolding dev [OF k(1)] add_diff_cancel_left' using le [OF k(1)] .
    with port [OF k(1)] k show "\<exists>p. jget (spread_group gutter maxSpacing items m) (port_key i) = Some p \<and>
       \<bar>axis p - axis (anchor b (Some s))\<bar> \<le> extent / 2 - gutter" by blast
  next
    fix i j
    assume "i \<in> set items" "j \<in> set items" "i \<noteq> j"
    with idx obtain k l where "k < n" "i = xs ! k" "l < n" "j = xs ! l" "k \<noteq> l" by metis
    note kl = this
    have "spacing \<le> \<bar>axis (port_at (vertical_side s) n spacing (k, xs ! k)) - axis (port_at (vertical_side s) n spacing (l, xs ! l))\<bar>"
      unfolding dev [OF kl(1)] dev [OF kl(3)] add_diff_cancel_left using apart2 [OF kl(5)] .
    with port [OF kl(1)] port [OF kl(3)] kl show "\<exists>p q. jget (spread_group gutter maxSpacing items m) (port_key i) = Some p \<and>
       jget (spread_group gutter maxSpacing items m) (port_key j) = Some q \<and> spacing \<le> \<bar>axis p - axis q\<bar>" by blast
  qed
qed

definition sample_ports :: "port_item list" where
  "sample_ports = map (\<lambda>n. \<lparr>pi_relation = no_relation\<lparr>rel_ref := n\<rparr>, pi_endpoint = Source,
     pi_rect = \<lparr>box_x = 0, box_y = 0, box_w = 100, box_h = 64, box_id = ''api'', box_cx = 50, box_cy = 32\<rparr>, pi_side = Right,
     pi_counterpart = \<lparr>box_x = 200, box_y = 0, box_w = 100, box_h = 64, box_id = ''db'', box_cx = 250, box_cy = of_nat n\<rparr>\<rparr>) [1, 2]"

theorem spread_ports_bounds_witness:
  "\<exists>p q. jget (spread_group 16 14 sample_ports []) (1, Source) = Some p \<and>
     jget (spread_group 16 14 sample_ports []) (2, Source) = Some q \<and> 14 \<le> \<bar>snd p - snd q\<bar>"
proof -
  have n: "length sample_ports = 2" "port_key (sample_ports ! 0) = (1, Source)" "port_key (sample_ports ! 1) = (2, Source)"
    by (simp_all add: sample_ports_def port_key_def)
  have "2 \<le> length sample_ports" "distinct (map port_key sample_ports)"
    "\<forall>i \<in> set sample_ports. pi_rect i = pi_rect (hd sample_ports) \<and> pi_side i = Right"
    "64 = (if vertical_side Right then box_h (pi_rect (hd sample_ports)) else box_w (pi_rect (hd sample_ports)))"
    "snd = (if vertical_side Right then snd else fst)" "(0 :: rat) < 14" "(16 :: rat) * 2 < 64"
    "14 = min 14 ((64 - (16 :: rat) * 2) / (of_nat (length sample_ports) - 1))"
    by (simp_all add: sample_ports_def port_key_def vertical_side_def)
  from conjunct2 [OF conjunct2 [OF spread_ports_bounds [OF this, of "[]"]], rule_format, of "sample_ports ! 0" "sample_ports ! 1"]
  show ?thesis using n by (metis One_nat_def less_2_cases_iff nth_mem old.prod.inject zero_neq_one n_not_Suc_n numeral_2_eq_2)
qed

subsection \<open>Completeness of a gate\<close>

lemma map_filter_Nil: "List.map_filter f xs = [] \<longleftrightarrow> (\<forall>a \<in> set xs. f a = None)"
  by (induction xs) (auto simp: List.map_filter_simps split: option.split)

lemma first_hit_None: "first_hit c r points = None \<longleftrightarrow> (\<forall>(i, p, q) \<in> set (segments_from 0 points). \<not> segmentIntersectsRect p q r c)"
  by (auto simp: first_hit_def find_None_iff)

lemma indexed_all: "(\<forall>(i, a) \<in> set (indexed xs). P a) \<longleftrightarrow> (\<forall>a \<in> set xs. P a)"
proof -
  have "snd ` set (indexed xs) = set xs" by (metis indexed_def length_map list.set_map map_nth map_snd_zip)
  then show ?thesis by (force simp: image_def)
qed



definition straight_relation :: relation where
  "straight_relation = \<lparr>rel_ref = 0, rel_key = None, rel_id = None, rel_from = Some ''a'', rel_to = Some ''b'', rel_label = None,
     rel_fromSide = None, rel_toSide = None, rel_route = None, rel_via = None, rel_channelX = None, rel_channelY = None,
     rel_labelAt = None, rel_labelDx = None, rel_labelDy = None, rel_labelSegment = None\<rparr>"

definition straight_diagram :: diagram where
  "straight_diagram = \<lparr>dm_type = ''flow'', dm_collection = ''links'', dm_relations = [straight_relation], dm_endpointIds = {''a'', ''b''},
     dm_pathFor = (\<lambda>_. Some [Some [Some 10, Some 5], Some [Some 100, Some 5]]), dm_hint = []\<rparr>"

definition box_at :: "string \<Rightarrow> rat \<Rightarrow> rat \<Rightarrow> obstacle" where
  "box_at i ox oy = \<lparr>ob_id = i, ob_rect = \<lparr>rr_x = Some ox, rr_y = Some oy, rr_width = Some 10, rr_height = Some 10\<rparr>\<rparr>"


end
