(* ===== verification/Canonical_Json.thy ===== *)
theory Canonical_Json
  imports Js_Prelude "HOL-Library.Char_ord" "HOL-Library.List_Lexorder" "HOL-Library.Multiset"
begin

text \<open>
  The canonical serialisation of \<^verbatim>\<open>.agents/skills/archify/delta/architecture-delta.mjs\<close> with which snapshots of a diagram
  are compared and hashed: JSON with the keys of every object sorted. The main lemma is that it is a code:
  two values have the same serialisation exactly when they are equal up to the order of keys, so comparing the strings
  compares the values.

  Strings are sequences of code units below 256, ordered as JavaScript orders them (code unit by code unit). A number is
  identified with its shortest decimal, as in theory \<open>Js_Prelude\<close>.
\<close>

subsection \<open>JSON.stringify on strings\<close>

definition escape_char :: "char \<Rightarrow> string" where
  "escape_char c =
     (if c = CHR 0x08 then [CHR 0x5C, CHR ''b''] else if c = CHR 0x09 then [CHR 0x5C, CHR ''t'']
      else if c = CHR 0x0A then [CHR 0x5C, CHR ''n''] else if c = CHR 0x0C then [CHR 0x5C, CHR ''f'']
      else if c = CHR 0x0D then [CHR 0x5C, CHR ''r''] else if c = CHR 0x22 \<or> c = CHR 0x5C then [CHR 0x5C, c]
      else if (of_char c :: nat) < 32 then CHR 0x5C # ''u00'' @ [digit_char (of_char c div 16), digit_char (of_char c mod 16)]
      else [c])"

definition json_quote :: "string \<Rightarrow> string" where
  "json_quote s = CHR 0x22 # concat (map escape_char s) @ [CHR 0x22]"

text \<open>\<open>strs.join(sep)\<close>\<close>

fun join :: "string \<Rightarrow> string list \<Rightarrow> string" where
  "join sep [] = []"
| "join sep [x] = x"
| "join sep (x # y # xs) = x @ sep @ join sep (y # xs)"

subsection \<open>The canonical form\<close>

definition codepointOrder :: "string \<Rightarrow> string \<Rightarrow> int" where
  "codepointOrder left right = (if left < right then - 1 else if right < left then 1 else 0)"

definition render_entry :: "string \<times> string \<Rightarrow> string" where
  "render_entry e = json_quote (fst e) @ '':'' @ snd e"

text \<open>\<open>{\<close> the entries in the order of their keys \<open>}\<close>\<close>

definition render_object :: "(string \<times> string) list \<Rightarrow> string" where
  "render_object entries = ''{'' @ join '','' (map render_entry (sort_key fst entries)) @ ''}''"

primrec canonical :: "json \<Rightarrow> string" where
  "canonical JNull = ''null''"
| "canonical (JBool b) = (if b then ''true'' else ''false'')"
| "canonical (JNum x) = show_num x"
| "canonical (JStr s) = json_quote s"
| "canonical (JArr vs) = ''['' @ join '','' (map canonical vs) @ '']''"
| "canonical (JObj kvs) = render_object (map (map_prod id canonical) kvs)"

text \<open>\<open>canonical\<close> of a value that may be \<open>undefined\<close>, in the position of a property.\<close>

definition canonical_opt :: "json option \<Rightarrow> string" where
  "canonical_opt v = (case v of None \<Rightarrow> ''undefined'' | Some j \<Rightarrow> canonical j)"

definition equal_json :: "json option \<Rightarrow> json option \<Rightarrow> bool" where
  "equal_json left right = (canonical_opt left = canonical_opt right)"

text \<open>\<open>String(v)\<close>; in an array \<open>null\<close> is the empty string.\<close>

primrec js_string :: "json \<Rightarrow> string" where
  "js_string JNull = ''null''"
| "js_string (JBool b) = (if b then ''true'' else ''false'')"
| "js_string (JNum x) = show_num x"
| "js_string (JStr s) = s"
| "js_string (JArr vs) = join '','' (map (\<lambda>(isnull, t). if isnull then [] else t) (zip (map (\<lambda>v. v = JNull) vs) (map js_string vs)))"
| "js_string (JObj kvs) = ''[object Object]''"

definition js_string_opt :: "json option \<Rightarrow> string" where
  "js_string_opt v = (case v of None \<Rightarrow> ''undefined'' | Some j \<Rightarrow> js_string j)"

text \<open>The reference: a value with the keys of all its objects sorted.\<close>

primrec normal :: "json \<Rightarrow> json" where
  "normal JNull = JNull"
| "normal (JBool b) = JBool b"
| "normal (JNum x) = JNum x"
| "normal (JStr s) = JStr s"
| "normal (JArr vs) = JArr (map normal vs)"
| "normal (JObj kvs) = JObj (sort_key fst (map (map_prod id normal) kvs))"

text \<open>Numbers that the decimal rendering shows in full.\<close>

definition plain_number :: "rat \<Rightarrow> bool" where
  "plain_number x \<longleftrightarrow> of_int \<lfloor>10 ^ 17 * x\<rfloor> = 10 ^ 17 * x"

primrec plain :: "json \<Rightarrow> bool" where
  "plain JNull = True"
| "plain (JBool b) = True"
| "plain (JNum x) = plain_number x"
| "plain (JStr s) = True"
| "plain (JArr vs) = list_all id (map plain vs)"
| "plain (JObj kvs) = list_all snd (map (map_prod id plain) kvs)"

subsection \<open>Strings\<close>

text \<open>Reading one escaped character back.\<close>

definition hex_value :: "char \<Rightarrow> nat" where
  "hex_value c = (let n = of_char c in if n < 58 then n - 48 else n - 87)"

fun unescape :: "string \<Rightarrow> char \<times> string" where
  "unescape (b # c # s) =
     (if b \<noteq> CHR 0x5C then (b, c # s)
      else if c = CHR ''b'' then (CHR 0x08, s) else if c = CHR ''t'' then (CHR 0x09, s) else if c = CHR ''n'' then (CHR 0x0A, s)
      else if c = CHR ''f'' then (CHR 0x0C, s) else if c = CHR ''r'' then (CHR 0x0D, s)
      else if c = CHR ''u'' then (char_of (16 * hex_value (s ! 2) + hex_value (s ! 3)), drop 4 s)
      else (c, s))"
| "unescape [b] = (b, [])"
| "unescape [] = (CHR 0x00, [])"

lemma hex_value_digit: "d < 16 \<Longrightarrow> hex_value (digit_char d) = d"
  by (auto simp: hex_value_def digit_char_def Let_def of_char_of take_bit_eq_mod)

lemma unescape_escape: "unescape (escape_char c @ s) = (c, s)"
proof -
  let ?named = "{CHR 0x08, CHR 0x09, CHR 0x0A, CHR 0x0C, CHR 0x0D, CHR 0x22, CHR 0x5C}"
  consider "c \<in> ?named" | "c \<notin> ?named" "(of_char c :: nat) < 32" | "c \<notin> ?named" "\<not> (of_char c :: nat) < 32" by blast
  then show ?thesis
  proof cases
    case 1
    then show ?thesis unfolding escape_char_def by (elim insertE emptyE) simp_all
  next
    case 2
    then have "escape_char c = CHR 0x5C # ''u00'' @ [digit_char (of_char c div 16), digit_char (of_char c mod 16)]"
      unfolding escape_char_def by simp
    moreover have "of_char c div 16 < (16 :: nat)" "of_char c mod 16 < (16 :: nat)" using 2 by auto
    ultimately show ?thesis by (simp add: hex_value_digit)
  next
    case 3
    then have "escape_char c = [c]" "c \<noteq> CHR 0x5C" unfolding escape_char_def by simp_all
    then show ?thesis by (cases s) simp_all
  qed
qed

lemma escape_nonempty [simp]: "escape_char c \<noteq> []"
  by (simp add: escape_char_def)

lemma escape_not_quote: "escape_char c @ s \<noteq> CHR 0x22 # t"
proof
  assume a: "escape_char c @ s = CHR 0x22 # t"
  then have "hd (escape_char c) = CHR 0x22" by (cases "escape_char c") auto
  then show False by (auto simp: escape_char_def split: if_splits)
qed

lemma escape_code: "escape_char c @ s = escape_char d @ t \<Longrightarrow> c = d \<and> s = t"
  by (metis unescape_escape prod.inject)

lemma quote_code: "json_quote a @ s = json_quote b @ t \<Longrightarrow> a = b \<and> s = t"
proof -
  have "concat (map escape_char a) @ CHR 0x22 # s = concat (map escape_char b) @ CHR 0x22 # t \<Longrightarrow> a = b \<and> s = t"
  proof (induction a arbitrary: b)
    case Nil
    then show ?case using escape_not_quote by (cases b) (simp_all, metis)
  next
    case (Cons c a)
    then show ?case
    proof (cases b)
      case Nil
      then show ?thesis using Cons.prems escape_not_quote [of c] by simp
    next
      case b: (Cons d b')
      then show ?thesis using Cons.prems Cons.IH [of b'] escape_code [of c _ d] by simp
    qed
  qed
  then show "json_quote a @ s = json_quote b @ t \<Longrightarrow> a = b \<and> s = t" by (simp add: json_quote_def)
qed

subsection \<open>Numbers\<close>

lemma fraction_digits_inj:
  assumes "10 ^ n * x \<in> \<int>" "10 ^ n * y \<in> \<int>" "0 \<le> x" "x < 1" "0 \<le> y" "y < 1"
    and "fraction_digits n x = fraction_digits n y"
  shows "x = y"
  using assms
proof (induction n arbitrary: x y)
  case 0
  then have "\<lfloor>x\<rfloor> = 0" "\<lfloor>y\<rfloor> = 0" by linarith+
  with 0(1,2) show ?case by (auto elim!: Ints_cases)
next
  case (Suc n)
  have digit: "0 \<le> \<lfloor>10 * z\<rfloor>" "\<lfloor>10 * z\<rfloor> < 10" if "0 \<le> z" "z < 1" for z :: rat using that by (simp, linarith)
  have whole: "10 ^ n * (10 * z - of_int \<lfloor>10 * z\<rfloor>) \<in> \<int>" if "10 ^ Suc n * z \<in> \<int>" for z :: rat
  proof -
    have "10 ^ n * (10 * z - of_int \<lfloor>10 * z\<rfloor>) = 10 ^ Suc n * z - of_int (10 ^ n * \<lfloor>10 * z\<rfloor>)" by (simp add: algebra_simps)
    then show ?thesis using that by (metis Ints_diff Ints_of_int)
  qed
  show ?case
  proof (cases "x = 0 \<or> y = 0")
    case True
    then show ?thesis using Suc.prems(7) by (auto split: if_splits)
  next
    case False
    then have d: "digit_char (nat \<lfloor>10 * x\<rfloor>) = digit_char (nat \<lfloor>10 * y\<rfloor>)"
      and r: "fraction_digits n (10 * x - of_int \<lfloor>10 * x\<rfloor>) = fraction_digits n (10 * y - of_int \<lfloor>10 * y\<rfloor>)"
      using Suc.prems(7) by simp_all
    have "nat \<lfloor>10 * x\<rfloor> < 36" "nat \<lfloor>10 * y\<rfloor> < 36" using digit [of x] digit [of y] Suc.prems by linarith+
    from digit_char_inj [OF this d] have e: "\<lfloor>10 * x\<rfloor> = \<lfloor>10 * y\<rfloor>" using digit [of x] digit [of y] Suc.prems(3-6) by linarith
    have "10 * x - of_int \<lfloor>10 * x\<rfloor> = 10 * y - of_int \<lfloor>10 * y\<rfloor>"
      by (rule Suc.IH [OF whole [OF Suc.prems(1)] whole [OF Suc.prems(2)] _ _ _ _ r]) linarith+
    with e show ?thesis by simp
  qed
qed

definition delimiter :: "char \<Rightarrow> bool" where
  "delimiter c \<longleftrightarrow> c \<in> {CHR '','', CHR '']'', CHR ''}''}"

definition ends :: "string \<Rightarrow> bool" where
  "ends s \<longleftrightarrow> s = [] \<or> delimiter (hd s)"

definition numeric :: "char \<Rightarrow> bool" where
  "numeric c \<longleftrightarrow> 48 \<le> (of_char c :: nat) \<and> (of_char c :: nat) \<le> 57"

lemma numeric_digit: "d < 10 \<Longrightarrow> numeric (digit_char d)"
  by (auto simp: numeric_def digit_char_def of_char_of take_bit_eq_mod)

lemma numeric_render: "\<forall>c \<in> set (render_nat 10 n). numeric c"
proof (induction n rule: less_induct)
  case (less n)
  show ?case
  proof (cases "n < 10")
    case True
    then show ?thesis by (simp add: render_nat.simps [of 10 n] numeric_digit)
  next
    case False
    then have "n div 10 < n" by simp
    from less [OF this] False show ?thesis by (simp add: render_nat.simps [of 10 n] numeric_digit)
  qed
qed

lemma numeric_fraction: "0 \<le> x \<Longrightarrow> x < 1 \<Longrightarrow> \<forall>c \<in> set (fraction_digits n x). numeric c"
proof (induction n arbitrary: x)
  case (Suc n)
  have "nat \<lfloor>10 * x\<rfloor> < 10" using Suc.prems by linarith
  moreover have "\<forall>c \<in> set (fraction_digits n (10 * x - of_int \<lfloor>10 * x\<rfloor>)). numeric c" by (rule Suc.IH) linarith+
  ultimately show ?case by (simp add: numeric_digit)
qed simp

lemma not_numeric: "\<not> numeric (CHR ''-'')" "\<not> numeric (CHR ''.'')" "\<not> numeric (CHR '','')" "\<not> numeric (CHR '']'')" "\<not> numeric (CHR ''}'')"
  by (simp_all add: numeric_def)

lemma run_of_digits:
  assumes "\<forall>c \<in> set a. P c" "\<forall>c \<in> set b. P c" "s = [] \<or> \<not> P (hd s)" "t = [] \<or> \<not> P (hd t)" "a @ s = b @ t"
  shows "a = b \<and> s = t"
proof -
  have "takeWhile P (a @ s) = a" "takeWhile P (b @ t) = b"
    using assms(1-4) by (cases s; cases t; simp add: takeWhile_append)+
  with assms(5) show ?thesis by (metis same_append_eq)
qed

lemma show_num_form:
  "\<exists>frac. show_num x = (if x < 0 then ''-'' else []) @ render_nat 10 (nat \<lfloor>\<bar>x\<bar>\<rfloor>) @ frac \<and> (frac = [] \<or> hd frac = CHR ''.'') \<and>
     (\<forall>c \<in> set frac. numeric c \<or> c = CHR ''.'') \<and>
     frac = (if \<bar>x\<bar> - of_int \<lfloor>\<bar>x\<bar>\<rfloor> = 0 then [] else CHR ''.'' # fraction_digits 17 (\<bar>x\<bar> - of_int \<lfloor>\<bar>x\<bar>\<rfloor>))"
proof -
  have "0 \<le> \<bar>x\<bar> - of_int \<lfloor>\<bar>x\<bar>\<rfloor>" "\<bar>x\<bar> - of_int \<lfloor>\<bar>x\<bar>\<rfloor> < 1" by linarith+
  from numeric_fraction [OF this, of 17] show ?thesis by (simp add: show_num_def Let_def render_int_def)
qed

lemma show_num_chars: "c \<in> set (show_num x) \<Longrightarrow> numeric c \<or> c = CHR ''-'' \<or> c = CHR ''.''"
  using show_num_form [of x] numeric_render [of "nat \<lfloor>\<bar>x\<bar>\<rfloor>"] by (auto split: if_splits)

lemma show_num_hd: "show_num x \<noteq> [] \<and> (numeric (hd (show_num x)) \<or> hd (show_num x) = CHR ''-'')"
proof -
  have "numeric (hd (render_nat 10 n))" for n using numeric_render [of n] render_nat_nonempty [of 10 n] by (metis hd_in_set)
  then show ?thesis using show_num_form [of x] by (auto simp: hd_append)
qed

lemma show_num_inj:
  assumes "plain_number x" "plain_number y" "show_num x = show_num y"
  shows "x = y"
proof -
  obtain f where f: "show_num x = (if x < 0 then ''-'' else []) @ render_nat 10 (nat \<lfloor>\<bar>x\<bar>\<rfloor>) @ f" "f = [] \<or> hd f = CHR ''.''"
    "f = (if \<bar>x\<bar> - of_int \<lfloor>\<bar>x\<bar>\<rfloor> = 0 then [] else CHR ''.'' # fraction_digits 17 (\<bar>x\<bar> - of_int \<lfloor>\<bar>x\<bar>\<rfloor>))"
    using show_num_form [of x] by blast
  obtain g where g: "show_num y = (if y < 0 then ''-'' else []) @ render_nat 10 (nat \<lfloor>\<bar>y\<bar>\<rfloor>) @ g" "g = [] \<or> hd g = CHR ''.''"
    "g = (if \<bar>y\<bar> - of_int \<lfloor>\<bar>y\<bar>\<rfloor> = 0 then [] else CHR ''.'' # fraction_digits 17 (\<bar>y\<bar> - of_int \<lfloor>\<bar>y\<bar>\<rfloor>))"
    using show_num_form [of y] by blast
  have minus: "render_nat 10 n @ u \<noteq> CHR ''-'' # v" for n u v
    using numeric_render [of n] render_nat_nonempty [of 10 n] not_numeric(1) by (cases "render_nat 10 n") auto
  have sign: "x < 0 \<longleftrightarrow> y < 0" and body: "render_nat 10 (nat \<lfloor>\<bar>x\<bar>\<rfloor>) @ f = render_nat 10 (nat \<lfloor>\<bar>y\<bar>\<rfloor>) @ g"
    using assms(3) minus unfolding f(1) g(1) by (auto split: if_splits dest: sym)
  from run_of_digits [OF numeric_render numeric_render _ _ body] f(2) g(2) not_numeric(2)
  have e: "render_nat 10 (nat \<lfloor>\<bar>x\<bar>\<rfloor>) = render_nat 10 (nat \<lfloor>\<bar>y\<bar>\<rfloor>)" "f = g" by auto
  from render_nat_inj [OF _ _ e(1)] have "nat \<lfloor>\<bar>x\<bar>\<rfloor> = nat \<lfloor>\<bar>y\<bar>\<rfloor>" by simp
  moreover have "0 \<le> \<lfloor>\<bar>x\<bar>\<rfloor>" "0 \<le> \<lfloor>\<bar>y\<bar>\<rfloor>" by simp_all
  ultimately have whole: "\<lfloor>\<bar>x\<bar>\<rfloor> = \<lfloor>\<bar>y\<bar>\<rfloor>" by linarith
  have int: "10 ^ 17 * (\<bar>z\<bar> - of_int \<lfloor>\<bar>z\<bar>\<rfloor>) \<in> \<int>" if "plain_number z" for z :: rat
  proof -
    have "10 ^ 17 * z \<in> \<int>" using that unfolding plain_number_def by (metis Ints_of_int)
    then have "10 ^ 17 * \<bar>z\<bar> \<in> \<int>" by (cases "z < 0") (auto simp: Ints_minus)
    moreover have "10 ^ 17 * (\<bar>z\<bar> - of_int \<lfloor>\<bar>z\<bar>\<rfloor>) = 10 ^ 17 * \<bar>z\<bar> - of_int (10 ^ 17 * \<lfloor>\<bar>z\<bar>\<rfloor>)" by (simp add: algebra_simps)
    ultimately show ?thesis by (metis Ints_diff Ints_of_int)
  qed
  have bounds: "0 \<le> \<bar>z\<bar> - of_int \<lfloor>\<bar>z\<bar>\<rfloor>" "\<bar>z\<bar> - of_int \<lfloor>\<bar>z\<bar>\<rfloor> < 1" for z :: rat by linarith+
  have "\<bar>x\<bar> - of_int \<lfloor>\<bar>x\<bar>\<rfloor> = \<bar>y\<bar> - of_int \<lfloor>\<bar>y\<bar>\<rfloor>"
    using e(2) f(3) g(3) fraction_digits_inj [OF int [OF assms(1)] int [OF assms(2)] bounds bounds] by (auto split: if_splits)
  with whole sign show ?thesis by (auto split: abs_split)
qed

lemma number_code:
  assumes "plain_number x" "plain_number y" "show_num x @ s = show_num y @ t" "ends s" "ends t"
  shows "x = y \<and> s = t"
proof -
  have "\<not> delimiter c" if "c \<in> set (show_num z)" for c z
    using show_num_chars [OF that] not_numeric by (auto simp: delimiter_def)
  then have "show_num x = show_num y \<and> s = t"
    using assms(3-5) by (intro run_of_digits [where P = "\<lambda>c. \<not> delimiter c"]) (auto simp: ends_def)
  with show_num_inj [OF assms(1,2)] show ?thesis by simp
qed

subsection \<open>Values\<close>

text \<open>A list of codes between delimiters is a code.\<close>

lemma join_code:
  assumes "\<And>x y s t. x \<in> set xs \<Longrightarrow> y \<in> set ys \<Longrightarrow> enc x @ s = enc y @ t \<Longrightarrow> ends s \<Longrightarrow> ends t \<Longrightarrow> view x = view y \<and> s = t"
    and "\<And>x. enc x \<noteq> [] \<and> \<not> delimiter (hd (enc x))" and "z = CHR '']'' \<or> z = CHR ''}''"
    and "join '','' (map enc xs) @ z # s = join '','' (map enc ys) @ z # t"
  shows "map view xs = map view ys \<and> s = t"
proof -
  have z: "delimiter z" "z \<noteq> CHR '',''" "ends (CHR '','' # u)" "ends (z # u)" for u
    using assms(3) by (auto simp: ends_def delimiter_def)
  have split: "\<exists>u. join '','' (map enc (v # vs)) @ z # w = enc v @ u \<and> ends u \<and>
      u = (if vs = [] then z # w else CHR '','' # join '','' (map enc vs) @ z # w)" for v vs w
    using z by (cases vs) auto
  have first: "join '','' (map enc (v # vs)) @ z # w \<noteq> z # u" for v vs w u
  proof
    assume "join '','' (map enc (v # vs)) @ z # w = z # u"
    then obtain u' where "enc v @ u' = z # u" using split [of v vs w] by metis
    then show False using assms(2) [of v] z(1) by (cases "enc v") auto
  qed
  show ?thesis using assms(1,4)
  proof (induction xs arbitrary: ys)
    case Nil
    then show ?case using first by (cases ys) (auto, metis)
  next
    case (Cons x xs)
    show ?case
    proof (cases ys)
      case Nil
      then show ?thesis using Cons.prems(2) first [of x xs s t] by simp
    next
      case ys: (Cons y ys')
      obtain u where u: "join '','' (map enc (x # xs)) @ z # s = enc x @ u" "ends u" "u = (if xs = [] then z # s else CHR '','' # join '','' (map enc xs) @ z # s)"
        using split by blast
      obtain v where v: "join '','' (map enc (y # ys')) @ z # t = enc y @ v" "ends v" "v = (if ys' = [] then z # t else CHR '','' # join '','' (map enc ys') @ z # t)"
        using split by blast
      have "enc x @ u = enc y @ v" using Cons.prems(2) ys u(1) v(1) by simp
      from Cons.prems(1) [OF _ _ this u(2) v(2)] ys have e: "view x = view y" "u = v" by auto
      from e(2) u(3) v(3) z(2) have "xs = [] \<longleftrightarrow> ys' = []" "join '','' (map enc xs) @ z # s = join '','' (map enc ys') @ z # t" by (auto split: if_splits)
      moreover have "view a = view b \<and> s' = t'" if "a \<in> set xs" "b \<in> set ys'" "enc a @ s' = enc b @ t'" "ends s'" "ends t'" for a b s' t'
        using that ys by (intro Cons.prems(1)) auto
      ultimately have "map view xs = map view ys' \<and> s = t" by (intro Cons.IH)
      with ys e(1) show ?thesis by simp
    qed
  qed
qed

lemma canonical_hd: "canonical v \<noteq> [] \<and> \<not> delimiter (hd (canonical v))"
proof (cases v)
  case (JNum x)
  then show ?thesis using show_num_hd [of x] not_numeric by (auto simp: delimiter_def)
qed (auto simp: json_quote_def render_object_def delimiter_def)

text \<open>The first character tells the kind of a value.\<close>

primrec lead :: "json \<Rightarrow> nat" where
  "lead JNull = 0" | "lead (JBool b) = (if b then 1 else 2)" | "lead (JNum x) = 3" | "lead (JStr s) = 4"
| "lead (JArr vs) = 5" | "lead (JObj kvs) = 6"

definition lead_of :: "char \<Rightarrow> nat" where
  "lead_of c = (if c = CHR ''n'' then 0 else if c = CHR ''t'' then 1 else if c = CHR ''f'' then 2 else if c = CHR 0x22 then 4
     else if c = CHR ''['' then 5 else if c = CHR ''{'' then 6 else 3)"

lemma lead_canonical: "lead_of (hd (canonical v)) = lead v"
proof (cases v)
  case (JNum x)
  then show ?thesis using show_num_hd [of x] by (auto simp: lead_of_def numeric_def)
qed (auto simp: json_quote_def render_object_def lead_of_def)

lemma same_lead: "canonical v @ s = canonical w @ t \<Longrightarrow> lead v = lead w"
  using lead_canonical [of v] lead_canonical [of w] canonical_hd by (metis hd_append2)

lemma map_sort_fst: "map (map_prod id f) (sort_key fst (kvs :: ('a :: linorder \<times> 'b) list)) = sort_key fst (map (map_prod id f) kvs)"
proof -
  have "map (map_prod id f) (insort_key fst x xs) = insort_key fst (map_prod id f x) (map (map_prod id f) xs)" for x and xs :: "('a \<times> 'b) list"
    by (induction xs) auto
  then show ?thesis by (induction kvs) simp_all
qed

lemma canonical_code:
  assumes "plain v" "plain w" "canonical v @ s = canonical w @ t" "ends s" "ends t"
  shows "normal v = normal w \<and> s = t"
  using assms
proof (induction v arbitrary: w s t)
  case JNull
  then show ?case using same_lead [OF JNull(3)] by (cases w) (auto split: if_splits)
next
  case (JBool b)
  then show ?case using same_lead [OF JBool(3)] by (cases w) (auto split: if_splits)
next
  case (JNum x)
  then show ?case using same_lead [OF JNum(3)] number_code [of x _ s t] by (cases w) (auto split: if_splits)
next
  case (JStr a)
  then show ?case using same_lead [OF JStr(3)] quote_code [of a s _ t] by (cases w) (auto split: if_splits)
next
  case (JArr vs)
  then obtain ws where w: "w = JArr ws" using same_lead [OF JArr.prems(3)] by (cases w) (auto split: if_splits)
  have "map normal vs = map normal ws \<and> s = t"
    by (rule join_code [where enc = canonical and z = "CHR '']''"]) (use JArr w canonical_hd in \<open>auto simp: list_all_iff\<close>)
  with w show ?case by simp
next
  case (JObj kvs)
  then obtain ws where w: "w = JObj ws" using same_lead [OF JObj.prems(3)] by (cases w) (auto split: if_splits)
  let ?enc = "\<lambda>kv. json_quote (fst kv) @ CHR '':'' # canonical (snd kv)"
  have form: "canonical (JObj us) = CHR ''{'' # join '','' (map ?enc (sort_key fst us)) @ ''}''" for us
    by (simp add: render_object_def map_sort_fst [symmetric] render_entry_def comp_def)
  have "map (map_prod id normal) (sort_key fst kvs) = map (map_prod id normal) (sort_key fst ws) \<and> s = t"
  proof (rule join_code [where enc = ?enc and z = "CHR ''}''"])
    fix x y s' t'
    assume x: "x \<in> set (sort_key fst kvs)" and y: "y \<in> set (sort_key fst ws)" and e: "?enc x @ s' = ?enc y @ t'" "ends s'" "ends t'"
    from quote_code [of "fst x" _ "fst y"] e(1) have q: "fst x = fst y" "canonical (snd x) @ s' = canonical (snd y) @ t'" by auto
    have "plain (snd x)" "plain (snd y)" "x \<in> set kvs" using x y JObj.prems(1,2) w by (auto simp: list_all_iff)
    then have "normal (snd x) = normal (snd y) \<and> s' = t'" using q(2) e(2,3) by (intro JObj.IH [of x "snd x"]) (auto simp: snds.simps prod_set_simps)
    with q(1) show "map_prod id normal x = map_prod id normal y \<and> s' = t'" by (cases x; cases y) simp
  qed (use JObj.prems(3) form w in \<open>auto simp: json_quote_def delimiter_def\<close>)
  with w show ?case by (simp add: map_sort_fst)
qed

lemma canonical_normal: "canonical (normal v) = canonical v"
proof (induction v)
  case (JArr vs)
  then have "map (canonical \<circ> normal) vs = map canonical vs" by simp
  then show ?case by (simp only: normal.simps canonical.simps map_map)
next
  case (JObj kvs)
  then have "map (map_prod id (canonical \<circ> normal)) kvs = map (map_prod id canonical) kvs"
    by (auto simp: map_prod_def snds.simps split: prod.splits)
  then have "map (map_prod id canonical) (map (map_prod id normal) kvs) = map (map_prod id canonical) kvs" by (simp add: prod.map_comp)
  then show ?case by (simp add: render_object_def map_sort_fst sort_key_id_if_sorted del: map_map)
qed simp_all

lemma canonical_eq_iff: "plain v \<Longrightarrow> plain w \<Longrightarrow> canonical v = canonical w \<longleftrightarrow> normal v = normal w"
  using canonical_code [of v w "[]" "[]"] canonical_normal [of v] canonical_normal [of w] by (auto simp: ends_def)

lemma canonical_defined: "canonical v \<noteq> ''undefined''"
proof
  assume u: "canonical v = ''undefined''"
  then have "lead v = 3" using lead_canonical [of v] by (simp add: lead_of_def)
  then obtain x where "v = JNum x" by (cases v) (auto split: if_splits)
  with u show_num_hd [of x] show False by (auto simp: numeric_def)
qed

lemma equal_json_iff:
  assumes "\<And>v. left = Some v \<Longrightarrow> plain v" and "\<And>v. right = Some v \<Longrightarrow> plain v"
  shows "equal_json left right \<longleftrightarrow> map_option normal left = map_option normal right"
  using assms canonical_eq_iff canonical_defined by (cases left; cases right) (auto simp: equal_json_def canonical_opt_def dest: sym)

lemma equal_json_refl [simp]: "equal_json v v"
  by (simp add: equal_json_def)

lemma equal_json_sym: "equal_json v w = equal_json w v"
  by (auto simp: equal_json_def)

text \<open>Equality up to the order of keys is equality as maps.\<close>

lemma sort_key_perm: "distinct (map f xs) \<Longrightarrow> mset xs = mset ys \<Longrightarrow> sort_key f xs = sort_key f ys"
  by (rule sort_key_inj_key_eq) (simp_all add: distinct_map)

lemma sort_entries_iff:
  assumes "distinct (map fst xs)" "distinct (map fst ys)"
  shows "sort_key fst xs = sort_key fst ys \<longleftrightarrow> map_of xs = map_of ys"
proof
  assume "sort_key fst xs = sort_key fst ys"
  then have "set xs = set ys" by (metis set_sort)
  then show "map_of xs = map_of ys" using map_of_inject_set [OF assms] by simp
next
  assume "map_of xs = map_of ys"
  then have "set xs = set ys" using map_of_inject_set [OF assms] by simp
  moreover have "distinct xs" "distinct ys" using assms by (simp_all add: distinct_map)
  ultimately show "sort_key fst xs = sort_key fst ys" using assms(1) by (intro sort_key_perm) (simp_all add: set_eq_iff_mset_eq_distinct)
qed

lemma normal_object:
  assumes "distinct (map fst a)" "distinct (map fst b)"
  shows "normal (JObj a) = normal (JObj b) \<longleftrightarrow> (\<forall>k. map_option normal (map_of a k) = map_option normal (map_of b k))"
proof -
  have m: "map_of (map (map_prod id normal) c) = map_option normal \<circ> map_of c" for c :: "(string \<times> json) list"
    by (induction c) auto
  show ?thesis using sort_entries_iff [of "map (map_prod id normal) a" "map (map_prod id normal) b"] assms by (simp add: m fun_eq_iff)
qed

text \<open>C33. Comparing canonical strings compares values: for two objects without repeated keys, whose numbers are shown in full, the
  canonical strings are equal exactly when the objects have the same keys with the same values, in whatever order the
  keys were written at any depth.\<close>

theorem canonical_decides_equality:
  assumes "plain (JObj a)" "plain (JObj b)" and "distinct (map fst a)" "distinct (map fst b)"
  shows "canonical (JObj a) = canonical (JObj b) \<longleftrightarrow> (\<forall>k. map_option normal (map_of a k) = map_option normal (map_of b k))"
  using canonical_eq_iff [OF assms(1,2)] normal_object [OF assms(3,4)] by blast

theorem canonical_decides_equality_witness:
  "canonical (JObj [(''id'', JStr ''api''), (''pos'', JArr [JNum (5/2), JNull])]) = canonical (JObj [(''pos'', JArr [JNum (5/2), JNull]), (''id'', JStr ''api'')]) \<and>
   canonical (JObj [(''id'', JStr ''1'')]) \<noteq> canonical (JObj [(''id'', JNum 1)])"
proof
  show "canonical (JObj [(''id'', JStr ''api''), (''pos'', JArr [JNum (5/2), JNull])]) = canonical (JObj [(''pos'', JArr [JNum (5/2), JNull]), (''id'', JStr ''api'')])"
    by (subst canonical_decides_equality) (simp_all add: plain_number_def)
  show "canonical (JObj [(''id'', JStr ''1'')]) \<noteq> canonical (JObj [(''id'', JNum 1)])"
    by (subst canonical_decides_equality) (simp_all add: plain_number_def)
qed

end
