(* ===== verification/Architecture_Delta.thy ===== *)
theory Architecture_Delta
  imports Canonical_Json
begin

text \<open>
  The comparison of two architecture snapshots, \<^verbatim>\<open>.agents/skills/archify/delta/architecture-delta.mjs\<close>:
  canonical form of a diagram, indexes by stable id, classification of changed fields, the receipt with its summary and
  its rows, and the escaping of text in the rendered page.

  Components, connections and boundaries are JSON objects. The snapshots are validated against the schema before they are compared
  (\<^verbatim>\<open>bin/archify.mjs\<close>): ids are strings there, and the collections are arrays of objects.
  \<open>parseRepositoryRemote\<close> (\<^verbatim>\<open>repository-location.mjs\<close>) rests on the URL parser of the platform; it is a
  parameter, and the theorems hold for every such function. The parts that rewrite SVG and HTML text with regular expressions are not
  modelled.
\<close>

subsection \<open>JavaScript conversions\<close>

definition json_truthy :: "json option \<Rightarrow> bool" where
  "json_truthy v =
     (case v of None \<Rightarrow> False | Some JNull \<Rightarrow> False | Some (JBool b) \<Rightarrow> b | Some (JNum x) \<Rightarrow> x \<noteq> 0 | Some (JStr s) \<Rightarrow> s \<noteq> [] | _ \<Rightarrow> True)"

definition or_json :: "json option \<Rightarrow> json \<Rightarrow> json" where
  "or_json v d = (if json_truthy v then the v else d)"

subsection \<open>Canonical architecture\<close>

definition sorted_js :: "json list \<Rightarrow> json list" where
  "sorted_js values = sort_key js_string values"

definition sortedObjects :: "json list \<Rightarrow> json list" where
  "sortedObjects values = sort_key canonical values"

text \<open>What the program uses of the result of \<open>parseRepositoryRemote\<close>.\<close>

record repository_location =
  rl_identity :: string
  rl_url :: string
  rl_provider :: "string option"

type_synonym remote_parser = "string \<Rightarrow> repository_location option"

definition parse_url :: "remote_parser \<Rightarrow> json option \<Rightarrow> repository_location option" where
  "parse_url parse url = (case url of Some (JStr u) \<Rightarrow> parse u | _ \<Rightarrow> None)"

definition property :: "json \<Rightarrow> string \<Rightarrow> json option" where
  "property v k = (case v of JObj kvs \<Rightarrow> map_of kvs k | _ \<Rightarrow> None)"

definition normalizeRepository :: "remote_parser \<Rightarrow> json option \<Rightarrow> json_object option" where
  "normalizeRepository parse repository =
     (if \<not> json_truthy repository then None
      else let r = the repository; location = parse_url parse (property r ''url'');
               url = (case location of Some l \<Rightarrow> if rl_url l \<noteq> [] then rl_url l else js_string (or_json (property r ''url'') (JStr []))
                      | None \<Rightarrow> js_string (or_json (property r ''url'') (JStr [])))
           in Some ([(''url'', JStr (if (case location of Some l \<Rightarrow> rl_provider l = Some ''github'' | None \<Rightarrow> False) then map to_lower url else url)),
                     (''revision'', JStr (map to_lower (js_string (or_json (property r ''revision'') (JStr [])))))]
                    @ (case property r ''provider'' of None \<Rightarrow> [] | Some p \<Rightarrow> [(''provider'', p)])
                    @ (case property r ''link_mode'' of None \<Rightarrow> [] | Some p \<Rightarrow> [(''link_mode'', p)])))"

definition normalizeComponent :: "json_object \<Rightarrow> json_object" where
  "normalizeComponent component =
     (case map_of component ''sources'' of Some (JArr vs) \<Rightarrow> jset component ''sources'' (JArr (sortedObjects vs)) | _ \<Rightarrow> component)"

definition normalizeBoundary :: "json_object \<Rightarrow> json_object" where
  "normalizeBoundary boundary =
     jset boundary ''wraps'' (JArr (sorted_js (case map_of boundary ''wraps'' of Some (JArr vs) \<Rightarrow> vs | _ \<Rightarrow> [])))"

definition boundaryKey :: "json_object \<Rightarrow> string" where
  "boundaryKey boundary = js_string_opt (map_of boundary ''kind'') @ [CHR 0x1F] @ js_string_opt (map_of boundary ''label'')"

record diagram =
  ar_schema_version :: "json option"
  ar_diagram_type :: "json option"
  ar_meta :: "json_object option"
  ar_layout :: "json option"
  ar_components :: "json_object list option"
  ar_boundaries :: "json_object list option"
  ar_connections :: "json_object list option"
  ar_cards :: "json option"

definition meta_field :: "diagram \<Rightarrow> string \<Rightarrow> json option" where
  "meta_field d k = (case ar_meta d of None \<Rightarrow> None | Some m \<Rightarrow> map_of m k)"

definition canonical_meta :: "remote_parser \<Rightarrow> diagram \<Rightarrow> json_object" where
  "canonical_meta parse d =
     (let meta = jdelete (nullish (ar_meta d) []) ''output''
      in case normalizeRepository parse (map_of meta ''repository'') of None \<Rightarrow> meta | Some r \<Rightarrow> jset meta ''repository'' (JObj r))"

definition optional_entry :: "string \<Rightarrow> json option \<Rightarrow> (string \<times> json option) list" where
  "optional_entry k v = (if json_truthy v then [(k, v)] else [])"

definition object_list :: "json_object list \<Rightarrow> json option" where
  "object_list os = Some (JArr (map JObj os))"

definition canonicalArchitecture :: "remote_parser \<Rightarrow> diagram \<Rightarrow> (string \<times> json option) list" where
  "canonicalArchitecture parse d =
     [(''schema_version'', ar_schema_version d), (''diagram_type'', ar_diagram_type d), (''meta'', Some (JObj (canonical_meta parse d)))]
     @ optional_entry ''layout'' (ar_layout d)
     @ [(''components'', object_list (sort_key (\<lambda>c. js_string_opt (map_of c ''id'')) (map normalizeComponent (nullish (ar_components d) [])))),
        (''boundaries'', object_list (sort_key boundaryKey (map normalizeBoundary (nullish (ar_boundaries d) [])))),
        (''connections'', object_list (sort_key (\<lambda>c. js_string (or_json (map_of c ''id'') (JStr []))) (nullish (ar_connections d) [])))]
     @ optional_entry ''cards'' (ar_cards d)"

text \<open>\<open>canonical\<close> of an object with properties that may be \<open>undefined\<close>.\<close>

definition canonical_fields :: "(string \<times> json option) list \<Rightarrow> string" where
  "canonical_fields entries = render_object (map (map_prod id canonical_opt) entries)"

definition canonicalArchitectureJson :: "remote_parser \<Rightarrow> diagram \<Rightarrow> string" where
  "canonicalArchitectureJson parse d = canonical_fields (canonicalArchitecture parse d)"

subsection \<open>Errors and indexes\<close>

record delta_error =
  er_code :: string
  er_message :: string
  er_details :: "(string \<times> json option) list"

definition text_value :: "string \<Rightarrow> json option" where
  "text_value s = Some (JStr s)"

definition text_values :: "string list \<Rightarrow> json option" where
  "text_values ss = Some (JArr (map JStr ss))"

definition requireComparableShape :: "diagram \<Rightarrow> string \<Rightarrow> delta_error + unit" where
  "requireComparableShape d side =
     (if ar_schema_version d \<noteq> Some (JNum 1) then
        Inl \<lparr>er_code = ''delta/schema-version-mismatch'', er_message = side @ '' must use schema_version 1.'',
          er_details = [(''side'', text_value side), (''path'', text_value ''/schema_version''), (''actual'', ar_schema_version d)]\<rparr>
      else if ar_diagram_type d \<noteq> text_value ''architecture'' then
        Inl \<lparr>er_code = ''delta/type-mismatch'', er_message = side @ '' must use diagram_type architecture.'',
          er_details = [(''side'', text_value side), (''path'', text_value ''/diagram_type''), (''actual'', ar_diagram_type d)]\<rparr>
      else Inr ())"

type_synonym entity_index = "(string, json_object) jsmap"

text \<open>The id of an item: \<open>None\<close> when it is falsy.\<close>

definition stable_id :: "json_object \<Rightarrow> string option" where
  "stable_id item = (case map_of item ''id'' of Some (JStr s) \<Rightarrow> if s = [] then None else Some s | _ \<Rightarrow> None)"

text \<open>The state of the loop: the index, the missing paths and the duplicates so far.\<close>

fun index_items :: "string \<Rightarrow> nat \<Rightarrow> json_object list \<Rightarrow> entity_index \<times> string list \<times> string list \<Rightarrow> entity_index \<times> string list \<times> string list" where
  "index_items collection i [] st = st"
| "index_items collection i (item # items) (index, missing, duplicates) =
     index_items collection (Suc i) items
       (case stable_id item of
          None \<Rightarrow> (index, missing @ [''/'' @ collection @ ''/'' @ show_nat i @ ''/id''], duplicates)
        | Some s \<Rightarrow> if jhas index s then (index, missing, duplicates @ [s]) else (jset index s item, missing, duplicates))"

definition stableIndex :: "json_object list option \<Rightarrow> string \<Rightarrow> string \<Rightarrow> string \<Rightarrow> delta_error + entity_index" where
  "stableIndex items collection side missingCode =
     (case index_items collection 0 (nullish items []) ([], [], []) of (index, missing, duplicates) \<Rightarrow>
        if missing \<noteq> [] then
          Inl \<lparr>er_code = missingCode, er_message = side @ '' '' @ collection @ '' require authored stable ids for comparison.'',
            er_details = [(''side'', text_value side), (''paths'', text_values (sort missing)),
              (''supportedFixes'', text_values [''add a unique id to every '' @ collection @ '' item''])]\<rparr>
        else if duplicates \<noteq> [] then
          Inl \<lparr>er_code = ''delta/duplicate-stable-id'', er_message = side @ '' '' @ collection @ '' contain duplicate ids.'',
            er_details = [(''side'', text_value side), (''collection'', text_value collection), (''ids'', text_values (sort (unique duplicates))),
              (''supportedFixes'', text_values [''make every '' @ collection @ '' id unique''])]\<rparr>
        else Inr index)"

definition shown_key :: "json_object \<Rightarrow> string" where
  "shown_key boundary = js_string_opt (map_of boundary ''kind'') @ '':'' @ js_string_opt (map_of boundary ''label'')"

fun index_boundaries :: "json_object list \<Rightarrow> entity_index \<times> string list \<Rightarrow> entity_index \<times> string list" where
  "index_boundaries [] st = st"
| "index_boundaries (boundary # boundaries) (index, ambiguous) =
     index_boundaries boundaries
       (if jhas index (boundaryKey boundary) then (index, ambiguous @ [shown_key boundary])
        else (jset index (boundaryKey boundary) boundary, ambiguous))"

definition boundaryIndex :: "json_object list option \<Rightarrow> string \<Rightarrow> delta_error + entity_index" where
  "boundaryIndex boundaries side =
     (case index_boundaries (nullish boundaries []) ([], []) of (index, ambiguous) \<Rightarrow>
        if ambiguous \<noteq> [] then
          Inl \<lparr>er_code = ''delta/boundary-key-ambiguous'', er_message = side @ '' boundary kind + label keys must be unique.'',
            er_details = [(''side'', text_value side), (''boundaries'', text_values (sort (unique ambiguous))),
              (''supportedFixes'', text_values [''rename one duplicate boundary or add stable boundary ids in a future schema version''])]\<rparr>
        else Inr index)"

subsection \<open>Changes of entities\<close>

definition normalizedField :: "json_object \<Rightarrow> string \<Rightarrow> json option" where
  "normalizedField item f =
     (case map_of item f of
        Some (JArr vs) \<Rightarrow> Some (JArr (if f = ''sources'' then sortedObjects vs else if f = ''wraps'' then sorted_js vs else vs))
      | v \<Rightarrow> v)"

type_synonym field_groups = "(string \<times> string list) list"

definition COMPONENT_FIELDS :: field_groups where
  "COMPONENT_FIELDS =
     [(''semantic'', [''type'', ''label'', ''sublabel'', ''tag'']), (''evidence'', [''sources'']),
      (''geometry'', [''row'', ''col'', ''pos'', ''size''])]"

definition CONNECTION_FIELDS :: field_groups where
  "CONNECTION_FIELDS =
     [(''topology'', [''from'', ''to'']), (''semantic'', [''label'', ''variant'']),
      (''geometry'', [''fromSide'', ''toSide'', ''route'', ''via'', ''labelAt'', ''labelDx'', ''labelDy'', ''labelSegment'', ''width''])]"

definition BOUNDARY_FIELDS :: field_groups where
  "BOUNDARY_FIELDS = [(''scope'', [''wraps'']), (''geometry'', [''pad''])]"

definition changed_in :: "json_object \<Rightarrow> json_object \<Rightarrow> string list \<Rightarrow> string list" where
  "changed_in before after fs = filter (\<lambda>f. \<not> equal_json (normalizedField before f) (normalizedField after f)) fs"

text \<open>The classifications and the changed fields.\<close>

definition fieldChanges :: "json_object \<Rightarrow> json_object \<Rightarrow> field_groups \<Rightarrow> string list \<times> string list" where
  "fieldChanges before after groups =
     (sort (map fst (filter (\<lambda>(c, fs). changed_in before after fs \<noteq> []) groups)),
      sort (map (\<lambda>f. ''/'' @ f) (concat (map (\<lambda>(c, fs). changed_in before after fs) groups))))"

datatype entity_kind = K_component | K_connection | K_boundary

definition statusFor :: "string list \<Rightarrow> entity_kind \<Rightarrow> string" where
  "statusFor classifications kind =
     (if \<exists>v \<in> set classifications. v \<in> {''topology'', ''semantic'', ''scope''} then ''changed''
      else if ''evidence'' \<in> set classifications then ''evidence-changed''
      else if ''geometry'' \<in> set classifications
           then (case kind of K_connection \<Rightarrow> ''rerouted'' | K_component \<Rightarrow> ''moved'' | K_boundary \<Rightarrow> ''geometry-changed'')
      else ''same'')"

record endpoints =
  en_from :: "json option"
  en_to :: "json option"
  en_label :: json

datatype description =
    D_component string "json option" "json option"
  | D_connection string "endpoints option" "endpoints option"
  | D_boundary string "json option" "json option"

record change =
  ch_what :: description
  ch_status :: string
  ch_classifications :: "string list"
  ch_changedFields :: "string list"

definition identityClassification :: "entity_kind \<Rightarrow> string" where
  "identityClassification kind = (case kind of K_connection \<Rightarrow> ''topology'' | K_boundary \<Rightarrow> ''scope'' | K_component \<Rightarrow> ''semantic'')"

text \<open>What one id contributes.\<close>

definition compare_entity ::
    "entity_kind \<Rightarrow> field_groups \<Rightarrow> (string \<Rightarrow> json_object option \<Rightarrow> json_object option \<Rightarrow> description) \<Rightarrow>
     string \<Rightarrow> json_object option \<Rightarrow> json_object option \<Rightarrow> change option" where
  "compare_entity kind groups describe x base head =
     (case base of
        None \<Rightarrow> Some \<lparr>ch_what = describe x None head, ch_status = ''added'', ch_classifications = [identityClassification kind], ch_changedFields = []\<rparr>
      | Some b \<Rightarrow>
          (case head of
             None \<Rightarrow> Some \<lparr>ch_what = describe x base None, ch_status = ''removed'', ch_classifications = [identityClassification kind], ch_changedFields = []\<rparr>
           | Some h \<Rightarrow>
               (case fieldChanges b h groups of (classifications, changedFields) \<Rightarrow>
                  let status = statusFor classifications kind
                  in if status \<noteq> ''same'' then Some \<lparr>ch_what = describe x base head, ch_status = status,
                       ch_classifications = classifications, ch_changedFields = changedFields\<rparr>
                     else None)))"

definition all_ids :: "entity_index \<Rightarrow> entity_index \<Rightarrow> string list" where
  "all_ids baseIndex headIndex = sort (unique (jkeys baseIndex @ jkeys headIndex))"

definition compareEntities ::
    "entity_index \<Rightarrow> entity_index \<Rightarrow> entity_kind \<Rightarrow> field_groups \<Rightarrow>
     (string \<Rightarrow> json_object option \<Rightarrow> json_object option \<Rightarrow> description) \<Rightarrow> change list" where
  "compareEntities baseIndex headIndex kind groups describe =
     List.map_filter (\<lambda>x. compare_entity kind groups describe x (jget baseIndex x) (jget headIndex x)) (all_ids baseIndex headIndex)"

text \<open>\<open>status.replace(/-([a-z])/g, (_, letter) => letter.toUpperCase())\<close>\<close>

definition lower_letter :: "char \<Rightarrow> bool" where
  "lower_letter c \<longleftrightarrow> 97 \<le> (of_char c :: nat) \<and> (of_char c :: nat) \<le> 122"

fun camel :: "string \<Rightarrow> string" where
  "camel (a # b # s) = (if a = CHR ''-'' \<and> lower_letter b then char_of (of_char b - 32 :: nat) # camel s else a # camel (b # s))"
| "camel s = s"

definition bump :: "string \<Rightarrow> (string, nat) jsmap \<Rightarrow> (string, nat) jsmap" where
  "bump key summary = (case jget summary key of None \<Rightarrow> summary | Some n \<Rightarrow> jset summary key (n + 1))"

definition summaryFor :: "change list \<Rightarrow> string list \<Rightarrow> (string, nat) jsmap" where
  "summaryFor changes shape = fold (\<lambda>ch. bump (camel (ch_status ch))) changes (map (\<lambda>key. (key, 0)) shape)"

subsection \<open>The receipt\<close>

definition presentation :: "diagram \<Rightarrow> (string \<times> json option) list" where
  "presentation d =
     map (\<lambda>k. (k, meta_field d k))
       [''title'', ''subtitle'', ''animation'', ''visual_preset'', ''quality_profile'', ''engineering_profile'', ''legend'', ''views'', ''viewBox'']
     @ [(''layout'', ar_layout d), (''cards'', ar_cards d)]"

definition presentationChanged :: "diagram \<Rightarrow> diagram \<Rightarrow> bool" where
  "presentationChanged base head \<longleftrightarrow> canonical_fields (presentation base) \<noteq> canonical_fields (presentation head)"

record side_evidence =
  ev_verified :: bool
  ev_rawSha256 :: string
  ev_semanticSha256 :: string
  ev_bytes :: "int option"

record side_summary =
  ss_title :: json
  ss_rawSha256 :: "string option"
  ss_semanticSha256 :: "string option"
  ss_bytes :: "int option"
  ss_revision :: "string option"

record receipt =
  rc_proofLevel :: string
  rc_base :: side_summary
  rc_head :: side_summary
  rc_components :: "change list"
  rc_connections :: "change list"
  rc_boundaries :: "change list"
  rc_presentationChanged :: bool
  rc_provenanceChanged :: bool
  rc_visualPreset :: json

definition repository_text :: "json_object \<Rightarrow> string \<Rightarrow> string" where
  "repository_text r k = (case map_of r k of Some (JStr s) \<Rightarrow> s | _ \<Rightarrow> [])"

definition repository_identity :: "remote_parser \<Rightarrow> json_object \<Rightarrow> string" where
  "repository_identity parse r =
     (let url = repository_text r ''url''
      in case parse url of Some l \<Rightarrow> if rl_identity l \<noteq> [] then rl_identity l else url | None \<Rightarrow> url)"

text \<open>\<open>/^[a-f0-9]{40}$/\<close>\<close>

definition full_sha :: "string \<Rightarrow> bool" where
  "full_sha s \<longleftrightarrow> length s = 40 \<and> list_all (\<lambda>c. let n = of_char c :: nat in 97 \<le> n \<and> n \<le> 102 \<or> 48 \<le> n \<and> n \<le> 57) s"

definition some_text :: "string \<Rightarrow> string option" where
  "some_text s = (if s = [] then None else Some s)"

definition side_of :: "diagram \<Rightarrow> side_evidence \<Rightarrow> json_object option \<Rightarrow> side_summary" where
  "side_of d ev repository =
     \<lparr>ss_title = or_json (meta_field d ''title'') (JStr []), ss_rawSha256 = some_text (ev_rawSha256 ev),
      ss_semanticSha256 = some_text (ev_semanticSha256 ev), ss_bytes = ev_bytes ev,
      ss_revision = Option.bind repository (\<lambda>r. some_text (repository_text r ''revision''))\<rparr>"

definition describe_component :: "string \<Rightarrow> json_object option \<Rightarrow> json_object option \<Rightarrow> description" where
  "describe_component x before after =
     D_component x (Option.bind before (\<lambda>b. map_of b ''label'')) (Option.bind after (\<lambda>a. map_of a ''label''))"

definition endpoints_of :: "json_object \<Rightarrow> endpoints" where
  "endpoints_of c = \<lparr>en_from = map_of c ''from'', en_to = map_of c ''to'', en_label = or_json (map_of c ''label'') (JStr [])\<rparr>"

definition describe_connection :: "string \<Rightarrow> json_object option \<Rightarrow> json_object option \<Rightarrow> description" where
  "describe_connection x before after = D_connection x (map_option endpoints_of before) (map_option endpoints_of after)"

definition describe_boundary :: "string \<Rightarrow> json_object option \<Rightarrow> json_object option \<Rightarrow> description" where
  "describe_boundary x before after =
     (let b = nullish after (nullish before []) in D_boundary (shown_key b) (map_of b ''kind'') (map_of b ''label''))"

definition no_shared_error :: delta_error where
  "no_shared_error =
     \<lparr>er_code = ''delta/no-shared-component-id'',
      er_message = ''The snapshots share no component id, so Archify cannot prove that they describe the same system.'',
      er_details = [(''supportedFixes'', text_values [''preserve at least one authored component id across snapshots''])]\<rparr>"

definition repository_error :: "json_object \<Rightarrow> json_object \<Rightarrow> delta_error" where
  "repository_error base head =
     \<lparr>er_code = ''delta/repository-mismatch'', er_message = ''The snapshots name different repositories.'',
      er_details = [(''baseRepository'', map_of base ''url''), (''headRepository'', map_of head ''url''),
        (''supportedFixes'', text_values [''compare snapshots from the same repository or remove repository evidence from both inputs''])]\<rparr>"

abbreviation then_do :: "'e + 'a \<Rightarrow> ('a \<Rightarrow> 'e + 'b) \<Rightarrow> 'e + 'b" where
  "then_do r f \<equiv> (case r of Inl e \<Rightarrow> Inl e | Inr a \<Rightarrow> f a)"

definition compare_repositories :: "remote_parser \<Rightarrow> json_object option \<Rightarrow> json_object option \<Rightarrow> delta_error + unit" where
  "compare_repositories parse base head =
     (case (base, head) of
        (Some b, Some h) \<Rightarrow> if repository_identity parse b \<noteq> repository_identity parse h then Inl (repository_error b h) else Inr ()
      | _ \<Rightarrow> Inr ())"

definition proof_level :: "json_object option \<Rightarrow> json_object option \<Rightarrow> side_evidence \<Rightarrow> side_evidence \<Rightarrow> string" where
  "proof_level base head evb evh =
     (case (base, head) of
        (Some b, Some h) \<Rightarrow>
          if ev_verified evb \<and> ev_verified evh \<and> full_sha (repository_text b ''revision'') \<and> full_sha (repository_text h ''revision'')
          then ''revision-pinned'' else ''authored''
      | _ \<Rightarrow> ''authored'')"

definition compareArchitecture :: "remote_parser \<Rightarrow> diagram \<Rightarrow> diagram \<Rightarrow> side_evidence \<Rightarrow> side_evidence \<Rightarrow> delta_error + receipt" where
  "compareArchitecture parse base head evb evh =
     then_do (requireComparableShape base ''base'') (\<lambda>_.
     then_do (requireComparableShape head ''head'') (\<lambda>_.
     then_do (stableIndex (ar_components base) ''components'' ''base'' ''delta/stable-id-required'') (\<lambda>baseComponents.
     then_do (stableIndex (ar_components head) ''components'' ''head'' ''delta/stable-id-required'') (\<lambda>headComponents.
     if filter (jhas headComponents) (jkeys baseComponents) = [] then Inl no_shared_error
     else
     then_do (stableIndex (ar_connections base) ''connections'' ''base'' ''delta/relationship-id-required'') (\<lambda>baseConnections.
     then_do (stableIndex (ar_connections head) ''connections'' ''head'' ''delta/relationship-id-required'') (\<lambda>headConnections.
     then_do (boundaryIndex (ar_boundaries base) ''base'') (\<lambda>baseBoundaries.
     then_do (boundaryIndex (ar_boundaries head) ''head'') (\<lambda>headBoundaries.
     let baseRepository = normalizeRepository parse (meta_field base ''repository'');
         headRepository = normalizeRepository parse (meta_field head ''repository'')
     in then_do (compare_repositories parse baseRepository headRepository) (\<lambda>_.
        Inr \<lparr>rc_proofLevel = proof_level baseRepository headRepository evb evh,
             rc_base = side_of base evb baseRepository, rc_head = side_of head evh headRepository,
             rc_components = compareEntities baseComponents headComponents K_component COMPONENT_FIELDS describe_component,
             rc_connections = compareEntities baseConnections headConnections K_connection CONNECTION_FIELDS describe_connection,
             rc_boundaries = compareEntities baseBoundaries headBoundaries K_boundary BOUNDARY_FIELDS describe_boundary,
             rc_presentationChanged = presentationChanged base head,
             rc_provenanceChanged = (\<not> equal_json (map_option JObj baseRepository) (map_option JObj headRepository)),
             rc_visualPreset = or_json (meta_field head ''visual_preset'') (JStr ''classic'')\<rparr>)))))))))"

text \<open>The three summaries of a receipt.\<close>

definition component_summary :: "receipt \<Rightarrow> (string \<times> nat) list" where
  "component_summary r = summaryFor (rc_components r) [''added'', ''changed'', ''evidenceChanged'', ''removed'', ''moved'']"

definition connection_summary :: "receipt \<Rightarrow> (string \<times> nat) list" where
  "connection_summary r = summaryFor (rc_connections r) [''added'', ''changed'', ''removed'', ''rerouted'']"

definition boundary_summary :: "receipt \<Rightarrow> (string \<times> nat) list" where
  "boundary_summary r = summaryFor (rc_boundaries r) [''added'', ''changed'', ''removed'', ''geometryChanged'']"

subsection \<open>Rows of the change navigator\<close>

record change_row =
  rw_kind :: string
  rw_kindKey :: string
  rw_key :: string
  rw_id :: string
  rw_change :: change

primrec what_id :: "description \<Rightarrow> string" where
  "what_id (D_component x _ _) = x"
| "what_id (D_connection x _ _) = x"
| "what_id (D_boundary k _ _) = k"

definition row_of :: "string \<Rightarrow> string \<Rightarrow> change \<Rightarrow> change_row" where
  "row_of kind kindKey ch =
     \<lparr>rw_kind = kind, rw_kindKey = kindKey, rw_key = kindKey @ '':'' @ what_id (ch_what ch), rw_id = what_id (ch_what ch), rw_change = ch\<rparr>"

definition row_order :: "change_row \<Rightarrow> string" where
  "row_order r = ch_status (rw_change r) @ '':'' @ rw_kind r @ '':'' @ rw_id r"

definition architectureDeltaChangeRows :: "receipt \<Rightarrow> change_row list" where
  "architectureDeltaChangeRows r =
     sort_key row_order
       (map (row_of ''Component'' ''component'') (rc_components r) @ map (row_of ''Relationship'' ''relationship'') (rc_connections r) @
        map (row_of ''Boundary'' ''boundary'') (rc_boundaries r))"

definition reviewPrimaryStates :: "change_row \<Rightarrow> string list" where
  "reviewPrimaryStates row =
     (let status = ch_status (rw_change row); cs = set (ch_classifications (rw_change row))
      in if rw_kindKey row = ''component'' \<and> ''geometry'' \<in> cs then [status, ''moved-from'']
         else if rw_kindKey row = ''relationship'' \<and> status = ''changed'' \<and> ''topology'' \<in> cs then [''changed'', ''removed'']
         else if rw_kindKey row = ''relationship'' \<and> ''geometry'' \<in> cs then [''moved-from'', status]
         else if rw_kindKey row = ''boundary'' \<and> status \<in> {''changed'', ''geometry-changed''} then sort [status, ''moved-from'']
         else [status])"

text \<open>The forms of a changed relationship: state, marker and whether it has a label.\<close>

definition edge_forms :: "change \<Rightarrow> (string \<times> string \<times> bool) list" where
  "edge_forms ch =
     (let label = (\<lambda>e. case e of Some p \<Rightarrow> json_truthy (Some (en_label p)) | None \<Rightarrow> False);
          sides = (case ch_what ch of D_connection _ b h \<Rightarrow> (label b, label h) | _ \<Rightarrow> (False, False))
      in if ch_status ch = ''added'' then [(''added'', ''added'', snd sides)]
         else if ch_status ch = ''removed'' then [(''removed'', ''removed'', fst sides)]
         else if ''topology'' \<in> set (ch_classifications ch) then [(''removed'', ''removed'', fst sides), (''changed'', ''added'', snd sides)]
         else if ''geometry'' \<in> set (ch_classifications ch)
              then [(''moved-from'', ''moved-from'', fst sides), (ch_status ch, ch_status ch, snd sides)]
         else [(''changed'', ''changed'', snd sides)])"

definition expectedReviewTargetSignature :: "change_row \<Rightarrow> string" where
  "expectedReviewTargetSignature row =
     (let classifications = join '','' (ch_classifications (rw_change row));
          descriptors =
            (if rw_kindKey row = ''component'' then map (\<lambda>st. ''g:'' @ st @ '':'' @ classifications) (reviewPrimaryStates row)
             else if rw_kindKey row = ''boundary''
                  then concat (map (\<lambda>st. [''rect:'' @ st @ '':'' @ classifications, ''text:'' @ st @ '':'']) (reviewPrimaryStates row))
             else concat (map (\<lambda>(st, marker, labelled). [''path:'' @ st @ '':'' @ classifications, ''text:'' @ marker @ '':''] @
                    (if labelled then [''g:'' @ st @ '':'' @ classifications] else [])) (edge_forms (rw_change row))))
      in join ''|'' (sort descriptors))"

definition count_of :: "(string \<times> nat) list \<Rightarrow> string \<Rightarrow> nat" where
  "count_of summary key = nullish (map_of summary key) 0"

definition total :: "receipt \<Rightarrow> string \<Rightarrow> nat" where
  "total r key = count_of (component_summary r) key + count_of (connection_summary r) key + count_of (boundary_summary r) key"

subsection \<open>Escaping\<close>

definition replaceAll :: "char \<Rightarrow> string \<Rightarrow> string \<Rightarrow> string" where
  "replaceAll c r s = concat (map (\<lambda>x. if x = c then r else [x]) s)"

definition esc :: "string \<Rightarrow> string" where
  "esc v = replaceAll (CHR 0x27) ''&#39;'' (replaceAll (CHR 0x22) ''&quot;'' (replaceAll (CHR ''>'') ''&gt;''
     (replaceAll (CHR ''<'') ''&lt;'' (replaceAll (CHR ''&'') ''&amp;'' v))))"

text \<open>What a browser reads in the place of the five references.\<close>

definition references :: "(string \<times> char) list" where
  "references = [(''&amp;'', CHR ''&''), (''&lt;'', CHR ''<''), (''&gt;'', CHR ''>''), (''&quot;'', CHR 0x22), (''&#39;'', CHR 0x27)]"

fun unesc :: "string \<Rightarrow> string" where
  "unesc [] = []"
| "unesc (c # s) =
     (case find (\<lambda>(e, x). take (length e) (c # s) = e) references of
        Some (e, x) \<Rightarrow> x # unesc (drop (length e - 1) s)
      | None \<Rightarrow> c # unesc s)"

subsection \<open>Escaping lemmas\<close>

definition esc_char :: "char \<Rightarrow> string" where
  "esc_char c =
     (if c = CHR ''&'' then ''&amp;'' else if c = CHR ''<'' then ''&lt;'' else if c = CHR ''>'' then ''&gt;''
      else if c = CHR 0x22 then ''&quot;'' else if c = CHR 0x27 then ''&#39;'' else [c])"

lemma replaceAll_append: "replaceAll c r (a @ b) = replaceAll c r a @ replaceAll c r b"
  by (simp add: replaceAll_def)

text \<open>The chain of replacements acts on each character alone: no later one touches what an earlier one inserted.\<close>

lemma esc_append: "esc (a @ b) = esc a @ esc b"
  by (simp add: esc_def replaceAll_append)

lemma esc_single: "esc [c] = esc_char c"
proof (cases "c \<in> {CHR ''&'', CHR ''<'', CHR ''>'', CHR 0x22, CHR 0x27}")
  case True
  then show ?thesis by (elim insertE emptyE) (simp_all add: esc_def replaceAll_def esc_char_def)
next
  case False
  then show ?thesis by (simp add: esc_def replaceAll_def esc_char_def)
qed

lemma esc_chars: "esc s = concat (map esc_char s)"
proof (induction s)
  case Nil
  then show ?case by (simp add: esc_def replaceAll_def)
next
  case (Cons c s)
  then show ?case using esc_append [of "[c]" s] by (simp add: esc_single)
qed

lemma unesc_char: "unesc (esc_char c @ s) = c # unesc s"
proof (cases "c \<in> {CHR ''&'', CHR ''<'', CHR ''>'', CHR 0x22, CHR 0x27}")
  case True
  then show ?thesis by (elim insertE emptyE) (simp_all add: esc_char_def references_def)
next
  case False
  then show ?thesis by (simp add: esc_char_def references_def)
qed

lemma unesc_esc: "unesc (esc s) = s"
  by (induction s) (simp_all add: esc_chars unesc_char)

lemma esc_char_safe: "set (esc_char c) \<inter> {CHR ''<'', CHR ''>'', CHR 0x22, CHR 0x27} = {}"
  by (auto simp: esc_char_def)

text \<open>C37. Text survives escaping: what a browser reads from an escaped string is the string, and the escaped string has
  no angle bracket and no quote, so it can neither open a tag nor leave an attribute.\<close>

theorem esc_roundtrip: "unesc (esc s) = s \<and> set (esc s) \<inter> {CHR ''<'', CHR ''>'', CHR 0x22, CHR 0x27} = {}"
  using unesc_esc [of s] esc_char_safe by (auto simp: esc_chars)

subsection \<open>Indexes\<close>

text \<open>An index built from a list by a key, and the lists for which that works.\<close>

definition stable :: "json_object list \<Rightarrow> bool" where
  "stable items \<longleftrightarrow> (\<forall>item \<in> set items. stable_id item \<noteq> None) \<and> distinct (map stable_id items)"

definition indexed :: "json_object list \<Rightarrow> entity_index" where
  "indexed items = map (\<lambda>item. (the (stable_id item), item)) items"

definition distinct_boundaries :: "json_object list \<Rightarrow> bool" where
  "distinct_boundaries bs \<longleftrightarrow> distinct (map boundaryKey bs)"

definition indexed_boundaries :: "json_object list \<Rightarrow> entity_index" where
  "indexed_boundaries bs = map (\<lambda>b. (boundaryKey b, b)) bs"

lemma jset_fresh: "\<not> jhas m k \<Longrightarrow> jset m k v = m @ [(k, v)]"
  by (induction m) (auto simp: jset_def jhas_def jget_def split: if_splits)

lemma index_items_faults:
  "index_items c i items (index, missing, duplicates) = (index', missing', duplicates') \<Longrightarrow>
     (\<exists>m. missing' = missing @ m) \<and> (\<exists>d. duplicates' = duplicates @ d)"
  by (induction c i items "(index, missing, duplicates)" arbitrary: index missing duplicates rule: index_items.induct)
    (fastforce split: option.splits if_splits)+

text \<open>The items can be added to the index: every id is there, none is repeated, none is in use.\<close>

definition addable :: "entity_index \<Rightarrow> json_object list \<Rightarrow> bool" where
  "addable index items \<longleftrightarrow> stable items \<and> (\<forall>item \<in> set items. \<not> jhas index (the (stable_id item)))"

lemma index_items_ok:
  "if addable index items then index_items c i items (index, [], []) = (index @ indexed items, [], [])
   else snd (index_items c i items (index, [], [])) \<noteq> ([], [])"
proof (induction items arbitrary: i index)
  case Nil
  then show ?case by (simp add: addable_def stable_def indexed_def)
next
  case (Cons item items)
  show ?case
  proof (cases "stable_id item")
    case None
    obtain a m d where r: "index_items c (Suc i) items (index, [''/'' @ c @ ''/'' @ show_nat i @ ''/id''], []) = (a, m, d)" by (metis prod_cases3)
    from index_items_faults [OF r] None r show ?thesis by (auto simp: addable_def stable_def)
  next
    case (Some s)
    show ?thesis
    proof (cases "jhas index s")
      case True
      obtain a m d where r: "index_items c (Suc i) items (index, [], [s]) = (a, m, d)" by (metis prod_cases3)
      from index_items_faults [OF r] True Some r show ?thesis by (auto simp: addable_def)
    next
      case False
      then have j: "jset index s item = index @ [(s, item)]" by (rule jset_fresh)
      have h: "jhas (index @ [(s, item)]) x \<longleftrightarrow> jhas index x \<or> x = s" for x
        by (auto simp: jhas_iff_key jkeys_def)
      have "addable index (item # items) = addable (index @ [(s, item)]) items"
        unfolding addable_def stable_def using Some False h by (auto simp: image_iff) (metis option.sel)+
      with Cons [of "index @ [(s, item)]" "Suc i"] Some False j show ?thesis by (simp add: indexed_def)
    qed
  qed
qed

lemma stableIndex_iff:
  "stableIndex items collection side code = Inr index \<longleftrightarrow> stable (nullish items []) \<and> index = indexed (nullish items [])"
  using index_items_ok [of "[]" "nullish items []" collection 0]
  by (auto simp: stableIndex_def addable_def jhas_def split: prod.splits if_splits)

lemma index_boundaries_faults: "index_boundaries bs (index, ambiguous) = (index', ambiguous') \<Longrightarrow> \<exists>a. ambiguous' = ambiguous @ a"
  by (induction bs "(index, ambiguous)" arbitrary: index ambiguous rule: index_boundaries.induct) (fastforce split: if_splits)+

lemma index_boundaries_ok:
  "if distinct_boundaries bs \<and> (\<forall>b \<in> set bs. \<not> jhas index (boundaryKey b))
   then index_boundaries bs (index, []) = (index @ indexed_boundaries bs, []) else snd (index_boundaries bs (index, [])) \<noteq> []"
proof (induction bs arbitrary: index)
  case (Cons b bs)
  show ?case
  proof (cases "jhas index (boundaryKey b)")
    case True
    obtain a m where r: "index_boundaries bs (index, [shown_key b]) = (a, m)" by fastforce
    from index_boundaries_faults [OF r] True r show ?thesis by auto
  next
    case False
    have h: "jhas (index @ [(k, b)]) x \<longleftrightarrow> jhas index x \<or> x = k" for x k
      by (auto simp: jhas_iff_key jkeys_def)
    from Cons [of "index @ [(boundaryKey b, b)]"] False jset_fresh [OF False, of b] h show ?thesis
      by (auto simp: distinct_boundaries_def indexed_boundaries_def image_iff split: if_splits)
  qed
qed (simp add: distinct_boundaries_def indexed_boundaries_def)

lemma boundaryIndex_iff:
  "boundaryIndex bs side = Inr index \<longleftrightarrow> distinct_boundaries (nullish bs []) \<and> index = indexed_boundaries (nullish bs [])"
  using index_boundaries_ok [of "nullish bs []" "[]"]
  by (auto simp: boundaryIndex_def jhas_def split: prod.splits if_splits)

subsection \<open>When snapshots can be compared\<close>

definition architecture_shape :: "diagram \<Rightarrow> bool" where
  "architecture_shape d \<longleftrightarrow> ar_schema_version d = Some (JNum 1) \<and> ar_diagram_type d = Some (JStr ''architecture'')"

definition same_repository :: "remote_parser \<Rightarrow> diagram \<Rightarrow> diagram \<Rightarrow> bool" where
  "same_repository parse base head \<longleftrightarrow>
     (case (normalizeRepository parse (meta_field base ''repository''), normalizeRepository parse (meta_field head ''repository'')) of
        (Some b, Some h) \<Rightarrow> repository_identity parse b = repository_identity parse h
      | _ \<Rightarrow> True)"

abbreviation components :: "diagram \<Rightarrow> json_object list" where "components d \<equiv> nullish (ar_components d) []"
abbreviation connections :: "diagram \<Rightarrow> json_object list" where "connections d \<equiv> nullish (ar_connections d) []"
abbreviation boundaries :: "diagram \<Rightarrow> json_object list" where "boundaries d \<equiv> nullish (ar_boundaries d) []"

definition comparable :: "remote_parser \<Rightarrow> diagram \<Rightarrow> diagram \<Rightarrow> bool" where
  "comparable parse base head \<longleftrightarrow>
     architecture_shape base \<and> architecture_shape head \<and> stable (components base) \<and> stable (components head) \<and>
     stable_id ` set (components base) \<inter> stable_id ` set (components head) \<noteq> {} \<and>
     stable (connections base) \<and> stable (connections head) \<and> distinct_boundaries (boundaries base) \<and> distinct_boundaries (boundaries head) \<and>
     same_repository parse base head"

lemma shape_iff: "requireComparableShape d side = Inr () \<longleftrightarrow> architecture_shape d"
  by (simp add: requireComparableShape_def architecture_shape_def text_value_def)

lemma then_do_iff: "(case r of Inl e \<Rightarrow> Inl e | Inr a \<Rightarrow> f a) = Inr b \<longleftrightarrow> (\<exists>a. r = Inr a \<and> f a = Inr b)"
  by (auto split: sum.splits)

lemma repositories_iff:
  "compare_repositories parse (normalizeRepository parse (meta_field base ''repository'')) (normalizeRepository parse (meta_field head ''repository'')) = Inr ()
     \<longleftrightarrow> same_repository parse base head"
  by (auto simp: compare_repositories_def same_repository_def split: option.splits)

lemma jhas_indexed: "stable items \<Longrightarrow> jhas (indexed items) x \<longleftrightarrow> Some x \<in> stable_id ` set items"
  by (force simp: jhas_iff_key jkeys_def indexed_def stable_def image_iff)

lemma shared_iff:
  assumes "stable a" "stable b"
  shows "filter (jhas (indexed b)) (jkeys (indexed a)) \<noteq> [] \<longleftrightarrow> stable_id ` set a \<inter> stable_id ` set b \<noteq> {}"
proof -
  have "filter (jhas (indexed b)) (jkeys (indexed a)) \<noteq> [] \<longleftrightarrow> (\<exists>x. jhas (indexed a) x \<and> jhas (indexed b) x)"
    by (auto simp: filter_empty_conv jhas_iff_key [of "indexed a"])
  also have "\<dots> \<longleftrightarrow> (\<exists>x. Some x \<in> stable_id ` set a \<and> Some x \<in> stable_id ` set b)"
    using jhas_indexed [OF assms(1)] jhas_indexed [OF assms(2)] by simp
  also have "\<dots> \<longleftrightarrow> stable_id ` set a \<inter> stable_id ` set b \<noteq> {}"
    using assms unfolding stable_def by (auto simp: image_iff, metis option.exhaust)
  finally show ?thesis .
qed

text \<open>A successful comparison and its receipt.\<close>

lemma compare_receipt:
  "compareArchitecture parse base head evb evh = Inr r \<longleftrightarrow> comparable parse base head \<and>
     (let br = normalizeRepository parse (meta_field base ''repository''); hr = normalizeRepository parse (meta_field head ''repository'')
      in r = \<lparr>rc_proofLevel = proof_level br hr evb evh, rc_base = side_of base evb br, rc_head = side_of head evh hr,
             rc_components = compareEntities (indexed (components base)) (indexed (components head)) K_component COMPONENT_FIELDS describe_component,
             rc_connections = compareEntities (indexed (connections base)) (indexed (connections head)) K_connection CONNECTION_FIELDS describe_connection,
             rc_boundaries = compareEntities (indexed_boundaries (boundaries base)) (indexed_boundaries (boundaries head)) K_boundary BOUNDARY_FIELDS describe_boundary,
             rc_presentationChanged = presentationChanged base head,
             rc_provenanceChanged = (\<not> equal_json (map_option JObj br) (map_option JObj hr)),
             rc_visualPreset = or_json (meta_field head ''visual_preset'') (JStr ''classic'')\<rparr>)"
proof -
  have if_iff: "(if c then Inl e else q) = Inr b \<longleftrightarrow> \<not> c \<and> q = Inr b" for c and e :: delta_error and q :: "delta_error + receipt" and b by simp
  show ?thesis
    unfolding compareArchitecture_def comparable_def Let_def then_do_iff if_iff stableIndex_iff boundaryIndex_iff
    using shape_iff repositories_iff [of parse base head] shared_iff [of "components base" "components head"] by auto
qed

subsection \<open>Changes are exact\<close>

definition entity :: "json_object list \<Rightarrow> string \<Rightarrow> json_object option" where
  "entity items x = find (\<lambda>item. stable_id item = Some x) items"

definition tracked :: "field_groups \<Rightarrow> string list" where
  "tracked groups = concat (map snd groups)"

text \<open>The two items agree on every field that is compared.\<close>

definition agree :: "field_groups \<Rightarrow> json_object \<Rightarrow> json_object \<Rightarrow> bool" where
  "agree groups b h \<longleftrightarrow> (\<forall>f \<in> set (tracked groups). equal_json (normalizedField b f) (normalizedField h f))"

definition differs :: "field_groups \<Rightarrow> json_object option \<Rightarrow> json_object option \<Rightarrow> bool" where
  "differs groups b h =
     (case (b, h) of (Some b', Some h') \<Rightarrow> \<not> agree groups b' h' | (None, None) \<Rightarrow> False | _ \<Rightarrow> True)"

text \<open>The classifications for which there is a status.\<close>

definition known_groups :: "field_groups \<Rightarrow> bool" where
  "known_groups groups \<longleftrightarrow> set (map fst groups) \<subseteq> {''topology'', ''semantic'', ''scope'', ''evidence'', ''geometry''}"

lemma known_fields: "known_groups COMPONENT_FIELDS" "known_groups CONNECTION_FIELDS" "known_groups BOUNDARY_FIELDS"
  by (simp_all add: known_groups_def COMPONENT_FIELDS_def CONNECTION_FIELDS_def BOUNDARY_FIELDS_def)

lemma jget_indexed: "stable items \<Longrightarrow> jget (indexed items) x = entity items x"
  unfolding jget_def indexed_def entity_def stable_def by (induction items) auto

lemma unique_set: "set (unique xs) = set xs" "distinct (unique xs)"
  by (simp_all add: unique_def)

lemma finite_jdom: "finite (dom (jget m))"
proof -
  have "jget m = map_of m" by (simp add: fun_eq_iff jget_def)
  then show ?thesis by (simp add: finite_dom_map_of)
qed

lemma all_ids_sorted: "all_ids a b = sorted_list_of_set (dom (jget a) \<union> dom (jget b))"
proof -
  have "set (jkeys m) = dom (jget m)" for m :: entity_index
    using jhas_iff_key [of m] by (auto simp: jhas_def)
  then show ?thesis unfolding all_ids_def
    by (intro sorted_distinct_set_unique) (simp_all add: unique_set finite_jdom)
qed

lemma statusFor_same: "set cs \<subseteq> {''topology'', ''semantic'', ''scope'', ''evidence'', ''geometry''} \<Longrightarrow> statusFor cs kind = ''same'' \<longleftrightarrow> cs = []"
  by (cases kind; cases cs) (auto simp: statusFor_def)

lemma fieldChanges_none: "fst (fieldChanges b h groups) = [] \<longleftrightarrow> agree groups b h"
proof -
  have "sort (map fst xs) = [] \<longleftrightarrow> xs = []" for xs :: "(string \<times> string list) list" by (metis length_0_conv length_map length_sort)
  then show ?thesis unfolding fieldChanges_def agree_def tracked_def changed_in_def
    by (force simp: filter_empty_conv)
qed

lemma compare_entity_None:
  assumes "known_groups groups"
  shows "compare_entity kind groups describe x b h = None \<longleftrightarrow> (\<exists>b' h'. b = Some b' \<and> h = Some h' \<and> agree groups b' h')"
proof (cases b; cases h)
  fix b' h'
  assume bh: "b = Some b'" "h = Some h'"
  obtain cs fs where f: "fieldChanges b' h' groups = (cs, fs)" by fastforce
  then have "set cs \<subseteq> set (map fst groups)" by (auto simp: fieldChanges_def)
  with assms have "statusFor cs kind = ''same'' \<longleftrightarrow> cs = []" unfolding known_groups_def by (intro statusFor_same) auto
  then show ?thesis using fieldChanges_none [of b' h' groups] f bh by (simp add: compare_entity_def Let_def)
qed (simp_all add: compare_entity_def)

lemma compare_entity_what: "compare_entity kind groups describe x b h = Some ch \<Longrightarrow> ch_what ch = describe x b h"
  by (auto simp: compare_entity_def Let_def split: option.splits prod.splits if_splits)

text \<open>The entities reported, by id: exactly those that differ, each once, in the order of their ids.\<close>

lemma reported:
  assumes "known_groups groups" and "\<And>x b h. what_id (describe x b h) = x"
  shows "map (what_id \<circ> ch_what) (compareEntities a b kind groups describe) =
     filter (\<lambda>x. differs groups (jget a x) (jget b x)) (sorted_list_of_set (dom (jget a) \<union> dom (jget b)))"
proof -
  let ?ids = "sorted_list_of_set (dom (jget a) \<union> dom (jget b))"
  have "x \<in> set ?ids \<Longrightarrow> differs groups (jget a x) (jget b x) \<longleftrightarrow> compare_entity kind groups describe x (jget a x) (jget b x) \<noteq> None" for x
    by (auto simp: compare_entity_None [OF assms(1)] differs_def finite_jdom split: option.splits)
  moreover have "map (what_id \<circ> ch_what) (List.map_filter (\<lambda>x. compare_entity kind groups describe x (jget a x) (jget b x)) xs) =
      filter (\<lambda>x. compare_entity kind groups describe x (jget a x) (jget b x) \<noteq> None) xs" for xs
    by (induction xs) (auto simp: List.map_filter_simps compare_entity_what assms(2))
  ultimately show ?thesis unfolding compareEntities_def all_ids_sorted by (metis (mono_tags, lifting) filter_cong)
qed

lemma entity_dom: "stable items \<Longrightarrow> dom (entity items) = (\<lambda>item. the (stable_id item)) ` set items"
proof -
  assume "stable items"
  moreover from this have "jget (indexed items) = entity items" using jget_indexed by (simp add: fun_eq_iff)
  moreover have "dom (jget (indexed items)) = set (jkeys (indexed items))" using jhas_iff_key [of "indexed items"] by (auto simp: jhas_def)
  ultimately show ?thesis by (simp add: jkeys_def indexed_def image_image)
qed

text \<open>The ids of the snapshots that differ, in order.\<close>

definition differing :: "field_groups \<Rightarrow> json_object list \<Rightarrow> json_object list \<Rightarrow> string list" where
  "differing groups base head =
     filter (\<lambda>x. differs groups (entity base x) (entity head x))
       (sorted_list_of_set ((\<lambda>item. the (stable_id item)) ` (set base \<union> set head)))"

lemma reported_items:
  assumes "known_groups groups" and "\<And>x b h. what_id (describe x b h) = x" and "stable base" "stable head"
  shows "map (what_id \<circ> ch_what) (compareEntities (indexed base) (indexed head) kind groups describe) = differing groups base head"
proof -
  have "jget (indexed base) = entity base" "jget (indexed head) = entity head" using jget_indexed assms(3,4) by (simp_all add: fun_eq_iff)
  then show ?thesis unfolding reported [OF assms(1,2)] differing_def by (simp add: entity_dom assms(3,4) image_Un)
qed

text \<open>C34. The receipt is exact on components and connections: a comparison lists, in the order of their ids and each once, exactly the
  ids that occur in only one snapshot and those whose two items differ in a compared field, up to the order of keys, of sources and of
  wrapped ids.\<close>

theorem delta_exact:
  assumes "compareArchitecture parse base head evb evh = Inr r"
  shows "map (what_id \<circ> ch_what) (rc_components r) = differing COMPONENT_FIELDS (components base) (components head) \<and>
    map (what_id \<circ> ch_what) (rc_connections r) = differing CONNECTION_FIELDS (connections base) (connections head)"
  using assms reported_items [OF known_fields(1), of describe_component] reported_items [OF known_fields(2), of describe_connection]
  by (simp add: compare_receipt comparable_def Let_def describe_component_def describe_connection_def)

text \<open>C36. Comparison fails closed: it succeeds exactly for two architecture snapshots in which every component and connection has its own
  id, no two boundaries share kind and label, some component id occurs in both and, where both name one, the repository is
  the same; otherwise it reports an error.\<close>

theorem delta_fails_closed: "(\<exists>r. compareArchitecture parse base head evb evh = Inr r) \<longleftrightarrow> comparable parse base head"
  by (simp add: compare_receipt Let_def)

subsection \<open>Order does not matter\<close>

text \<open>The same diagram with components, connections and boundaries listed in another order.\<close>

definition reordered :: "diagram \<Rightarrow> diagram \<Rightarrow> bool" where
  "reordered d d' \<longleftrightarrow>
     mset (components d) = mset (components d') \<and> mset (connections d) = mset (connections d') \<and> mset (boundaries d) = mset (boundaries d') \<and>
     ar_schema_version d' = ar_schema_version d \<and> ar_diagram_type d' = ar_diagram_type d \<and> ar_meta d' = ar_meta d \<and>
     ar_layout d' = ar_layout d \<and> ar_cards d' = ar_cards d"

lemma stable_perm: "mset a = mset b \<Longrightarrow> stable a \<longleftrightarrow> stable b"
  unfolding stable_def by (metis mset_eq_imp_distinct_iff mset_eq_setD mset_map)

lemma boundaries_perm: "mset a = mset b \<Longrightarrow> distinct_boundaries a \<longleftrightarrow> distinct_boundaries b"
  unfolding distinct_boundaries_def by (metis mset_eq_imp_distinct_iff mset_map)

lemma stable_distinct: "stable items \<Longrightarrow> distinct (map (\<lambda>item. the (stable_id item)) items)"
  unfolding stable_def distinct_map inj_on_def by (metis option.expand)

lemma map_of_perm: "distinct (map fst xs) \<Longrightarrow> mset xs = mset ys \<Longrightarrow> map_of xs = map_of ys"
  by (metis map_of_inject_set mset_eq_imp_distinct_iff mset_eq_setD mset_map)

lemma jget_indexed_perm: "stable a \<Longrightarrow> mset a = mset b \<Longrightarrow> jget (indexed a) = jget (indexed b)"
  unfolding jget_def indexed_def fun_eq_iff
  using map_of_perm [of "map (\<lambda>item. (the (stable_id item), item)) a" "map (\<lambda>item. (the (stable_id item), item)) b"]
  by (simp add: comp_def stable_distinct)

lemma jget_boundaries_perm: "distinct_boundaries a \<Longrightarrow> mset a = mset b \<Longrightarrow> jget (indexed_boundaries a) = jget (indexed_boundaries b)"
  unfolding jget_def indexed_boundaries_def fun_eq_iff
  using map_of_perm [of "map (\<lambda>b. (boundaryKey b, b)) a" "map (\<lambda>b. (boundaryKey b, b)) b"]
  by (simp add: comp_def distinct_boundaries_def)

lemma compareEntities_cong:
  "jget a = jget a' \<Longrightarrow> jget b = jget b' \<Longrightarrow> compareEntities a b kind groups describe = compareEntities a' b' kind groups describe"
  unfolding compareEntities_def all_ids_sorted by simp

lemma stable_id_texts:
  "stable_id item \<noteq> None \<Longrightarrow> js_string_opt (map_of item ''id'') = the (stable_id item)"
  "stable_id item \<noteq> None \<Longrightarrow> js_string (or_json (map_of item ''id'') (JStr [])) = the (stable_id item)"
  by (auto simp: stable_id_def js_string_opt_def or_json_def json_truthy_def split: option.splits json.splits if_splits)

lemma normalize_keys:
  "map_of (normalizeComponent c) ''id'' = map_of c ''id''" "boundaryKey (normalizeBoundary b) = boundaryKey b"
proof -
  have other: "map_of (jset m k v) x = map_of m x" if "x \<noteq> k" for m k v x
    using jget_jset_other [OF that, of m v] by (simp add: jget_def)
  show "map_of (normalizeComponent c) ''id'' = map_of c ''id''" by (simp add: normalizeComponent_def other split: option.split json.split)
  show "boundaryKey (normalizeBoundary b) = boundaryKey b" by (simp add: normalizeBoundary_def boundaryKey_def other)
qed

lemma canonical_reordered:
  assumes "reordered d d'" "stable (components d)" "stable (connections d)" "distinct_boundaries (boundaries d)"
  shows "canonicalArchitecture parse d' = canonicalArchitecture parse d"
proof -
  have d: "distinct (map (\<lambda>c. js_string_opt (map_of c ''id'')) (map normalizeComponent (components d)))"
    "distinct (map (\<lambda>c. js_string (or_json (map_of c ''id'') (JStr []))) (connections d))"
    "distinct (map boundaryKey (map normalizeBoundary (boundaries d)))"
    using stable_distinct [OF assms(2)] stable_distinct [OF assms(3)] assms(2-4) stable_id_texts
    by (auto simp: normalize_keys comp_def distinct_boundaries_def stable_def cong: map_cong)
  have m: "mset (map normalizeComponent (components d)) = mset (map normalizeComponent (components d'))"
    "mset (connections d) = mset (connections d')" "mset (map normalizeBoundary (boundaries d)) = mset (map normalizeBoundary (boundaries d'))"
    using assms(1) by (simp_all add: reordered_def)
  have "canonical_meta parse d' = canonical_meta parse d" using assms(1) by (simp add: canonical_meta_def reordered_def)
  with sort_key_perm [OF d(1) m(1)] sort_key_perm [OF d(2) m(2)] sort_key_perm [OF d(3) m(3)] assms(1)
  show ?thesis by (simp add: canonicalArchitecture_def reordered_def)
qed

text \<open>C35. The order in which a snapshot lists its components, connections and boundaries is irrelevant: reordering them on both sides leaves
  the whole receipt and the canonical text, from which the semantic hash is computed, unchanged.\<close>

theorem delta_order_independent:
  assumes "compareArchitecture parse base head evb evh = Inr r" and "reordered base base'" "reordered head head'"
  shows "compareArchitecture parse base' head' evb evh = Inr r \<and> canonicalArchitectureJson parse base' = canonicalArchitectureJson parse base"
proof -
  have c: "comparable parse base head" using assms(1) by (simp add: compare_receipt)
  have meta: "meta_field base' = meta_field base" "meta_field head' = meta_field head"
    using assms(2,3) by (simp_all add: fun_eq_iff meta_field_def reordered_def)
  have sets: "set (components base') = set (components base)" "set (components head') = set (components head)"
    using assms(2,3) unfolding reordered_def by (metis mset_eq_setD)+
  have st: "stable (components base')" "stable (components head')" "stable (connections base')" "stable (connections head')"
    "distinct_boundaries (boundaries base')" "distinct_boundaries (boundaries head')"
    using c assms(2,3) stable_perm boundaries_perm unfolding comparable_def reordered_def by metis+
  then have "comparable parse base' head'"
    using c assms(2,3) by (simp add: comparable_def sets meta same_repository_def architecture_shape_def reordered_def)
  moreover have "compareEntities (indexed (components base')) (indexed (components head')) = compareEntities (indexed (components base)) (indexed (components head))"
    "compareEntities (indexed (connections base')) (indexed (connections head')) = compareEntities (indexed (connections base)) (indexed (connections head))"
    "compareEntities (indexed_boundaries (boundaries base')) (indexed_boundaries (boundaries head')) = compareEntities (indexed_boundaries (boundaries base)) (indexed_boundaries (boundaries head))"
    using c assms(2,3) unfolding fun_eq_iff comparable_def reordered_def
    by (auto intro!: compareEntities_cong jget_indexed_perm [symmetric] jget_boundaries_perm [symmetric])
  moreover have "presentationChanged base' head' = presentationChanged base head" "side_of base' = side_of base" "side_of head' = side_of head"
    using assms(2,3) by (simp_all add: presentationChanged_def presentation_def side_of_def fun_eq_iff meta reordered_def)
  ultimately have "compareArchitecture parse base' head' evb evh = Inr r" using assms(1) by (simp add: compare_receipt Let_def meta)
  moreover have "canonicalArchitectureJson parse base' = canonicalArchitectureJson parse base"
    using c canonical_reordered [OF assms(2)] by (simp add: canonicalArchitectureJson_def comparable_def)
  ultimately show ?thesis by blast
qed

subsection \<open>Summary and rows\<close>

lemma jset_sum: "jget (m :: (string, nat) jsmap) k = Some n \<Longrightarrow> sum_list (map snd (jset m k (n + 1))) = sum_list (map snd m) + 1"
  by (induction m) (auto simp: jget_def jset_def split: if_splits)

lemma bump_sum: "jhas m k \<Longrightarrow> sum_list (map snd (bump k m)) = sum_list (map snd m) + 1 \<and> jkeys (bump k m) = jkeys m"
  using jset_sum [of m k] by (auto simp: bump_def jhas_def jkeys_jset)

lemma fold_bump:
  "\<forall>ch \<in> set chs. f ch \<in> set (jkeys m) \<Longrightarrow> sum_list (map snd (fold (\<lambda>ch. bump (f ch)) chs m)) = sum_list (map snd m) + length chs"
  by (induction chs arbitrary: m) (auto simp: bump_sum jhas_iff_key)

lemma summary_sum: "\<forall>ch \<in> set chs. camel (ch_status ch) \<in> set shape \<Longrightarrow> sum_list (map snd (summaryFor chs shape)) = length chs"
  unfolding summaryFor_def by (subst fold_bump) (auto simp: jkeys_def comp_def)

lemma entity_status:
  assumes "ch \<in> set (compareEntities a b kind groups describe)"
  shows "ch_status ch \<in> {''added'', ''removed''} \<or>
    (\<exists>cs. set cs \<subseteq> fst ` set groups \<and> ch_status ch = statusFor cs kind \<and> ch_status ch \<noteq> ''same'')"
proof -
  obtain x where "compare_entity kind groups describe x (jget a x) (jget b x) = Some ch"
    using assms by (auto simp: compareEntities_def List.map_filter_def)
  then show ?thesis by (fastforce simp: compare_entity_def fieldChanges_def Let_def split: option.splits if_splits)
qed

lemma status_names:
  "ch \<in> set (compareEntities a b K_component COMPONENT_FIELDS d) \<Longrightarrow>
     ch_status ch \<in> {''added'', ''removed'', ''changed'', ''evidence-changed'', ''moved''}"
  "ch \<in> set (compareEntities a b K_connection CONNECTION_FIELDS d) \<Longrightarrow> ch_status ch \<in> {''added'', ''removed'', ''changed'', ''rerouted''}"
  "ch \<in> set (compareEntities a b K_boundary BOUNDARY_FIELDS d) \<Longrightarrow> ch_status ch \<in> {''added'', ''removed'', ''changed'', ''geometry-changed''}"
  by (drule entity_status, auto simp: statusFor_def CONNECTION_FIELDS_def BOUNDARY_FIELDS_def split: if_splits)+

lemma camel_status:
  "camel ''added'' = ''added''" "camel ''removed'' = ''removed''" "camel ''changed'' = ''changed''" "camel ''moved'' = ''moved''"
  "camel ''rerouted'' = ''rerouted''" "camel ''evidence-changed'' = ''evidenceChanged''" "camel ''geometry-changed'' = ''geometryChanged''"
  by code_simp+

declare camel.simps [simp del]

lemma summary_totals:
  assumes "compareArchitecture parse base head evb evh = Inr r"
  shows "sum_list (map snd (component_summary r)) = length (rc_components r)"
    and "sum_list (map snd (connection_summary r)) = length (rc_connections r)"
    and "sum_list (map snd (boundary_summary r)) = length (rc_boundaries r)"
proof -
  have c: "camel (ch_status ch) \<in> {''added'', ''changed'', ''evidenceChanged'', ''removed'', ''moved''}" if "ch \<in> set (rc_components r)" for ch
    using assms that by (auto simp: compare_receipt Let_def camel_status dest!: status_names(1))
  have e: "camel (ch_status ch) \<in> {''added'', ''changed'', ''removed'', ''rerouted''}" if "ch \<in> set (rc_connections r)" for ch
    using assms that by (auto simp: compare_receipt Let_def camel_status dest!: status_names(2))
  have b: "camel (ch_status ch) \<in> {''added'', ''changed'', ''removed'', ''geometryChanged''}" if "ch \<in> set (rc_boundaries r)" for ch
    using assms that by (auto simp: compare_receipt Let_def camel_status dest!: status_names(3))
  show "sum_list (map snd (component_summary r)) = length (rc_components r)"
    using c unfolding component_summary_def by (intro summary_sum) auto
  show "sum_list (map snd (connection_summary r)) = length (rc_connections r)"
    using e unfolding connection_summary_def by (intro summary_sum) auto
  show "sum_list (map snd (boundary_summary r)) = length (rc_boundaries r)"
    using b unfolding boundary_summary_def by (intro summary_sum) auto
qed

text \<open>Kinds and labels as the schema has them.\<close>

definition schema_boundary :: "json_object \<Rightarrow> bool" where
  "schema_boundary b \<longleftrightarrow>
     map_of b ''kind'' \<in> {Some (JStr ''region''), Some (JStr ''security-group'')} \<and> (\<exists>l. map_of b ''label'' = Some (JStr l))"

lemma shown_key_inj: "schema_boundary a \<Longrightarrow> schema_boundary b \<Longrightarrow> shown_key a = shown_key b \<Longrightarrow> boundaryKey a = boundaryKey b"
  by (auto simp: schema_boundary_def shown_key_def boundaryKey_def js_string_opt_def)

lemma distinct_map_filter:
  assumes "distinct xs" and "\<And>x c. x \<in> set xs \<Longrightarrow> g x = Some c \<Longrightarrow> key c = h x" and "inj_on h (set xs)"
  shows "distinct (map key (List.map_filter g xs))"
proof -
  have "map key (List.map_filter g xs) = map h (filter (\<lambda>x. g x \<noteq> None) xs)"
    using assms(2) by (induction xs) (auto simp: List.map_filter_simps)
  moreover have "inj_on h (set (filter (\<lambda>x. g x \<noteq> None) xs))" by (rule inj_on_subset [OF assms(3)]) auto
  ultimately show ?thesis using assms(1) by (simp add: distinct_map)
qed

lemma boundary_rows_distinct:
  assumes "distinct_boundaries base" "distinct_boundaries head" and "\<forall>b \<in> set base \<union> set head. schema_boundary b"
  shows "distinct (map (what_id \<circ> ch_what) (compareEntities (indexed_boundaries base) (indexed_boundaries head) K_boundary groups describe_boundary))"
proof -
  define look where "look x = nullish (jget (indexed_boundaries head) x) (nullish (jget (indexed_boundaries base) x) [])" for x
  have member: "b \<in> set bs \<and> boundaryKey b = x" if "jget (indexed_boundaries bs) x = Some b" for bs b x
    using map_of_SomeD that by (fastforce simp: jget_def indexed_boundaries_def)
  have look: "schema_boundary (look x) \<and> boundaryKey (look x) = x" if "x \<in> set (all_ids (indexed_boundaries base) (indexed_boundaries head))" for x
    using that member [of head x] member [of base x] assms(3) unfolding all_ids_sorted look_def by (auto simp: finite_jdom nullish_def split: option.split)
  show ?thesis unfolding compareEntities_def
  proof (rule distinct_map_filter [where h = "\<lambda>x. shown_key (look x)"])
    show "distinct (all_ids (indexed_boundaries base) (indexed_boundaries head))" by (simp add: all_ids_sorted)
    show "inj_on (\<lambda>x. shown_key (look x)) (set (all_ids (indexed_boundaries base) (indexed_boundaries head)))"
      using look shown_key_inj by (metis (no_types, lifting) inj_onI)
  qed (auto dest!: compare_entity_what simp: describe_boundary_def look_def Let_def)
qed

lemma differing_distinct: "distinct (differing groups base head)"
  by (simp add: differing_def)

text \<open>The rows of the change navigator are the changes, each once: for snapshots whose boundaries are as the schema demands, no two rows
  have the same key, and there are as many rows as the three summaries of the receipt count together.\<close>

theorem delta_rows_unique:
  assumes "compareArchitecture parse base head evb evh = Inr r" and "\<forall>b \<in> set (boundaries base) \<union> set (boundaries head). schema_boundary b"
  shows "distinct (map rw_key (architectureDeltaChangeRows r)) \<and>
    length (architectureDeltaChangeRows r) = sum_list (map snd (component_summary r @ connection_summary r @ boundary_summary r))"
proof -
  let ?rows = "map (row_of ''Component'' ''component'') (rc_components r) @ map (row_of ''Relationship'' ''relationship'') (rc_connections r) @
        map (row_of ''Boundary'' ''boundary'') (rc_boundaries r)"
  have c: "comparable parse base head" using assms(1) by (simp add: compare_receipt)
  have ids: "distinct (map (what_id \<circ> ch_what) (rc_components r))" "distinct (map (what_id \<circ> ch_what) (rc_connections r))"
    "distinct (map (what_id \<circ> ch_what) (rc_boundaries r))"
    using assms(1) c reported_items [OF known_fields(1), of describe_component "components base" "components head" K_component]
      reported_items [OF known_fields(2), of describe_connection "connections base" "connections head" K_connection]
      boundary_rows_distinct [OF _ _ assms(2), of BOUNDARY_FIELDS]
    by (simp_all add: compare_receipt Let_def comparable_def describe_component_def describe_connection_def differing_distinct)
  have keys: "map rw_key (map (row_of k p) chs) = map (\<lambda>x. p @ '':'' @ x) (map (what_id \<circ> ch_what) chs)" for k p chs
    by (simp add: row_of_def)
  have "distinct (map rw_key ?rows)"
    unfolding map_append keys using ids by (auto simp: distinct_map inj_on_def)
  moreover have "mset (map rw_key (architectureDeltaChangeRows r)) = mset (map rw_key ?rows)"
    by (simp add: architectureDeltaChangeRows_def multiset.map_comp)
  ultimately have "distinct (map rw_key (architectureDeltaChangeRows r))" by (metis mset_eq_imp_distinct_iff)
  moreover have "length (architectureDeltaChangeRows r) = length ?rows" by (simp add: architectureDeltaChangeRows_def)
  ultimately show ?thesis using summary_totals [OF assms(1)] by simp
qed

subsection \<open>Sample snapshots\<close>

text \<open>Two snapshots: a label changed, one component went, one came, one connection was rerouted, a boundary wraps another set.\<close>

definition sample_component :: "string \<Rightarrow> string \<Rightarrow> string \<Rightarrow> json_object" where
  "sample_component x label brand =
     [(''id'', JStr x), (''type'', JStr ''service''), (''label'', JStr label), (''brand'', JStr brand), (''pos'', JArr [JNum 1, JNum (5/2)])]"

definition sample_base :: diagram where
  "sample_base = \<lparr>ar_schema_version = Some (JNum 1), ar_diagram_type = Some (JStr ''architecture''), ar_meta = Some [(''title'', JStr ''Checkout'')],
     ar_layout = None, ar_components = Some [sample_component ''db'' ''Orders'' ''x'', sample_component ''api'' ''API'' ''x''],
     ar_boundaries = Some [[(''kind'', JStr ''region''), (''label'', JStr ''Prod''), (''wraps'', JArr [JStr ''db'', JStr ''api''])]],
     ar_connections = Some [[(''id'', JStr ''c1''), (''from'', JStr ''api''), (''to'', JStr ''db''), (''route'', JStr ''auto'')]], ar_cards = None\<rparr>"

definition sample_head :: diagram where
  "sample_head = sample_base\<lparr>
     ar_components := Some [sample_component ''api'' ''Gateway'' ''x'', sample_component ''cache'' ''Cache'' ''x''],
     ar_boundaries := Some [[(''kind'', JStr ''region''), (''label'', JStr ''Prod''), (''wraps'', JArr [JStr ''api'', JStr ''cache''])]],
     ar_connections := Some [[(''id'', JStr ''c1''), (''from'', JStr ''api''), (''to'', JStr ''db''), (''route'', JStr ''straight'')]]\<rparr>"

definition no_evidence :: side_evidence where
  "no_evidence = \<lparr>ev_verified = False, ev_rawSha256 = [], ev_semanticSha256 = [], ev_bytes = None\<rparr>"

definition statuses :: "change list \<Rightarrow> (string \<times> string) list" where
  "statuses chs = map (\<lambda>ch. (what_id (ch_what ch), ch_status ch)) chs"

lemma sample_receipt:
  "case compareArchitecture (\<lambda>_. None) sample_base sample_head no_evidence no_evidence of
     Inr r \<Rightarrow> statuses (rc_components r) = [(''api'', ''changed''), (''cache'', ''added''), (''db'', ''removed'')] \<and>
       statuses (rc_connections r) = [(''c1'', ''rerouted'')] \<and> statuses (rc_boundaries r) = [(''region:Prod'', ''changed'')]
   | Inl _ \<Rightarrow> False"
  by code_simp

text \<open>A change of the field \<open>brand\<close>, which the schema allows on a component and the renderer draws, is in no group of compared fields: the
  receipt of these two snapshots lists no change and no change of presentation, although their canonical texts differ.\<close>

definition rebranded :: diagram where
  "rebranded = sample_base\<lparr>ar_components := Some [sample_component ''db'' ''Orders'' ''x'', sample_component ''api'' ''API'' ''y'']\<rparr>"

theorem brand_change_unreported:
  "(case compareArchitecture (\<lambda>_. None) sample_base rebranded no_evidence no_evidence of
      Inr r \<Rightarrow> architectureDeltaChangeRows r = [] \<and> \<not> rc_presentationChanged r \<and> \<not> rc_provenanceChanged r | Inl _ \<Rightarrow> False) \<and>
   canonicalArchitectureJson (\<lambda>_. None) sample_base \<noteq> canonicalArchitectureJson (\<lambda>_. None) rebranded"
  by code_simp

lemma sample_compare: "\<exists>r. compareArchitecture (\<lambda>_. None) sample_base sample_head no_evidence no_evidence = Inr r"
  using sample_receipt by (auto split: sum.splits)

theorem delta_exact_witness:
  "\<exists>r. compareArchitecture (\<lambda>_. None) sample_base sample_head no_evidence no_evidence = Inr r \<and>
     map (what_id \<circ> ch_what) (rc_components r) = differing COMPONENT_FIELDS (components sample_base) (components sample_head)"
  using sample_compare delta_exact by blast

theorem delta_order_independent_witness:
  "\<exists>r. compareArchitecture (\<lambda>_. None) (sample_base\<lparr>ar_components := Some (rev (components sample_base))\<rparr>) sample_head no_evidence no_evidence = Inr r \<and>
     compareArchitecture (\<lambda>_. None) sample_base sample_head no_evidence no_evidence = Inr r"
proof -
  obtain r where r: "compareArchitecture (\<lambda>_. None) sample_base sample_head no_evidence no_evidence = Inr r" using sample_compare by blast
  have "reordered sample_base (sample_base\<lparr>ar_components := Some (rev (components sample_base))\<rparr>)" "reordered sample_head sample_head"
    by (simp_all add: reordered_def)
  from delta_order_independent [OF r this] r show ?thesis by blast
qed

theorem delta_rows_unique_witness:
  "\<exists>r. compareArchitecture (\<lambda>_. None) sample_base sample_head no_evidence no_evidence = Inr r \<and> distinct (map rw_key (architectureDeltaChangeRows r)) \<and>
     length (architectureDeltaChangeRows r) = sum_list (map snd (component_summary r @ connection_summary r @ boundary_summary r))"
proof -
  obtain r where r: "compareArchitecture (\<lambda>_. None) sample_base sample_head no_evidence no_evidence = Inr r" using sample_compare by blast
  have "\<forall>b \<in> set (boundaries sample_base) \<union> set (boundaries sample_head). schema_boundary b"
    by (simp add: sample_base_def sample_head_def schema_boundary_def)
  from delta_rows_unique [OF r this] r show ?thesis by blast
qed

end
