(* ===== verification/Js_Date.thy ===== *)
theory Js_Date
  imports Js_Prelude
begin

text \<open>
  The part of the \<^verbatim>\<open>Date\<close> object that the update check of archify uses: \<^verbatim>\<open>toISOString\<close> and
  \<^verbatim>\<open>Date.parse\<close> on the format it prints, after the definitions of ECMAScript (the day number of a year, the year as the largest
  one that has begun). Printing and parsing are inverse to each other on the range of time values.
\<close>

subsection \<open>Fixed-width decimals\<close>

definition digit_value :: "char \<Rightarrow> nat" where
  "digit_value c = of_char c - 48"

definition is_decimal :: "char \<Rightarrow> bool" where
  "is_decimal c \<longleftrightarrow> 48 \<le> (of_char c :: nat) \<and> (of_char c :: nat) \<le> 57"

text \<open>The value of a string of digits, the first one the most significant.\<close>

primrec decimal :: "string \<Rightarrow> nat" where
  "decimal [] = 0"
| "decimal (c # s) = digit_value c * 10 ^ length s + decimal s"

text \<open>\<open>padStart\<close> with zeros: the last \<open>n\<close> digits of a number.\<close>

primrec padded :: "nat \<Rightarrow> nat \<Rightarrow> string" where
  "padded 0 k = []"
| "padded (Suc n) k = padded n (k div 10) @ [digit_char (k mod 10)]"

lemma digit_value_char [simp]: "d < 10 \<Longrightarrow> digit_value (digit_char d) = d"
  by (simp add: digit_value_def digit_char_def of_char_of take_bit_eq_mod)

lemma is_decimal_char [simp]: "d < 10 \<Longrightarrow> is_decimal (digit_char d)"
  by (simp add: is_decimal_def digit_char_def of_char_of take_bit_eq_mod)

lemma digit_value_less: "is_decimal c \<Longrightarrow> digit_value c < 10"
  by (auto simp: is_decimal_def digit_value_def)

lemma length_padded [simp]: "length (padded n k) = n"
  by (induction n arbitrary: k) simp_all

lemma padded_decimal: "list_all is_decimal (padded n k)"
  by (induction n arbitrary: k) simp_all

lemma decimal_append: "decimal (s @ t) = decimal s * 10 ^ length t + decimal t"
  by (induction s) (simp_all add: algebra_simps power_add)

lemma decimal_padded: "decimal (padded n k) = k mod 10 ^ n"
proof (induction n arbitrary: k)
  case (Suc n)
  have "k div 10 mod 10 ^ n * 10 + k mod 10 = k mod (10 * 10 ^ n)"
    by (metis add.commute mod_mult2_eq mult.commute)
  then show ?case by (simp add: decimal_append Suc.IH)
qed simp

lemma decimal_less: "list_all is_decimal s \<Longrightarrow> decimal s < 10 ^ length s"
proof (induction s)
  case (Cons c s)
  then have "digit_value c * 10 ^ length s + decimal s < (digit_value c + 1) * 10 ^ length s" by simp
  also have "\<dots> \<le> 10 * 10 ^ length s" using digit_value_less [of c] Cons.prems by (intro mult_right_mono) simp_all
  finally show ?case by simp
qed simp

lemma padded_of_decimal: "list_all is_decimal s \<Longrightarrow> padded (length s) (decimal s) = s"
proof (induction s rule: rev_induct)
  case (snoc c s)
  then have c: "digit_value c < 10" "digit_char (digit_value c) = c"
    by (auto simp: digit_value_less) (auto simp: digit_value_def digit_char_def is_decimal_def)
  with snoc show ?case by (simp add: decimal_append)
qed simp

subsection \<open>Days and years\<close>

definition day_from_year :: "int \<Rightarrow> int" where
  "day_from_year y = 365 * (y - 1970) + (y - 1969) div 4 - (y - 1901) div 100 + (y - 1601) div 400"

lemma div_step:
  assumes "0 < (n :: int)"
  shows "(x + 1) div n = x div n + (if n dvd x + 1 then 1 else 0)"
proof -
  have x: "x = x div n * n + x mod n" "0 \<le> x mod n" "x mod n < n" using assms by simp_all
  show ?thesis
  proof (cases "x mod n + 1 = n")
    case True
    then have "x + 1 = (x div n + 1) * n" using x(1) by (metis add.assoc distrib_right mult_1)
    then show ?thesis using assms by (metis dvd_triv_right nonzero_mult_div_cancel_right less_irrefl)
  next
    case False
    have "(x + 1) div n = x div n"
      using x False by (intro int_div_pos_eq [where r = "x mod n + 1"]) (simp_all add: algebra_simps)
    moreover have "(x + 1) mod n = x mod n + 1"
      using x False by (intro int_mod_pos_eq [where q = "x div n"]) (simp_all add: algebra_simps)
    ultimately show ?thesis using x(2) by (auto simp: dvd_eq_mod_eq_0)
  qed
qed

lemma day_from_year_step: "day_from_year y + 365 \<le> day_from_year (y + 1) \<and> day_from_year (y + 1) \<le> day_from_year y + 366"
proof -
  have shifted: "4 dvd y - 1968 \<longleftrightarrow> 4 dvd y" "100 dvd y - 1900 \<longleftrightarrow> 100 dvd y" "400 dvd y - 1600 \<longleftrightarrow> 400 dvd y"
    by (simp_all add: dvd_diff_left_iff dvd_diff_right_iff)
  have divs: "(y + 1 - 1969) div 4 = (y - 1969) div 4 + (if 4 dvd y then 1 else 0)"
    "(y + 1 - 1901) div 100 = (y - 1901) div 100 + (if 100 dvd y then 1 else 0)"
    "(y + 1 - 1601) div 400 = (y - 1601) div 400 + (if 400 dvd y then 1 else 0)"
    using div_step [of 4 "y - 1969"] div_step [of 100 "y - 1901"] div_step [of 400 "y - 1601"] by (simp_all add: shifted)
  have "day_from_year (y + 1) = day_from_year y + 365 + (if 4 dvd y then 1 else 0) - (if 100 dvd y then 1 else 0) + (if 400 dvd y then 1 else 0)"
    unfolding day_from_year_def divs by (simp only: algebra_simps)
  moreover have "400 dvd y \<Longrightarrow> 100 dvd y" "100 dvd y \<Longrightarrow> 4 dvd y"
    using dvd_trans [of 100 400 y] dvd_trans [of 4 100 y] by simp_all
  ultimately show ?thesis by (cases "4 dvd y"; cases "100 dvd y"; cases "400 dvd y") simp_all
qed

lemma day_from_year_less [simp]: "day_from_year y < day_from_year (y + 1)" "day_from_year (y - 1) < day_from_year y"
  using day_from_year_step [of y] day_from_year_step [of "y - 1"] by simp_all

function year_down :: "int \<Rightarrow> int \<Rightarrow> int" where
  "year_down y day = (if day < day_from_year y then year_down (y - 1) day else y)"
  by pat_completeness auto
termination
proof (relation "measure (\<lambda>(y, day). nat (day_from_year y - day))")
  show "((y - 1, day), y, day) \<in> measure (\<lambda>(y, day). nat (day_from_year y - day))" if "day < day_from_year y" for y day
    using that day_from_year_less(2) [of y] by simp
qed simp

function year_up :: "int \<Rightarrow> int \<Rightarrow> int" where
  "year_up y day = (if day_from_year (y + 1) \<le> day then year_up (y + 1) day else y)"
  by pat_completeness auto
termination
proof (relation "measure (\<lambda>(y, day). nat (day - day_from_year y))")
  show "((y + 1, day), y, day) \<in> measure (\<lambda>(y, day). nat (day - day_from_year y))" if "day_from_year (y + 1) \<le> day" for y day
    using that day_from_year_less(1) [of y] by (simp del: day_from_year_less)
qed simp

declare year_down.simps [simp del] year_up.simps [simp del]

text \<open>The largest year that has begun on a day.\<close>

definition year_from_day :: "int \<Rightarrow> int" where
  "year_from_day day = year_up (year_down (1970 + day div 365) day) day"

lemma year_down_begun: "day_from_year (year_down y day) \<le> day"
  by (induction y day rule: year_down.induct) (simp add: year_down.simps)

lemma year_up_last: "day_from_year y \<le> day \<Longrightarrow> day_from_year (year_up y day) \<le> day \<and> day < day_from_year (year_up y day + 1)"
  by (induction y day rule: year_up.induct) (subst (1 2) year_up.simps, simp)

lemma year_from_day: "day_from_year (year_from_day day) \<le> day \<and> day < day_from_year (year_from_day day + 1)"
  unfolding year_from_day_def by (rule year_up_last [OF year_down_begun])

lemma day_from_year_mono: "y \<le> z \<Longrightarrow> day_from_year y \<le> day_from_year z"
proof (induction "nat (z - y)" arbitrary: z)
  case (Suc n)
  then have "day_from_year y \<le> day_from_year (z - 1)" by (intro Suc.hyps) auto
  with day_from_year_less(2) [of z] show ?case by linarith
qed simp

lemma year_unique:
  assumes "day_from_year y \<le> day" "day < day_from_year (y + 1)"
  shows "year_from_day day = y"
proof (rule ccontr)
  assume "year_from_day day \<noteq> y"
  then consider "year_from_day day + 1 \<le> y" | "y + 1 \<le> year_from_day day" by linarith
  then show False by cases (use day_from_year_mono year_from_day [of day] assms in fastforce)+
qed

subsection \<open>Months\<close>

definition month_lengths :: "int \<Rightarrow> int list" where
  "month_lengths y =
     [31, if day_from_year (y + 1) - day_from_year y = 366 then 29 else 28, 31, 30, 31, 30, 31, 31, 30, 31, 30, 31]"

fun month_day :: "int list \<Rightarrow> int \<Rightarrow> nat \<times> int" where
  "month_day [] d = (0, d)"
| "month_day (l # ls) d = (if d < l then (0, d) else (case month_day ls (d - l) of (m, r) \<Rightarrow> (Suc m, r)))"

lemma sum_month_lengths: "sum_list (month_lengths y) = day_from_year (y + 1) - day_from_year y"
  using day_from_year_step [of y] by (auto simp: month_lengths_def)

lemma length_month_lengths [simp]: "length (month_lengths y) = 12"
  by (simp add: month_lengths_def)

lemma month_lengths_pos: "l \<in> set (month_lengths y) \<Longrightarrow> 0 < l \<and> l \<le> 31"
  by (auto simp: month_lengths_def split: if_splits)

lemma month_day:
  "0 \<le> d \<Longrightarrow> d < sum_list ls \<Longrightarrow> month_day ls d = (m, r) \<Longrightarrow>
     m < length ls \<and> 0 \<le> r \<and> r < ls ! m \<and> d = sum_list (take m ls) + r"
  by (induction ls d arbitrary: m r rule: month_day.induct) (auto split: if_splits prod.splits)

lemma month_day_unique:
  "m < length ls \<Longrightarrow> 0 \<le> r \<Longrightarrow> r < ls ! m \<Longrightarrow> (\<And>l. l \<in> set ls \<Longrightarrow> 0 < l) \<Longrightarrow> month_day ls (sum_list (take m ls) + r) = (m, r)"
proof (induction ls arbitrary: m)
  case (Cons l ls)
  show ?case
  proof (cases m)
    case (Suc k)
    have "0 \<le> sum_list (take k ls)" using Cons.prems(4) by (intro sum_list_nonneg) (fastforce dest: in_set_takeD)
    with Suc Cons show ?thesis by simp
  qed (use Cons in simp)
qed simp

subsection \<open>Printing and parsing time values\<close>

abbreviation day_ms :: int where
  "day_ms \<equiv> 86400000"

text \<open>The time values of ECMAScript.\<close>

definition time_value :: "timestamp \<Rightarrow> bool" where
  "time_value t \<longleftrightarrow> \<bar>t\<bar> \<le> 8640000000000000"

definition iso_year :: "int \<Rightarrow> string" where
  "iso_year y = (if 0 \<le> y \<and> y \<le> 9999 then padded 4 (nat y)
     else if y < 0 then CHR ''-'' # padded 6 (nat (- y)) else CHR ''+'' # padded 6 (nat y))"

definition clock_text :: "nat \<Rightarrow> nat \<Rightarrow> nat \<Rightarrow> nat \<Rightarrow> nat \<Rightarrow> string" where
  "clock_text mo d h mi s =
     ''-'' @ padded 2 mo @ ''-'' @ padded 2 d @ ''T'' @ padded 2 h @ '':'' @ padded 2 mi @ '':'' @ padded 2 s"

definition iso_rest :: "nat \<Rightarrow> nat \<Rightarrow> nat \<Rightarrow> nat \<Rightarrow> nat \<Rightarrow> nat \<Rightarrow> string" where
  "iso_rest mo d h mi s ms = clock_text mo d h mi s @ ''.'' @ padded 3 ms @ ''Z''"

definition toISOString :: "timestamp \<Rightarrow> string" where
  "toISOString t =
     (let day = t div day_ms; ms = t mod day_ms; y = year_from_day day;
          (m, r) = month_day (month_lengths y) (day - day_from_year y)
      in iso_year y @ iso_rest (m + 1) (nat r + 1) (nat (ms div 3600000)) (nat (ms div 60000 mod 60)) (nat (ms div 1000 mod 60)) (nat (ms mod 1000)))"

text \<open>\<open>MakeDate\<close> over \<open>MakeDay\<close> and \<open>MakeTime\<close>: a day beyond the end of its month runs into the next one.\<close>

definition make_time :: "int \<Rightarrow> nat \<Rightarrow> nat \<Rightarrow> nat \<Rightarrow> nat \<Rightarrow> nat \<Rightarrow> nat \<Rightarrow> timestamp" where
  "make_time y mo d h mi s ms =
     (day_from_year y + sum_list (take (mo - 1) (month_lengths y)) + int d - 1) * day_ms +
     int h * 3600000 + int mi * 60000 + int s * 1000 + int ms"

definition fields_ok :: "nat \<Rightarrow> nat \<Rightarrow> nat \<Rightarrow> nat \<Rightarrow> nat \<Rightarrow> nat \<Rightarrow> bool" where
  "fields_ok mo d h mi s ms \<longleftrightarrow> 1 \<le> mo \<and> mo \<le> 12 \<and> 1 \<le> d \<and> d \<le> 31 \<and> mi < 60 \<and> s < 60 \<and>
     (h < 24 \<or> h = 24 \<and> mi = 0 \<and> s = 0 \<and> ms = 0)"

definition number_at :: "string \<Rightarrow> nat \<Rightarrow> nat \<Rightarrow> nat" where
  "number_at s i n = decimal (take n (drop i s))"

definition char_at :: "string \<Rightarrow> nat \<Rightarrow> char" where
  "char_at s i = (case drop i s of [] \<Rightarrow> CHR 0x00 | c # _ \<Rightarrow> c)"

definition digits_at :: "string \<Rightarrow> nat \<Rightarrow> nat \<Rightarrow> bool" where
  "digits_at s i n \<longleftrightarrow> length (take n (drop i s)) = n \<and> list_all is_decimal (take n (drop i s))"

text \<open>\<open>-MM-DDTHH:mm:ss\<close> at the start of a string, and the fraction and the zone after it.\<close>

definition iso_clock :: "string \<Rightarrow> bool" where
  "iso_clock s \<longleftrightarrow> char_at s 0 = CHR ''-'' \<and> digits_at s 1 2 \<and> char_at s 3 = CHR ''-'' \<and> digits_at s 4 2 \<and> char_at s 6 = CHR ''T'' \<and>
     digits_at s 7 2 \<and> char_at s 9 = CHR '':'' \<and> digits_at s 10 2 \<and> char_at s 12 = CHR '':'' \<and> digits_at s 13 2"

definition parse_clock :: "int \<Rightarrow> string \<Rightarrow> timestamp option" where
  "parse_clock y s =
     (let zone = drop 15 s; ms = (if zone = ''Z'' then Some 0
            else if char_at zone 0 = CHR ''.'' \<and> digits_at zone 1 3 \<and> drop 4 zone = ''Z'' then Some (number_at zone 1 3) else None)
      in case ms of None \<Rightarrow> None
         | Some ms \<Rightarrow>
             if iso_clock s \<and> fields_ok (number_at s 1 2) (number_at s 4 2) (number_at s 7 2) (number_at s 10 2) (number_at s 13 2) ms
             then (let t = make_time y (number_at s 1 2) (number_at s 4 2) (number_at s 7 2) (number_at s 10 2) (number_at s 13 2) ms
                   in if time_value t then Some t else None)
             else None)"

text \<open>\<open>Date.parse\<close>: the format of \<open>toISOString\<close>, with or without milliseconds; what it makes of other strings depends on the
  implementation and is the parameter \<open>other\<close>; the empty string is not a date.\<close>

definition date_parse :: "(string \<Rightarrow> timestamp option) \<Rightarrow> string \<Rightarrow> timestamp option" where
  "date_parse other s =
     (if s = [] then None else case (if digits_at s 0 4 then parse_clock (int (number_at s 0 4)) (drop 4 s)
            else if char_at s 0 = CHR ''+'' \<and> digits_at s 1 6 then parse_clock (int (number_at s 1 6)) (drop 7 s)
            else if char_at s 0 = CHR ''-'' \<and> digits_at s 1 6 \<and> number_at s 1 6 \<noteq> 0 then parse_clock (- int (number_at s 1 6)) (drop 7 s)
            else None) of
        Some t \<Rightarrow> Some t | None \<Rightarrow> other s)"

subsection \<open>Parsing what was printed\<close>

lemma take_padded [simp]: "take n (padded n k @ s) = padded n k" "drop n (padded n k @ s) = s"
  by simp_all

lemma padded_two: "k < 100 \<Longrightarrow> \<exists>a b. padded 2 k = [a, b] \<and> is_decimal a \<and> is_decimal b \<and> decimal [a, b] = k"
  using decimal_padded [of 2 k] padded_decimal [of 2 k] by (simp add: numeral_2_eq_2)

lemma parse_clock_text:
  assumes ok: "fields_ok mo d h mi s ms" "ms < 1000" and t: "time_value (make_time y mo d h mi s ms)"
    and zone: "zone = ''Z'' \<and> ms = 0 \<or> zone = ''.'' @ padded 3 ms @ ''Z''"
  shows "parse_clock y (clock_text mo d h mi s @ zone) = Some (make_time y mo d h mi s ms)"
proof -
  have "\<exists>e1 e2 e3. padded 3 ms = [e1, e2, e3] \<and> is_decimal e1 \<and> is_decimal e2 \<and> is_decimal e3 \<and> decimal [e1, e2, e3] = ms"
    using decimal_padded [of 3 ms] padded_decimal [of 3 ms] ok(2) by (simp add: numeral_3_eq_3)
  then have z: "(if zone = ''Z'' then Some 0 else if char_at zone 0 = CHR ''.'' \<and> digits_at zone 1 3 \<and> drop 4 zone = ''Z'' then Some (number_at zone 1 3) else None) = Some ms"
    using zone by (auto simp: char_at_def digits_at_def number_at_def simp del: decimal.simps)
  have bounds: "mo < 100" "d < 100" "h < 100" "mi < 100" "s < 100" using ok by (auto simp: fields_ok_def)
  obtain a1 a2 where mo: "padded 2 mo = [a1, a2]" "is_decimal a1" "is_decimal a2" "decimal [a1, a2] = mo" using padded_two [OF bounds(1)] by auto
  obtain b1 b2 where d: "padded 2 d = [b1, b2]" "is_decimal b1" "is_decimal b2" "decimal [b1, b2] = d" using padded_two [OF bounds(2)] by auto
  obtain c1 c2 where h: "padded 2 h = [c1, c2]" "is_decimal c1" "is_decimal c2" "decimal [c1, c2] = h" using padded_two [OF bounds(3)] by auto
  obtain d1 d2 where mi: "padded 2 mi = [d1, d2]" "is_decimal d1" "is_decimal d2" "decimal [d1, d2] = mi" using padded_two [OF bounds(4)] by auto
  obtain f1 f2 where s: "padded 2 s = [f1, f2]" "is_decimal f1" "is_decimal f2" "decimal [f1, f2] = s" using padded_two [OF bounds(5)] by auto
  have printed: "clock_text mo d h mi s @ zone =
      [CHR ''-'', a1, a2, CHR ''-'', b1, b2, CHR ''T'', c1, c2, CHR '':'', d1, d2, CHR '':'', f1, f2] @ zone" (is "_ = ?x @ zone")
    by (simp add: clock_text_def mo(1) d(1) h(1) mi(1) s(1))
  have "drop 15 (?x @ zone) = zone" by simp
  moreover have "iso_clock (?x @ zone)" using mo d h mi s by (simp add: iso_clock_def digits_at_def char_at_def)
  moreover have "number_at (?x @ zone) 1 2 = mo" "number_at (?x @ zone) 4 2 = d" "number_at (?x @ zone) 7 2 = h"
    "number_at (?x @ zone) 10 2 = mi" "number_at (?x @ zone) 13 2 = s"
    using mo d h mi s by (simp_all add: number_at_def del: decimal.simps)
  ultimately show ?thesis unfolding printed parse_clock_def Let_def using ok(1) t by (simp only: z option.case if_True simp_thms)
qed

lemma parse_iso_year:
  assumes "\<bar>y\<bar> \<le> 999999" and t: "parse_clock y (CHR ''-'' # rest) = Some t"
  shows "date_parse other (iso_year y @ CHR ''-'' # rest) = Some t"
proof -
  have four: "digits_at (padded 4 k @ s) 0 4" "number_at (padded 4 k @ s) 0 4 = k mod 10000" for k s
    by (simp_all add: digits_at_def number_at_def padded_decimal decimal_padded)
  have six: "digits_at (c # padded 6 k @ s) 1 6" "number_at (c # padded 6 k @ s) 1 6 = k mod 1000000" for c k s
    by (simp_all add: digits_at_def number_at_def padded_decimal decimal_padded)
  have sign: "\<not> digits_at (CHR ''+'' # s) 0 4" "\<not> digits_at (CHR ''-'' # s) 0 4" for s
    by (simp_all add: digits_at_def is_decimal_def)
  consider "0 \<le> y" "y \<le> 9999" | "y < 0" | "9999 < y" by linarith
  then show ?thesis
    by cases (use assms in \<open>auto simp: date_parse_def iso_year_def four six sign char_at_def nat_less_iff simp del: One_nat_def\<close>)
qed

lemma clock_digits:
  "(k :: nat) div 3600000 * 3600000 + k div 60000 mod 60 * 60000 + k div 1000 mod 60 * 1000 + k mod 1000 = k"
proof -
  define a b c where "a = k div 1000" "b = a div 60" "c = b div 60"
  have divs: "k div 60000 = b" "k div 3600000 = c" by (simp_all add: a_b_c_def div_mult2_eq [symmetric])
  have "k = a * 1000 + k mod 1000" "a = b * 60 + a mod 60" "b = c * 60 + b mod 60"
    by (simp_all add: a_b_c_def)
  then show ?thesis unfolding divs unfolding a_b_c_def(1) [symmetric] by linarith
qed

lemma toISOString_nat:
  "toISOString t =
     (let day = t div day_ms; ms = nat (t mod day_ms); y = year_from_day day;
          (m, r) = month_day (month_lengths y) (day - day_from_year y)
      in iso_year y @ iso_rest (m + 1) (nat r + 1) (ms div 3600000) (ms div 60000 mod 60) (ms div 1000 mod 60) (ms mod 1000))"
  by (simp add: toISOString_def nat_div_distrib nat_mod_distrib Let_def)

text \<open>A time value and the fields it is printed with.\<close>

lemma iso_fields:
  assumes "time_value t"
  obtains y mo d h mi s ms where "toISOString t = iso_year y @ iso_rest mo d h mi s ms" "make_time y mo d h mi s ms = t"
    "fields_ok mo d h mi s ms" "h < 24" "ms < 1000" "int d \<le> month_lengths y ! (mo - 1)" "\<bar>y\<bar> \<le> 999999"
proof -
  define day y k where "day = t div day_ms" "y = year_from_day day" "k = nat (t mod day_ms)"
  obtain m r where mr: "month_day (month_lengths y) (day - day_from_year y) = (m, r)" by fastforce
  have y: "0 \<le> day - day_from_year y" "day - day_from_year y < sum_list (month_lengths y)"
    using year_from_day [of day] by (simp_all add: day_y_k_def(2) sum_month_lengths)
  have m: "m < 12" "0 \<le> r" "r < month_lengths y ! m" "day - day_from_year y = sum_list (take m (month_lengths y)) + r"
    using month_day [OF y mr] by simp_all
  have "r < 31" using month_lengths_pos [of "month_lengths y ! m" y] m by (simp add: nth_mem)
  have k: "int k = t mod day_ms" "k < 86400000" by (simp_all add: day_y_k_def(3) nat_less_iff)
  have "day * day_ms + int k = t" by (simp add: k(1) day_y_k_def(1))
  moreover have "int (k div 3600000 * 3600000 + k div 60000 mod 60 * 60000 + k div 1000 mod 60 * 1000 + k mod 1000) = int k"
    unfolding clock_digits ..
  ultimately have make: "make_time y (m + 1) (nat r + 1) (k div 3600000) (k div 60000 mod 60) (k div 1000 mod 60) (k mod 1000) = t"
    using m(2,4) by (simp add: make_time_def)
  have h: "k div 3600000 < 24" using k(2) by (simp add: div_less_iff_less_mult)
  have ok: "fields_ok (m + 1) (nat r + 1) (k div 3600000) (k div 60000 mod 60) (k div 1000 mod 60) (k mod 1000)"
    using m \<open>r < 31\<close> h by (simp add: fields_ok_def)
  have "\<bar>day\<bar> \<le> 100000000" using assms by (auto simp: day_y_k_def(1) time_value_def abs_le_iff intro: zdiv_mono1 [THEN order_trans])
  moreover have "day_from_year 999999 > 100000000" "day_from_year (- 999998) < - 100000000" by (simp_all add: day_from_year_def)
  ultimately have "\<bar>y\<bar> \<le> 999999"
    using day_from_year_mono [of 999999 y] day_from_year_mono [of "y + 1" "- 999998"] year_from_day [of day]
    unfolding day_y_k_def(2) [symmetric] by linarith
  moreover have "toISOString t = iso_year y @ iso_rest (m + 1) (nat r + 1) (k div 3600000) (k div 60000 mod 60) (k div 1000 mod 60) (k mod 1000)"
    unfolding toISOString_nat Let_def day_y_k_def [symmetric] mr prod.case ..
  ultimately show thesis using that [OF _ make ok h] m by simp
qed

lemma date_parse_iso:
  assumes "time_value t"
  shows "date_parse other (toISOString t) = Some t"
proof -
  obtain y mo d h mi s ms where t: "time_value t" "toISOString t = iso_year y @ iso_rest mo d h mi s ms" "make_time y mo d h mi s ms = t"
    and ok: "fields_ok mo d h mi s ms" "ms < 1000" "\<bar>y\<bar> \<le> 999999"
    using assms iso_fields [OF assms] by metis
  have rest: "iso_rest mo d h mi s ms = CHR ''-'' # tl (iso_rest mo d h mi s ms)" by (simp add: iso_rest_def clock_text_def)
  from parse_clock_text [OF ok(1,2), of y] t(1,3) have "parse_clock y (CHR ''-'' # tl (iso_rest mo d h mi s ms)) = Some t"
    by (simp add: rest [symmetric]) (simp add: iso_rest_def)
  from parse_iso_year [OF ok(3) this] have "date_parse other (iso_year y @ iso_rest mo d h mi s ms) = Some t"
    by (simp add: rest [symmetric])
  then show "date_parse other (toISOString t) = Some t" by (simp only: t(2))
qed

lemma length_toISOString: "time_value t \<Longrightarrow> length (toISOString t) \<le> 27"
  by (erule iso_fields) (simp add: iso_year_def iso_rest_def clock_text_def)

lemma clock_fields:
  fixes h mi s ms :: nat
  assumes "mi < 60" "s < 60" "ms < 1000"
  shows "(h * 3600000 + mi * 60000 + s * 1000 + ms) div 3600000 = h" "(h * 3600000 + mi * 60000 + s * 1000 + ms) div 60000 mod 60 = mi"
    "(h * 3600000 + mi * 60000 + s * 1000 + ms) div 1000 mod 60 = s" "(h * 3600000 + mi * 60000 + s * 1000 + ms) mod 1000 = ms"
proof -
  have k: "h * 3600000 + mi * 60000 + s * 1000 + ms = ms + ((h * 60 + mi) * 60 + s) * 1000" by simp
  have a: "(ms + ((h * 60 + mi) * 60 + s) * 1000) div 1000 = s + (h * 60 + mi) * 60" using assms(3) by (subst div_mult_self1) simp_all
  have b: "(s + (h * 60 + mi) * 60) div 60 = mi + h * 60" using assms(2) by (subst div_mult_self1) simp_all
  have c: "(mi + h * 60) div 60 = h" using assms(1) by (subst div_mult_self1) simp_all
  have ab: "x div 60000 = x div 1000 div 60" "x div 3600000 = x div 1000 div 60 div 60" for x :: nat by (simp_all add: div_mult2_eq [symmetric])
  show "(h * 3600000 + mi * 60000 + s * 1000 + ms) div 3600000 = h" "(h * 3600000 + mi * 60000 + s * 1000 + ms) div 60000 mod 60 = mi"
    "(h * 3600000 + mi * 60000 + s * 1000 + ms) div 1000 mod 60 = s" "(h * 3600000 + mi * 60000 + s * 1000 + ms) mod 1000 = ms"
    unfolding k ab a b c using assms by (simp_all only: mod_mult_self1 mod_less refl)
qed

text \<open>A calendar instant with a year of four digits is printed with its own fields.\<close>

lemma toISOString_fields:
  assumes y: "y \<le> 9999" and mo: "1 \<le> mo" "mo \<le> 12" and d: "1 \<le> d" "int d \<le> month_lengths (int y) ! (mo - 1)"
    and clock: "h < 24" "mi < 60" "s < 60" "ms < 1000"
  shows "toISOString (make_time (int y) mo d h mi s ms) = padded 4 y @ iso_rest mo d h mi s ms"
    "time_value (make_time (int y) mo d h mi s ms)"
proof -
  let ?ls = "month_lengths (int y)" and ?k = "h * 3600000 + mi * 60000 + s * 1000 + ms"
  define off where "off = sum_list (take (mo - 1) ?ls) + (int d - 1)"
  have m: "mo - 1 < length ?ls" using mo by simp
  have split: "?ls = take (mo - 1) ?ls @ ?ls ! (mo - 1) # drop mo ?ls" using id_take_nth_drop [OF m] mo by simp
  have nonneg: "0 \<le> sum_list (take n ?ls)" "0 \<le> sum_list (drop n ?ls)" for n
    by (intro sum_list_nonneg; use month_lengths_pos in \<open>fastforce dest: in_set_takeD in_set_dropD\<close>)+
  have "sum_list ?ls = sum_list (take (mo - 1) ?ls) + ?ls ! (mo - 1) + sum_list (drop mo ?ls)"
    by (subst split) simp
  then have off: "0 \<le> off" "off < day_from_year (int y + 1) - day_from_year (int y)"
    using d nonneg [of "mo - 1"] nonneg [of mo] by (simp_all add: off_def sum_month_lengths)
  have k: "?k < 86400000" using clock by simp
  have t: "make_time (int y) mo d h mi s ms = (day_from_year (int y) + off) * day_ms + int ?k"
    using d by (simp add: make_time_def off_def algebra_simps)
  have div: "((day_from_year (int y) + off) * day_ms + int ?k) div day_ms = day_from_year (int y) + off"
    "((day_from_year (int y) + off) * day_ms + int ?k) mod day_ms = int ?k"
    using k by (simp_all only: div_mult_self3 mod_mult_self3 div_pos_pos_trivial mod_pos_pos_trivial of_nat_0_le_iff of_nat_less_numeral_iff)
  have year: "year_from_day (day_from_year (int y) + off) = int y" by (rule year_unique) (use off in simp_all)
  have md: "month_day ?ls off = (mo - 1, int d - 1)"
    unfolding off_def by (rule month_day_unique [OF m]) (use d month_lengths_pos in auto)
  have "Suc (nat (int d - 1)) = d" using d by simp
  with md show "toISOString (make_time (int y) mo d h mi s ms) = padded 4 y @ iso_rest mo d h mi s ms"
    using mo y unfolding t toISOString_nat div year Let_def nat_int clock_fields [OF clock(2-4)] by (simp add: iso_year_def)
  have "day_from_year 0 \<le> day_from_year (int y)" "day_from_year (int y + 1) \<le> day_from_year 10000"
    using y by (simp_all add: day_from_year_mono)
  moreover have "day_from_year 0 = - 719528" "day_from_year 10000 = 2932897" by (simp_all add: day_from_year_def)
  ultimately show "time_value (make_time (int y) mo d h mi s ms)"
    unfolding t time_value_def using off k by simp
qed

lemma date_parse_time:
  assumes "\<And>x t. other x = Some t \<Longrightarrow> time_value t" "date_parse other s = Some t"
  shows "time_value t"
proof -
  have "parse_clock y x = Some t \<Longrightarrow> time_value t" for y x t
    by (auto simp: parse_clock_def Let_def split: option.splits if_splits)
  with assms show ?thesis by (auto simp: date_parse_def split: option.splits if_splits)
qed

end
