(* ===== verification/Update_Contract.thy ===== *)
theory Update_Contract
  imports Js_Date Canonical_Json "HOL-Library.Product_Lexorder"
begin

text \<open>
  The contract of the update check, \<^verbatim>\<open>.agents/skills/archify/scripts/update-contract.mjs\<close>: version numbers, their
  precedence, the publication time, and the validation of the installed release and of the update manifest. A function that throws an
  \<^verbatim>\<open>UpdateContractError\<close> returns its message on the left.
\<close>

type_synonym 'a checked = "string + 'a"

subsection \<open>Standard functions\<close>

text \<open>\<open>JSON.stringify\<close>\<close>

primrec stringify :: "json \<Rightarrow> string" where
  "stringify JNull = ''null''"
| "stringify (JBool b) = (if b then ''true'' else ''false'')"
| "stringify (JNum x) = show_num x"
| "stringify (JStr s) = json_quote s"
| "stringify (JArr vs) = ''['' @ join '','' (map stringify vs) @ '']''"
| "stringify (JObj kvs) = ''{'' @ join '','' (map render_entry (map (map_prod id stringify) kvs)) @ ''}''"

text \<open>\<open>s.split(c)\<close>\<close>

primrec split_at_char :: "char \<Rightarrow> string \<Rightarrow> string list" where
  "split_at_char c [] = [[]]"
| "split_at_char c (x # s) =
     (if x = c then [] # split_at_char c s
      else (case split_at_char c s of [] \<Rightarrow> [[x]] | p # ps \<Rightarrow> (x # p) # ps))"

text \<open>\<open>s.replace(pattern, replacement)\<close> for a string pattern: the first occurrence.\<close>

fun replace_first :: "string \<Rightarrow> string \<Rightarrow> string \<Rightarrow> string" where
  "replace_first p r [] = (if p = [] then r else [])"
| "replace_first p r (c # s) = (if take (length p) (c # s) = p then r @ drop (length p) (c # s) else c # replace_first p r s)"

subsection \<open>Constants\<close>

definition SKILL_ID :: string where "SKILL_ID = ''archify''"

definition EXPECTED_REPOSITORY :: string where "EXPECTED_REPOSITORY = ''https://github.com/tt-a1i/archify''"

definition DEFAULT_MANIFEST_URL :: string where
  "DEFAULT_MANIFEST_URL = ''https://tt-a1i.github.io/archify/skill-updates/archify/stable.json''"

text \<open>Code units above 255 do not occur in the model, so the bidirectional controls of the pattern do not either.\<close>

definition CONTROL_OR_BIDI :: "string \<Rightarrow> bool" where
  "CONTROL_OR_BIDI s \<longleftrightarrow> list_ex (\<lambda>c. let n = of_char c :: nat in n \<le> 31 \<or> 127 \<le> n \<and> n \<le> 159) s"

definition is_hex :: "char \<Rightarrow> bool" where
  "is_hex c \<longleftrightarrow> is_decimal c \<or> 97 \<le> (of_char c :: nat) \<and> (of_char c :: nat) \<le> 102"

definition HEX_40 :: "string \<Rightarrow> bool" where
  "HEX_40 s \<longleftrightarrow> length s = 40 \<and> list_all is_hex s"

definition HEX_64 :: "string \<Rightarrow> bool" where
  "HEX_64 s \<longleftrightarrow> length s = 64 \<and> list_all is_hex s"

subsection \<open>Objects\<close>

definition isPlainObject :: "json \<Rightarrow> bool" where
  "isPlainObject v = (case v of JObj _ \<Rightarrow> True | _ \<Rightarrow> False)"

text \<open>\<open>value.key\<close>, for an object value; \<open>undefined\<close> is \<open>None\<close>.\<close>

definition field :: "json \<Rightarrow> string \<Rightarrow> json option" where
  "field v k = (case v of JObj kvs \<Rightarrow> map_of kvs k | _ \<Rightarrow> None)"

definition object_keys :: "json \<Rightarrow> string list" where
  "object_keys v = (case v of JObj kvs \<Rightarrow> map fst kvs | _ \<Rightarrow> [])"

definition hasExactKeys :: "json option \<Rightarrow> string list \<Rightarrow> bool" where
  "hasExactKeys v expected =
     (case v of None \<Rightarrow> False
      | Some j \<Rightarrow> isPlainObject j \<and> join [CHR 0x00] (sort (object_keys j)) = join [CHR 0x00] (sort expected))"

subsection \<open>Versions\<close>

record semver =
  sv_core :: "string list"
  sv_prerelease :: "string list option"
  sv_build :: "string list option"

text \<open>\<open>/^\d+$/\<close>, \<open>0|[1-9]\d*\<close> and \<open>[0-9A-Za-z-]+\<close>\<close>

definition all_digits :: "string \<Rightarrow> bool" where
  "all_digits s \<longleftrightarrow> s \<noteq> [] \<and> list_all is_decimal s"

definition numeric_identifier :: "string \<Rightarrow> bool" where
  "numeric_identifier s \<longleftrightarrow> all_digits s \<and> (hd s = CHR ''0'' \<longrightarrow> s = ''0'')"

definition identifier_char :: "char \<Rightarrow> bool" where
  "identifier_char c \<longleftrightarrow> is_decimal c \<or> c = CHR ''-'' \<or>
     (let n = of_char c :: nat in 65 \<le> n \<and> n \<le> 90 \<or> 97 \<le> n \<and> n \<le> 122)"

definition identifier_text :: "string \<Rightarrow> bool" where
  "identifier_text s \<longleftrightarrow> s \<noteq> [] \<and> list_all identifier_char s"

text \<open>The groups of the pattern \<open>SEMVER\<close>: what follows the three numbers is a prerelease after a hyphen, then build metadata after a
  plus sign.\<close>

definition semver_groups :: "string \<Rightarrow> string option \<times> string option" where
  "semver_groups rest =
     (let meta = (\<lambda>r. case r of [] \<Rightarrow> None | _ # t \<Rightarrow> Some t)
      in case rest of
           [] \<Rightarrow> (None, None)
         | c # t \<Rightarrow>
             if c = CHR ''-'' then (Some (takeWhile (\<lambda>c. c \<noteq> CHR ''+'') t), meta (dropWhile (\<lambda>c. c \<noteq> CHR ''+'') t))
             else (None, Some t))"

definition identifiers_ok :: "string list option \<Rightarrow> bool" where
  "identifiers_ok x = (case x of None \<Rightarrow> True | Some ids \<Rightarrow> ids \<noteq> [] \<and> list_all identifier_text ids)"

definition SEMVER :: "string \<Rightarrow> (string list \<times> string option \<times> string option) option" where
  "SEMVER s =
     (let numbers = split_at_char (CHR ''.'') (takeWhile (\<lambda>c. c \<noteq> CHR ''-'' \<and> c \<noteq> CHR ''+'') s);
          (pre, meta) = semver_groups (dropWhile (\<lambda>c. c \<noteq> CHR ''-'' \<and> c \<noteq> CHR ''+'') s)
      in if length numbers = 3 \<and> list_all numeric_identifier numbers \<and>
            identifiers_ok (map_option (split_at_char (CHR ''.'')) pre) \<and> identifiers_ok (map_option (split_at_char (CHR ''.'')) meta)
         then Some (numbers, pre, meta) else None)"

definition invalid_semver :: "json \<Rightarrow> string" where
  "invalid_semver v = ''invalid SemVer: '' @ stringify v"

definition leading_zero :: "string \<Rightarrow> bool" where
  "leading_zero s \<longleftrightarrow> all_digits s \<and> length s > 1 \<and> hd s = CHR ''0''"

definition parseSemver :: "json \<Rightarrow> semver checked" where
  "parseSemver v =
     (case v of
        JStr s \<Rightarrow>
          if length s > 128 then Inl (invalid_semver v)
          else (case SEMVER s of
                  None \<Rightarrow> Inl (invalid_semver v)
                | Some (numbers, pre, meta) \<Rightarrow>
                    let p = map_option (split_at_char (CHR ''.'')) pre
                    in if (case p of None \<Rightarrow> False | Some ids \<Rightarrow> list_ex leading_zero ids) then Inl (invalid_semver v)
                       else Inr \<lparr>sv_core = numbers, sv_prerelease = p, sv_build = map_option (split_at_char (CHR ''.'')) meta\<rparr>)
      | _ \<Rightarrow> Inl (invalid_semver v))"

definition compareNumericIdentifiers :: "string \<Rightarrow> string \<Rightarrow> int" where
  "compareNumericIdentifiers left right =
     (if length left \<noteq> length right then (if length left < length right then - 1 else 1)
      else if left = right then 0
      else if left < right then - 1 else 1)"

fun compare_identifiers :: "string list \<Rightarrow> string list \<Rightarrow> int" where
  "compare_identifiers [] [] = 0"
| "compare_identifiers [] (r # rs) = - 1"
| "compare_identifiers (l # ls) [] = 1"
| "compare_identifiers (l # ls) (r # rs) =
     (if l = r then compare_identifiers ls rs
      else if all_digits l \<and> all_digits r then compareNumericIdentifiers l r
      else if all_digits l \<noteq> all_digits r then (if all_digits l then - 1 else 1)
      else if l < r then - 1 else 1)"

definition comparePrerelease :: "string list option \<Rightarrow> string list option \<Rightarrow> int" where
  "comparePrerelease left right =
     (case (left, right) of
        (None, None) \<Rightarrow> 0
      | (None, Some _) \<Rightarrow> 1
      | (Some _, None) \<Rightarrow> - 1
      | (Some l, Some r) \<Rightarrow> compare_identifiers l r)"

fun compare_cores :: "string list \<Rightarrow> string list \<Rightarrow> int" where
  "compare_cores (l # ls) (r # rs) = (let c = compareNumericIdentifiers l r in if c \<noteq> 0 then c else compare_cores ls rs)"
| "compare_cores _ _ = 0"

definition compareSemver :: "json \<Rightarrow> json \<Rightarrow> int checked" where
  "compareSemver leftValue rightValue =
     (case parseSemver leftValue of
        Inl e \<Rightarrow> Inl e
      | Inr left \<Rightarrow> (case parseSemver rightValue of
            Inl e \<Rightarrow> Inl e
          | Inr right \<Rightarrow>
              let c = compare_cores (sv_core left) (sv_core right)
              in Inr (if c \<noteq> 0 then c else comparePrerelease (sv_prerelease left) (sv_prerelease right))))"

definition releaseChannelForVersion :: "json \<Rightarrow> string checked" where
  "releaseChannelForVersion v =
     (case parseSemver v of Inl e \<Rightarrow> Inl e | Inr x \<Rightarrow> Inr (if sv_prerelease x \<noteq> None then ''development'' else ''stable''))"

definition isStableCoreVersion :: "json \<Rightarrow> bool" where
  "isStableCoreVersion v = (case parseSemver v of Inl _ \<Rightarrow> False | Inr x \<Rightarrow> sv_prerelease x = None \<and> sv_build x = None)"

subsection \<open>Publication time\<close>

text \<open>\<open>/^\d{4}-\d{2}-\d{2}T\d{2}:\d{2}:\d{2}Z$/\<close>\<close>

definition UTC_SECONDS :: "string \<Rightarrow> bool" where
  "UTC_SECONDS s \<longleftrightarrow> length s = 20 \<and> digits_at s 0 4 \<and> iso_clock (drop 4 s) \<and> char_at s 19 = CHR ''Z''"

text \<open>\<open>other\<close> is what \<open>Date.parse\<close> makes of strings that are not in the ISO format.\<close>

definition validateCanonicalUtcTimestamp :: "(string \<Rightarrow> timestamp option) \<Rightarrow> json \<Rightarrow> string checked" where
  "validateCanonicalUtcTimestamp other v =
     (case v of
        JStr s \<Rightarrow>
          if \<not> UTC_SECONDS s then Inl ''publication time must use YYYY-MM-DDTHH:mm:ssZ''
          else (case date_parse other s of
                  None \<Rightarrow> Inl ''publication time is not a real UTC calendar instant''
                | Some t \<Rightarrow> if replace_first ''.000Z'' ''Z'' (toISOString t) \<noteq> s
                            then Inl ''publication time is not a real UTC calendar instant'' else Inr s)
      | _ \<Rightarrow> Inl ''publication time must use YYYY-MM-DDTHH:mm:ssZ'')"

subsection \<open>The installed release\<close>

record local_release =
  lr_channel :: string
  lr_version :: string
  lr_updateManifestUrl :: string

definition is_text :: "json option \<Rightarrow> string \<Rightarrow> bool" where
  "is_text v s \<longleftrightarrow> v = Some (JStr s)"

definition nested :: "json \<Rightarrow> string \<Rightarrow> string \<Rightarrow> json option" where
  "nested v k k' = Option.bind (field v k) (\<lambda>x. field x k')"

definition text_of :: "json option \<Rightarrow> string" where
  "text_of v = (case v of Some (JStr s) \<Rightarrow> s | _ \<Rightarrow> [])"

definition local_identity :: "json \<Rightarrow> bool" where
  "local_identity v \<longleftrightarrow>
     hasExactKeys (Some v) [''schemaVersion'', ''skillId'', ''channel'', ''version'', ''source'', ''updateManifestUrl''] \<and>
     field v ''schemaVersion'' = Some (JNum 1) \<and> is_text (field v ''skillId'') SKILL_ID \<and>
     hasExactKeys (field v ''source'') [''repository''] \<and> is_text (nested v ''source'' ''repository'') EXPECTED_REPOSITORY \<and>
     is_text (field v ''updateManifestUrl'') DEFAULT_MANIFEST_URL"

text \<open>An absent version is \<open>undefined\<close>, which is no string; its message is not used by the callers.\<close>

definition validateLocalRelease :: "json \<Rightarrow> local_release checked" where
  "validateLocalRelease v =
     (if \<not> local_identity v then Inl ''invalid local release identity''
      else (case releaseChannelForVersion (nullish (field v ''version'') JNull) of
              Inl e \<Rightarrow> Inl e
            | Inr expectedChannel \<Rightarrow>
                if \<not> is_text (field v ''channel'') expectedChannel then Inl ''local release channel does not match its version''
                else Inr \<lparr>lr_channel = expectedChannel, lr_version = text_of (field v ''version''), lr_updateManifestUrl = DEFAULT_MANIFEST_URL\<rparr>))"

subsection \<open>The manifest of the stable channel\<close>

definition release_notes_url :: "string \<Rightarrow> string" where
  "release_notes_url version = ''https://github.com/tt-a1i/archify/releases/tag/v'' @ version"

definition validateReleaseNotesUrl :: "json option \<Rightarrow> json \<Rightarrow> string checked" where
  "validateReleaseNotesUrl v version =
     (if \<not> isStableCoreVersion version then Inl ''release notes require a stable core version''
      else let expected = release_notes_url (text_of (Some version))
           in if \<not> is_text v expected then Inl ''release notes URL is outside the exact trusted release path'' else Inr expected)"

text \<open>The two hashes are tested by a pattern, which converts its argument to a string; the model keeps that string.\<close>

record update_manifest =
  um_version :: string
  um_publishedAt :: string
  um_treeSha :: string
  um_sha256 :: string
  um_summary :: string
  um_releaseNotes :: string
  um_severity :: string

definition manifest_identity :: "json \<Rightarrow> bool" where
  "manifest_identity v \<longleftrightarrow>
     hasExactKeys (Some v) [''schemaVersion'', ''skillId'', ''channel'', ''version'', ''publishedAt'', ''source'',
       ''artifact'', ''summary'', ''releaseNotes'', ''severity''] \<and>
     field v ''schemaVersion'' = Some (JNum 1) \<and> is_text (field v ''skillId'') SKILL_ID \<and> is_text (field v ''channel'') ''stable'' \<and>
     isStableCoreVersion (nullish (field v ''version'') JNull) \<and>
     hasExactKeys (field v ''source'') [''repository'', ''ref'', ''treeSha''] \<and>
     is_text (nested v ''source'' ''repository'') EXPECTED_REPOSITORY \<and>
     is_text (nested v ''source'' ''ref'') (''v'' @ text_of (field v ''version'')) \<and>
     HEX_40 (js_string_opt (nested v ''source'' ''treeSha'')) \<and>
     hasExactKeys (field v ''artifact'') [''sha256''] \<and>
     HEX_64 (js_string_opt (nested v ''artifact'' ''sha256''))"

definition summary_ok :: "json option \<Rightarrow> bool" where
  "summary_ok v = (case v of Some (JStr s) \<Rightarrow> 1 \<le> length s \<and> length s \<le> 160 \<and> \<not> CONTROL_OR_BIDI s | _ \<Rightarrow> False)"

definition validateStableUpdateManifest :: "(string \<Rightarrow> timestamp option) \<Rightarrow> json \<Rightarrow> update_manifest checked" where
  "validateStableUpdateManifest other v =
     (if \<not> manifest_identity v then Inl ''invalid immutable stable release identity''
      else case validateCanonicalUtcTimestamp other (nullish (field v ''publishedAt'') JNull) of
        Inl e \<Rightarrow> Inl e
      | Inr publishedAt \<Rightarrow>
          if \<not> summary_ok (field v ''summary'') then Inl ''invalid release summary''
          else case validateReleaseNotesUrl (field v ''releaseNotes'') (nullish (field v ''version'') JNull) of
            Inl e \<Rightarrow> Inl e
          | Inr notes \<Rightarrow>
              if text_of (field v ''severity'') \<notin> {''normal'', ''security''} then Inl ''invalid update severity''
              else Inr \<lparr>um_version = text_of (field v ''version''), um_publishedAt = publishedAt,
                     um_treeSha = js_string_opt (nested v ''source'' ''treeSha''), um_sha256 = js_string_opt (nested v ''artifact'' ''sha256''),
                     um_summary = text_of (field v ''summary''), um_releaseNotes = notes, um_severity = text_of (field v ''severity'')\<rparr>)"

subsection \<open>Splitting and joining\<close>

lemma split_nonempty [simp]: "split_at_char c s \<noteq> []"
  by (induction s) (auto split: list.split)

lemma join_Cons: "join sep (x # xs) = (if xs = [] then x else x @ sep @ join sep xs)"
  by (cases xs) simp_all

lemma join_split: "join [c] (split_at_char c s) = s"
  by (induction s) (auto simp: join_Cons split: list.split)

lemma split_parts: "p \<in> set (split_at_char c s) \<Longrightarrow> c \<notin> set p \<and> set p \<subseteq> set s"
  by (induction s arbitrary: p) (fastforce split: list.splits if_splits)+

lemma split_join: "xs \<noteq> [] \<Longrightarrow> (\<And>x. x \<in> set xs \<Longrightarrow> c \<notin> set x) \<Longrightarrow> split_at_char c (join [c] xs) = xs"
proof (induction xs)
  case (Cons x xs)
  have "split_at_char c x = [x]" if "c \<notin> set x" for x using that by (induction x) auto
  moreover have "split_at_char c (x @ c # t) = x # split_at_char c t" if "c \<notin> set x" for x t using that by (induction x) auto
  ultimately show ?case using Cons by (auto simp: join_Cons)
qed simp

lemma set_join: "set (join [c] xs) \<subseteq> insert c (\<Union> (set ` set xs))"
  by (induction xs) (auto simp: join_Cons)

subsection \<open>The language of versions\<close>

definition show_semver :: "semver \<Rightarrow> string" where
  "show_semver v = join ''.'' (sv_core v) @
     (case sv_prerelease v of None \<Rightarrow> [] | Some p \<Rightarrow> ''-'' @ join ''.'' p) @
     (case sv_build v of None \<Rightarrow> [] | Some b \<Rightarrow> ''+'' @ join ''.'' b)"

text \<open>SemVer 2.0.0: three numbers without leading zeros, identifiers of alphanumerics and hyphens, no leading zeros in the numeric
  ones of a prerelease.\<close>

definition wf_semver :: "semver \<Rightarrow> bool" where
  "wf_semver v \<longleftrightarrow> length (sv_core v) = 3 \<and> list_all numeric_identifier (sv_core v) \<and>
     identifiers_ok (sv_prerelease v) \<and> \<not> (case sv_prerelease v of None \<Rightarrow> False | Some ids \<Rightarrow> list_ex leading_zero ids) \<and>
     identifiers_ok (sv_build v)"

lemma identifier_chars: "identifier_text x \<Longrightarrow> CHR ''.'' \<notin> set x \<and> CHR ''+'' \<notin> set x"
  by (auto simp: identifier_text_def identifier_char_def is_decimal_def list_all_iff)

lemma numeric_chars: "numeric_identifier x \<Longrightarrow> CHR ''.'' \<notin> set x \<and> CHR ''+'' \<notin> set x \<and> CHR ''-'' \<notin> set x"
  by (auto simp: numeric_identifier_def all_digits_def is_decimal_def list_all_iff)

lemma dropWhile_stops: "dropWhile P s = [] \<or> \<not> P (hd (dropWhile P s))"
  by (induction s) simp_all

lemma span_stop:
  assumes "\<And>c. c \<in> set s \<Longrightarrow> P c" and "t = [] \<or> \<not> P (hd t)"
  shows "takeWhile P (s @ t) = s" "dropWhile P (s @ t) = t"
  using assms by (cases t; simp add: takeWhile_append2 dropWhile_append2 takeWhile_append dropWhile_append)+

definition groups_text :: "string option \<Rightarrow> string option \<Rightarrow> string" where
  "groups_text pre meta = (case pre of None \<Rightarrow> [] | Some p \<Rightarrow> ''-'' @ p) @ (case meta of None \<Rightarrow> [] | Some b \<Rightarrow> ''+'' @ b)"

lemma groups_of_text:
  assumes "\<And>p. pre = Some p \<Longrightarrow> CHR ''+'' \<notin> set p"
  shows "semver_groups (groups_text pre meta) = (pre, meta)"
proof (cases pre)
  case (Some p)
  let ?t = "groups_text None meta"
  have "takeWhile (\<lambda>c. c \<noteq> CHR ''+'') (p @ ?t) = p" "dropWhile (\<lambda>c. c \<noteq> CHR ''+'') (p @ ?t) = ?t"
    using assms [OF Some] by (auto intro!: span_stop simp: groups_text_def split: option.split)
  moreover have "groups_text pre meta = CHR ''-'' # (p @ ?t)" by (simp add: Some groups_text_def)
  ultimately show ?thesis unfolding semver_groups_def Let_def
    by (simp only: list.case if_True refl) (simp add: Some groups_text_def split: option.split)
qed (cases meta; simp add: semver_groups_def groups_text_def)

lemma text_of_groups:
  assumes "rest = [] \<or> hd rest = CHR ''-'' \<or> hd rest = CHR ''+''" "semver_groups rest = (pre, meta)"
  shows "groups_text pre meta = rest"
proof (cases rest)
  case (Cons c t)
  let ?P = "\<lambda>c. c \<noteq> CHR ''+''"
  have t: "takeWhile ?P t @ dropWhile ?P t = t" by simp
  have "c = CHR ''-'' \<or> c = CHR ''+''" using assms(1) Cons by simp
  then show ?thesis
  proof
    assume c: "c = CHR ''-''"
    show ?thesis
    proof (cases "dropWhile ?P t")
      case Nil
      then have "takeWhile ?P t = t" using t by (simp only: append_Nil2)
      moreover have "pre = Some (takeWhile ?P t)" "meta = None" using assms(2) Nil c Cons by (simp_all add: semver_groups_def)
      ultimately have "pre = Some t" "meta = None" by (simp_all only:)
      then show ?thesis using c Cons by (simp add: groups_text_def)
    next
      case (Cons d b)
      then have "d = CHR ''+''" using dropWhile_stops [of ?P t] by simp
      with t Cons have "takeWhile ?P t @ CHR ''+'' # b = t" by simp
      moreover have "pre = Some (takeWhile ?P t)" "meta = Some b"
        using assms(2) Cons c \<open>rest = c # t\<close> by (simp_all add: semver_groups_def)
      ultimately show ?thesis using c \<open>rest = c # t\<close> by (simp add: groups_text_def)
    qed
  qed (use Cons assms(2) in \<open>auto simp: semver_groups_def groups_text_def\<close>)
qed (use assms in \<open>auto simp: semver_groups_def groups_text_def\<close>)

lemma SEMVER_iff:
  "SEMVER s = Some (numbers, pre, meta) \<longleftrightarrow>
     s = join ''.'' numbers @ groups_text pre meta \<and> length numbers = 3 \<and> list_all numeric_identifier numbers \<and>
     identifiers_ok (map_option (split_at_char (CHR ''.'')) pre) \<and> identifiers_ok (map_option (split_at_char (CHR ''.'')) meta)"
  (is "_ \<longleftrightarrow> ?shape \<and> ?ok")
proof
  let ?P = "\<lambda>c. c \<noteq> CHR ''-'' \<and> c \<noteq> CHR ''+''"
  assume m: "SEMVER s = Some (numbers, pre, meta)"
  then have g: "semver_groups (dropWhile ?P s) = (pre, meta)" "numbers = split_at_char (CHR ''.'') (takeWhile ?P s)" and ok: ?ok
    by (auto simp: SEMVER_def Let_def split: if_splits prod.splits)
  have "dropWhile ?P s = [] \<or> hd (dropWhile ?P s) = CHR ''-'' \<or> hd (dropWhile ?P s) = CHR ''+''"
    using dropWhile_stops [of ?P s] by blast
  from text_of_groups [OF this g(1)] have "join ''.'' numbers @ groups_text pre meta = takeWhile ?P s @ dropWhile ?P s"
    by (simp only: g(2) join_split)
  with ok show "?shape \<and> ?ok" by simp
next
  let ?P = "\<lambda>c. c \<noteq> CHR ''-'' \<and> c \<noteq> CHR ''+''"
  assume r: "?shape \<and> ?ok"
  then have n: "numbers \<noteq> []" "\<And>x. x \<in> set numbers \<Longrightarrow> numeric_identifier x" by (auto simp: list_all_iff)
  have "?P c" if "c \<in> set (join ''.'' numbers)" for c
    using that set_join [of "CHR ''.''" numbers] n(2) numeric_chars by fastforce
  moreover have "groups_text pre meta = [] \<or> \<not> ?P (hd (groups_text pre meta))" by (auto simp: groups_text_def split: option.splits)
  ultimately have core: "takeWhile ?P s = join ''.'' numbers" "dropWhile ?P s = groups_text pre meta"
    using span_stop [of "join ''.'' numbers" ?P "groups_text pre meta"] r by simp_all
  have numbers: "split_at_char (CHR ''.'') (join ''.'' numbers) = numbers"
    using n numeric_chars by (intro split_join) blast+
  have "CHR ''+'' \<notin> set p" if "pre = Some p" for p
  proof
    assume "CHR ''+'' \<in> set p"
    then have "CHR ''+'' \<in> set (join ''.'' (split_at_char (CHR ''.'') p))" by (simp only: join_split)
    with set_join [of "CHR ''.''" "split_at_char (CHR ''.'') p"] r that identifier_chars show False
      by (fastforce simp: identifiers_ok_def list_all_iff)
  qed
  from groups_of_text [OF this] show "SEMVER s = Some (numbers, pre, meta)"
    using r unfolding SEMVER_def core numbers Let_def by simp
qed

lemma parseSemver_iff: "parseSemver (JStr s) = Inr v \<longleftrightarrow> wf_semver v \<and> show_semver v = s \<and> length s \<le> 128"
proof
  assume "parseSemver (JStr s) = Inr v"
  then obtain numbers pre meta where m: "SEMVER s = Some (numbers, pre, meta)" and len: "length s \<le> 128"
    and zero: "\<not> (case map_option (split_at_char (CHR ''.'')) pre of None \<Rightarrow> False | Some ids \<Rightarrow> list_ex leading_zero ids)"
    and v: "v = \<lparr>sv_core = numbers, sv_prerelease = map_option (split_at_char (CHR ''.'')) pre, sv_build = map_option (split_at_char (CHR ''.'')) meta\<rparr>"
    by (auto simp: parseSemver_def Let_def split: if_splits option.splits prod.splits)
  note m = m [unfolded SEMVER_iff]
  have "show_semver v = join ''.'' numbers @ groups_text pre meta"
    by (cases pre; cases meta) (simp_all add: show_semver_def v groups_text_def join_split)
  with m zero len show "wf_semver v \<and> show_semver v = s \<and> length s \<le> 128" by (simp add: wf_semver_def v)
next
  assume r: "wf_semver v \<and> show_semver v = s \<and> length s \<le> 128"
  let ?j = "map_option (join ''.'')"
  have ids: "map_option (split_at_char (CHR ''.'')) (?j x) = x" if "identifiers_ok x" for x
    using that identifier_chars by (cases x) (auto simp: identifiers_ok_def list_all_iff intro!: split_join)
  have ok: "identifiers_ok (sv_prerelease v)" "identifiers_ok (sv_build v)" using r by (simp_all add: wf_semver_def)
  have "SEMVER s = Some (sv_core v, ?j (sv_prerelease v), ?j (sv_build v))"
    unfolding SEMVER_iff ids [OF ok(1)] ids [OF ok(2)] using r
    by (cases "sv_prerelease v"; cases "sv_build v") (auto simp: wf_semver_def show_semver_def groups_text_def)
  with r ids [OF ok(1)] ids [OF ok(2)] show "parseSemver (JStr s) = Inr v"
    by (cases "sv_prerelease v"; cases "sv_build v") (auto simp: parseSemver_def wf_semver_def)
qed

subsection \<open>Precedence\<close>

text \<open>The reference: what a version is worth. Numbers count by value, a numeric identifier is below every other one, those compare as
  strings, a longer list is above its prefixes, a release is above its prereleases, and build metadata does not count.\<close>

definition identifier_rank :: "string \<Rightarrow> nat \<times> nat \<times> string" where
  "identifier_rank x = (if all_digits x then (0, decimal x, []) else (1, 0, x))"

definition semver_rank :: "semver \<Rightarrow> nat list \<times> nat \<times> (nat \<times> nat \<times> string) list" where
  "semver_rank v = (map decimal (sv_core v),
     case sv_prerelease v of None \<Rightarrow> (1, []) | Some ids \<Rightarrow> (0, map identifier_rank ids))"

definition sign_of :: "'a :: linorder \<Rightarrow> 'a \<Rightarrow> int" where
  "sign_of x y = (if x < y then - 1 else if y < x then 1 else 0)"

lemma is_decimal_order: "is_decimal c \<Longrightarrow> is_decimal d \<Longrightarrow> c < d \<longleftrightarrow> digit_value c < digit_value d"
  by (auto simp: less_char_def digit_value_def is_decimal_def)

lemma decimal_order:
  assumes "list_all is_decimal l" "list_all is_decimal r" "length l = length r"
  shows "l < r \<longleftrightarrow> decimal l < decimal r"
  using assms(3,1,2)
proof (induction l r rule: list_induct2)
  case (Cons c l d r)
  note b = decimal_less [of l] decimal_less [of r]
  consider "c = d" | "c < d" | "d < c" using linorder_less_linear by blast
  then show ?case
  proof cases
    case 2
    then have "(digit_value c + 1) * 10 ^ length l \<le> digit_value d * 10 ^ length l"
      using Cons.prems is_decimal_order by (intro mult_right_mono) simp_all
    then show ?thesis using 2 Cons b by simp
  next
    case 3
    then have "(digit_value d + 1) * 10 ^ length l \<le> digit_value c * 10 ^ length l"
      using Cons.prems is_decimal_order by (intro mult_right_mono) simp_all
    then show ?thesis using 3 Cons b by (auto simp: less_imp_not_less)
  qed (use Cons in simp)
qed simp

lemma decimal_inj: "list_all is_decimal l \<Longrightarrow> list_all is_decimal r \<Longrightarrow> length l = length r \<Longrightarrow> decimal l = decimal r \<Longrightarrow> l = r"
  by (metis padded_of_decimal)

text \<open>Without leading zeros the longer number is the larger one.\<close>

lemma decimal_longer:
  assumes "numeric_identifier l" "numeric_identifier r" "length l < length r"
  shows "decimal l < decimal r"
proof -
  obtain c s where cs: "r = c # s" using assms(3) by (cases r) simp_all
  moreover have "s \<noteq> []" using assms(1,3) cs by (cases l) (auto simp: numeric_identifier_def all_digits_def)
  ultimately have r: "r = c # s" "is_decimal c" "c \<noteq> CHR ''0''" using assms(2) by (auto simp: numeric_identifier_def all_digits_def)
  have "of_char c \<noteq> (48 :: nat)"
  proof
    assume "of_char c = (48 :: nat)"
    moreover have "of_char (CHR ''0'') = (48 :: nat)" by simp
    ultimately show False using r(3) by (metis of_char_eq_iff)
  qed
  then have "1 \<le> digit_value c" using r(2) by (auto simp: digit_value_def is_decimal_def)
  then have "10 ^ length s \<le> decimal r" using r(1) by (simp add: mult_le_mono1 [of 1, simplified] trans_le_add1)
  moreover have "decimal l < 10 ^ length l" using assms(1) decimal_less by (auto simp: numeric_identifier_def all_digits_def)
  moreover have "(10::nat) ^ length l \<le> 10 ^ length s" using assms(3) r(1) by (intro power_increasing) simp_all
  ultimately show ?thesis by linarith
qed

lemma compareNumeric_sign:
  assumes "numeric_identifier l" "numeric_identifier r"
  shows "compareNumericIdentifiers l r = sign_of (decimal l) (decimal r)" "decimal l = decimal r \<longleftrightarrow> l = r"
proof -
  have d: "list_all is_decimal l" "list_all is_decimal r" using assms by (simp_all add: numeric_identifier_def all_digits_def)
  show eq: "decimal l = decimal r \<longleftrightarrow> l = r"
    using decimal_inj [OF d] decimal_longer [OF assms] decimal_longer [OF assms(2,1)] by (metis less_irrefl linorder_neqE_nat)
  show "compareNumericIdentifiers l r = sign_of (decimal l) (decimal r)"
    using decimal_order [OF d] decimal_order [OF d(2,1)] decimal_longer [OF assms] decimal_longer [OF assms(2,1)] eq
    by (auto simp: compareNumericIdentifiers_def sign_of_def)
qed

lemma sign_of_simps [simp]: "sign_of x x = 0" "sign_of x y = 0 \<longleftrightarrow> x = y"
  by (auto simp: sign_of_def)

lemma sign_of_pair: "sign_of (a, b) (c, d) = (if sign_of a c \<noteq> 0 then sign_of a c else sign_of b d)"
  by (auto simp: sign_of_def)

lemma sign_of_Cons: "sign_of (x # xs) (y # ys) = (if sign_of x y \<noteq> 0 then sign_of x y else sign_of xs ys)"
  by (auto simp: sign_of_def)

lemma sign_of_Nil: "sign_of [] (y # ys) = - 1" "sign_of (x # xs) [] = 1"
  by (auto simp: sign_of_def)

lemma numeric_of_identifier: "identifier_text x \<Longrightarrow> \<not> leading_zero x \<Longrightarrow> all_digits x \<Longrightarrow> numeric_identifier x"
  by (cases x) (auto simp: numeric_identifier_def leading_zero_def all_digits_def)

lemma identifier_rank_sign:
  assumes "identifier_text l" "\<not> leading_zero l" "identifier_text r" "\<not> leading_zero r"
  shows "sign_of (identifier_rank l) (identifier_rank r) =
     (if l = r then 0 else if all_digits l \<and> all_digits r then compareNumericIdentifiers l r
      else if all_digits l \<noteq> all_digits r then (if all_digits l then - 1 else 1) else if l < r then - 1 else 1)"
proof (cases "all_digits l \<and> all_digits r")
  case True
  with assms have "numeric_identifier l" "numeric_identifier r" by (simp_all add: numeric_of_identifier)
  from compareNumeric_sign [OF this] True show ?thesis by (simp add: identifier_rank_def sign_of_pair)
qed (auto simp: identifier_rank_def sign_of_pair sign_of_def)

lemma compare_identifiers_sign:
  assumes "list_all identifier_text ls" "\<not> list_ex leading_zero ls" "list_all identifier_text rs" "\<not> list_ex leading_zero rs"
  shows "compare_identifiers ls rs = sign_of (map identifier_rank ls) (map identifier_rank rs)"
  using assms
proof (induction ls rs rule: compare_identifiers.induct)
  case (4 l ls r rs)
  have "identifier_text l" "\<not> leading_zero l" "identifier_text r" "\<not> leading_zero r" using 4(2-) by simp_all
  note h = identifier_rank_sign [OF this]
  have "sign_of (identifier_rank l) (identifier_rank r) = 0 \<longleftrightarrow> l = r"
    using h compareNumeric_sign(1) [of l r] \<open>identifier_text l\<close> \<open>\<not> leading_zero l\<close> \<open>identifier_text r\<close> \<open>\<not> leading_zero r\<close>
    by (cases "all_digits l \<and> all_digits r") (auto simp: numeric_of_identifier compareNumericIdentifiers_def split: if_splits)
  with 4 h show ?case by (auto simp: sign_of_Cons simp del: sign_of_simps(2))
qed (simp_all add: sign_of_Nil)

lemma compare_cores_sign:
  "length ls = length rs \<Longrightarrow> list_all numeric_identifier ls \<Longrightarrow> list_all numeric_identifier rs \<Longrightarrow>
     compare_cores ls rs = sign_of (map decimal ls) (map decimal rs)"
proof (induction ls rs rule: list_induct2)
  case (Cons l ls r rs)
  then show ?case by (auto simp: Let_def sign_of_Cons compareNumeric_sign)
qed simp

lemma compare_semver_sign:
  assumes "wf_semver v" "wf_semver w"
  shows "(let c = compare_cores (sv_core v) (sv_core w) in if c \<noteq> 0 then c else comparePrerelease (sv_prerelease v) (sv_prerelease w)) =
    sign_of (semver_rank v) (semver_rank w)"
proof -
  have c: "compare_cores (sv_core v) (sv_core w) = sign_of (map decimal (sv_core v)) (map decimal (sv_core w))"
    using assms by (intro compare_cores_sign) (simp_all add: wf_semver_def)
  have "comparePrerelease (sv_prerelease v) (sv_prerelease w) = sign_of (snd (semver_rank v)) (snd (semver_rank w))"
    using assms compare_identifiers_sign
    by (cases "sv_prerelease v"; cases "sv_prerelease w")
      (auto simp: comparePrerelease_def semver_rank_def sign_of_pair wf_semver_def identifiers_ok_def, simp_all add: sign_of_def)
  with c show ?thesis by (simp add: semver_rank_def sign_of_pair Let_def)
qed

text \<open>Two versions of the same rank differ in their build metadata only.\<close>

lemma identifier_rank_inj:
  assumes "list_all identifier_text ls" "\<not> list_ex leading_zero ls" "list_all identifier_text rs" "\<not> list_ex leading_zero rs"
  shows "map identifier_rank ls = map identifier_rank rs \<Longrightarrow> ls = rs"
proof -
  have "compare_identifiers ls rs = 0 \<Longrightarrow> ls = rs" using assms
  proof (induction ls rs rule: compare_identifiers.induct)
    case (4 l ls r rs)
    then show ?case by (auto simp: compareNumericIdentifiers_def split: if_splits)
  qed simp_all
  then show "map identifier_rank ls = map identifier_rank rs \<Longrightarrow> ls = rs" by (simp add: compare_identifiers_sign [OF assms])
qed

lemma semver_rank_inj:
  assumes "wf_semver v" "wf_semver w"
  shows "semver_rank v = semver_rank w \<longleftrightarrow> sv_core v = sv_core w \<and> sv_prerelease v = sv_prerelease w"
proof
  assume e: "semver_rank v = semver_rank w"
  have "inj_on decimal {x. numeric_identifier x}" by (rule inj_onI) (simp add: compareNumeric_sign)
  then have "inj_on (map decimal) {xs. set xs \<subseteq> {x. numeric_identifier x}}"
    by (intro inj_onI) (metis (no_types, lifting) inj_on_map_eq_map inj_on_subset le_sup_iff mem_Collect_eq)
  moreover have "map decimal (sv_core v) = map decimal (sv_core w)" using e by (simp add: semver_rank_def)
  ultimately have "sv_core v = sv_core w" using assms by (auto simp: wf_semver_def list_all_iff dest!: inj_onD)
  moreover have "sv_prerelease v = sv_prerelease w"
    using e assms identifier_rank_inj
    by (cases "sv_prerelease v"; cases "sv_prerelease w") (auto simp: semver_rank_def wf_semver_def identifiers_ok_def)
  ultimately show "sv_core v = sv_core w \<and> sv_prerelease v = sv_prerelease w" ..
qed (simp add: semver_rank_def)

subsection \<open>Real instants\<close>

text \<open>\<open>YYYY-MM-DDTHH:mm:ssZ\<close>\<close>

definition utc_text :: "nat \<Rightarrow> nat \<Rightarrow> nat \<Rightarrow> nat \<Rightarrow> nat \<Rightarrow> nat \<Rightarrow> string" where
  "utc_text y mo d h mi s = padded 4 y @ clock_text mo d h mi s @ ''Z''"

definition real_instant :: "nat \<Rightarrow> nat \<Rightarrow> nat \<Rightarrow> nat \<Rightarrow> nat \<Rightarrow> nat \<Rightarrow> bool" where
  "real_instant y mo d h mi s \<longleftrightarrow> y \<le> 9999 \<and> 1 \<le> mo \<and> mo \<le> 12 \<and> 1 \<le> d \<and> int d \<le> month_lengths (int y) ! (mo - 1) \<and> h < 24 \<and> mi < 60 \<and> s < 60"

lemma padded_no_dot: "CHR ''.'' \<notin> set (padded n k)"
  using padded_decimal [of n k] by (auto simp: list_all_iff is_decimal_def)

lemma replace_first_skip:
  "CHR ''.'' \<notin> set x \<Longrightarrow> replace_first ''.000Z'' r (x @ s) = x @ replace_first ''.000Z'' r s"
  by (induction x) auto

lemma replace_fraction:
  assumes "length z = 3"
  shows "replace_first ''.000Z'' ''Z'' (CHR ''.'' # z @ ''Z'') = (if z = ''000'' then ''Z'' else CHR ''.'' # z @ ''Z'')"
proof -
  obtain a b c where "z = [a, b, c]" using assms by (auto simp: length_Suc_conv numeral_3_eq_3)
  then show ?thesis by auto
qed

text \<open>What is left of a printed time after its milliseconds are dropped.\<close>

definition without_fraction :: "string \<Rightarrow> string" where
  "without_fraction s = replace_first ''.000Z'' ''Z'' s"

lemma without_fraction_iso:
  "without_fraction (iso_year y @ iso_rest mo d h mi s ms) =
     iso_year y @ clock_text mo d h mi s @ (if padded 3 ms = ''000'' then ''Z'' else CHR ''.'' # padded 3 ms @ ''Z'')"
proof -
  let ?x = "iso_year y @ clock_text mo d h mi s"
  have "CHR ''.'' \<notin> set ?x" by (simp add: iso_year_def clock_text_def padded_no_dot)
  from replace_first_skip [OF this, of "''Z''" "CHR ''.'' # padded 3 ms @ ''Z''", unfolded replace_fraction [OF length_padded]] show ?thesis
    unfolding without_fraction_def iso_rest_def by simp
qed

lemma length_four: "length xs = 4 \<Longrightarrow> \<exists>a b c e. xs = [a, b, c, e]"
  by (auto simp: length_Suc_conv numeral_eq_Suc)

lemma utc_text_ok:
  assumes "real_instant y mo d h mi s"
  shows "UTC_SECONDS (utc_text y mo d h mi s)"
proof -
  have "mo < 100" "d < 100" "h < 100" "mi < 100" "s < 100"
    using assms month_lengths_pos [of "month_lengths (int y) ! (mo - 1)" "int y"] by (auto simp: real_instant_def)
  note two = this [THEN padded_two]
  obtain a b c e where "padded 4 y = [a, b, c, e]" "is_decimal a" "is_decimal b" "is_decimal c" "is_decimal e"
    using length_four [OF length_padded] padded_decimal [of 4 y] by force
  with two show ?thesis
    by (elim exE conjE) (simp add: UTC_SECONDS_def utc_text_def clock_text_def iso_clock_def digits_at_def char_at_def del: decimal.simps)
qed

lemma utc_text_iso:
  assumes "real_instant y mo d h mi s"
  shows "without_fraction (toISOString (make_time (int y) mo d h mi s 0)) = utc_text y mo d h mi s"
    "date_parse other (utc_text y mo d h mi s) = Some (make_time (int y) mo d h mi s 0)"
proof -
  have f: "toISOString (make_time (int y) mo d h mi s 0) = padded 4 y @ iso_rest mo d h mi s 0" "time_value (make_time (int y) mo d h mi s 0)"
    using toISOString_fields [of y mo d h mi s 0] assms by (simp_all add: real_instant_def)
  have zero: "padded 3 0 = ''000''" by code_simp
  have y: "padded 4 y = iso_year (int y)" using assms by (simp add: iso_year_def real_instant_def)
  show "without_fraction (toISOString (make_time (int y) mo d h mi s 0)) = utc_text y mo d h mi s"
    unfolding f(1) y without_fraction_iso by (simp add: utc_text_def zero y)
  have "fields_ok mo d h mi s 0"
    using assms month_lengths_pos [of "month_lengths (int y) ! (mo - 1)" "int y"] by (auto simp: real_instant_def fields_ok_def)
  from parse_clock_text [OF this _ f(2), of "''Z''"] have "parse_clock (int y) (CHR ''-'' # tl (clock_text mo d h mi s @ ''Z'')) = Some (make_time (int y) mo d h mi s 0)"
    by (simp add: clock_text_def)
  from parse_iso_year [OF _ this, of other] show "date_parse other (utc_text y mo d h mi s) = Some (make_time (int y) mo d h mi s 0)"
    using assms by (simp add: utc_text_def y real_instant_def clock_text_def)
qed

lemma real_instant_of_iso:
  assumes "time_value t" "length (without_fraction (toISOString t)) = 20"
  shows "\<exists>y mo d h mi s. real_instant y mo d h mi s \<and> without_fraction (toISOString t) = utc_text y mo d h mi s"
proof -
  obtain y mo d h mi s ms where t: "toISOString t = iso_year y @ iso_rest mo d h mi s ms"
    and ok: "fields_ok mo d h mi s ms" "h < 24" "int d \<le> month_lengths y ! (mo - 1)"
    using iso_fields [OF assms(1)] by metis
  have "length (iso_year y @ clock_text mo d h mi s @ (if padded 3 ms = ''000'' then ''Z'' else CHR ''.'' # padded 3 ms @ ''Z'')) = 20"
    using assms(2) by (simp only: t without_fraction_iso)
  then have y: "0 \<le> y" "y \<le> 9999" "padded 3 ms = ''000''" by (auto simp: iso_year_def clock_text_def dest: arg_cong [where f = length] split: if_splits)
  then have "without_fraction (toISOString t) = utc_text (nat y) mo d h mi s"
    unfolding t without_fraction_iso by (simp add: utc_text_def iso_year_def)
  moreover have "real_instant (nat y) mo d h mi s" using ok y by (simp add: real_instant_def fields_ok_def)
  ultimately show ?thesis by blast
qed

subsection \<open>Properties of the contract\<close>

text \<open>The version parser accepts exactly SemVer 2.0.0 of at most 128 characters, and printing the parts it returns gives the text back:
  every well-formed version is parsed to itself and nothing else is accepted.\<close>

theorem semver_language:
  "parseSemver x = Inr v \<longleftrightarrow> (\<exists>s. x = JStr s \<and> wf_semver v \<and> show_semver v = s \<and> length s \<le> 128)"
  using parseSemver_iff by (cases x) (simp_all add: parseSemver_def)

text \<open>C38. Comparing two versions follows the precedence of SemVer: the result is the sign of the comparison of their ranks in a linear
  order, where numbers count by value whatever their length, and it is 0 exactly when the versions differ at most in build metadata.
  So precedence is total, transitive and independent of the machine's integers.\<close>

theorem semver_precedence:
  assumes "parseSemver x = Inr v" "parseSemver y = Inr w"
  shows "compareSemver x y = Inr (sign_of (semver_rank v) (semver_rank w)) \<and>
    (compareSemver x y = Inr 0 \<longleftrightarrow> sv_core v = sv_core w \<and> sv_prerelease v = sv_prerelease w)"
proof -
  have wf: "wf_semver v" "wf_semver w"
    using assms parseSemver_iff by (cases x; cases y; simp add: parseSemver_def)+
  have "compareSemver x y = Inr (sign_of (semver_rank v) (semver_rank w))"
    unfolding compareSemver_def assms sum.case using compare_semver_sign [OF wf] by (simp add: Let_def)
  with semver_rank_inj [OF wf] show ?thesis by simp
qed

text \<open>The chain of the SemVer document: a numeric identifier is below an alphanumeric one, and 2 is below 11.\<close>

theorem semver_precedence_witness:
  "compareSemver (JStr ''1.0.0-beta.2'') (JStr ''1.0.0-beta.11+x'') = Inr (- 1)"
proof -
  let ?v = "\<lparr>sv_core = [''1'', ''0'', ''0''], sv_prerelease = Some [''beta'', ''2''], sv_build = None\<rparr>"
  let ?w = "\<lparr>sv_core = [''1'', ''0'', ''0''], sv_prerelease = Some [''beta'', ''11''], sv_build = Some [''x'']\<rparr>"
  have "parseSemver (JStr ''1.0.0-beta.2'') = Inr ?v" "parseSemver (JStr ''1.0.0-beta.11+x'') = Inr ?w" by code_simp+
  from semver_precedence [OF this] have "compareSemver (JStr ''1.0.0-beta.2'') (JStr ''1.0.0-beta.11+x'') = Inr (sign_of (semver_rank ?v) (semver_rank ?w))" ..
  also have "sign_of (semver_rank ?v) (semver_rank ?w) = - 1" by code_simp
  finally show ?thesis .
qed

text \<open>C39. A publication time is accepted exactly when it names a real instant of the Gregorian calendar in the prescribed form: months have
  their days, leap years included, and no field overflows, whatever \<open>Date.parse\<close> makes of other strings.\<close>

theorem publication_time_exact:
  assumes "\<And>x t. other x = Some t \<Longrightarrow> time_value t"
  shows "validateCanonicalUtcTimestamp other (JStr x) = Inr x \<longleftrightarrow> (\<exists>y mo d h mi s. real_instant y mo d h mi s \<and> x = utc_text y mo d h mi s)"
proof
  assume "validateCanonicalUtcTimestamp other (JStr x) = Inr x"
  then obtain t where t: "date_parse other x = Some t" "without_fraction (toISOString t) = x" and len: "length x = 20"
    by (auto simp: validateCanonicalUtcTimestamp_def without_fraction_def UTC_SECONDS_def split: if_splits option.splits)
  have "time_value t" by (rule date_parse_time [OF _ t(1)]) (rule assms)
  from real_instant_of_iso [OF this] t(2) len show "\<exists>y mo d h mi s. real_instant y mo d h mi s \<and> x = utc_text y mo d h mi s" by metis
next
  assume "\<exists>y mo d h mi s. real_instant y mo d h mi s \<and> x = utc_text y mo d h mi s"
  then obtain y mo d h mi s where r: "real_instant y mo d h mi s" "x = utc_text y mo d h mi s" by blast
  with utc_text_ok [OF r(1)] utc_text_iso [OF r(1)] show "validateCanonicalUtcTimestamp other (JStr x) = Inr x"
    by (simp add: validateCanonicalUtcTimestamp_def without_fraction_def)
qed

theorem publication_time_exact_witness:
  "validateCanonicalUtcTimestamp (\<lambda>_. None) (JStr ''2024-02-29T12:30:00Z'') = Inr ''2024-02-29T12:30:00Z''"
proof -
  have "real_instant 2024 2 29 12 30 0 \<and> ''2024-02-29T12:30:00Z'' = utc_text 2024 2 29 12 30 0" by code_simp
  then show ?thesis using publication_time_exact [of "\<lambda>_. None" "''2024-02-29T12:30:00Z''"] by blast
qed

end
