(* ===== verification/Update_State.thy ===== *)
theory Update_State
  imports Update_Contract
begin

text \<open>
  The update check of archify, \<^verbatim>\<open>.agents/skills/archify/scripts/check-update.mjs\<close>: the cached state, its bounded encoding and
  its validation, the decisions of a check and of an acknowledgement, the reading of the manifest, and the two entry points over a
  cache directory that no other process uses at the same time. The guarded file operations and the claims by which processes
  exclude each other are not part of the model.
\<close>

subsection \<open>Constants\<close>

definition CHECK_TTL_MS :: int where "CHECK_TTL_MS = 72 * 60 * 60 * 1000"
definition MAX_CACHE_HORIZON_MS :: int where "MAX_CACHE_HORIZON_MS = \<lceil>of_int CHECK_TTL_MS * (12 / 10 :: rat)\<rceil>"
definition FIRST_FAILURE_DELAY_MS :: int where "FIRST_FAILURE_DELAY_MS = 6 * 60 * 60 * 1000"
definition LATER_FAILURE_DELAY_MS :: int where "LATER_FAILURE_DELAY_MS = 24 * 60 * 60 * 1000"
definition MAX_RESPONSE_BYTES :: int where "MAX_RESPONSE_BYTES = 32 * 1024"
definition MAX_CACHE_STATE_BYTES :: int where "MAX_CACHE_STATE_BYTES = 64 * 1024"
definition LONGEST_ISO_TIMESTAMP :: string where "LONGEST_ISO_TIMESTAMP = ''+275760-09-13T00:00:00.000Z''"

text \<open>\<open>/^sha256:[a-f0-9]{64}$/\<close>\<close>

definition DIGEST_PATTERN :: "string \<Rightarrow> bool" where
  "DIGEST_PATTERN s \<longleftrightarrow> take 7 s = ''sha256:'' \<and> HEX_64 (drop 7 s)"

subsection \<open>The cached state\<close>

text \<open>The digest of a cached candidate is tested by a pattern only and may be any value that converts to a digest.\<close>

record candidate =
  cd_version :: string
  cd_targetDigest :: json
  cd_severity :: string
  cd_releaseNotes :: string

record update_state =
  us_installedVersion :: "string option"
  us_nextCheckAt :: "string option"
  us_failures :: int
  us_offered :: "string list"
  us_acknowledged :: "string list"
  us_candidate :: "candidate option"

definition hasOnlyKeys :: "json \<Rightarrow> string list \<Rightarrow> bool" where
  "hasOnlyKeys v allowed = list_all (\<lambda>k. k \<in> set allowed) (object_keys v)"

definition validateManifest :: "(string \<Rightarrow> timestamp option) \<Rightarrow> json \<Rightarrow> candidate checked" where
  "validateManifest other v =
     (case validateStableUpdateManifest other v of
        Inl e \<Rightarrow> Inl e
      | Inr m \<Rightarrow> Inr \<lparr>cd_version = um_version m, cd_targetDigest = JStr (''sha256:'' @ um_sha256 m),
                     cd_severity = um_severity m, cd_releaseNotes = um_releaseNotes m\<rparr>)"

definition validateCachedCandidate :: "json option \<Rightarrow> candidate option" where
  "validateCachedCandidate v =
     (case v of
        None \<Rightarrow> None
      | Some c \<Rightarrow>
          if \<not> isPlainObject c \<or> \<not> hasOnlyKeys c [''version'', ''targetDigest'', ''severity'', ''releaseNotes''] then None
          else let version = nullish (field c ''version'') JNull
               in if \<not> isStableCoreVersion version then None
                  else if \<not> DIGEST_PATTERN (js_string_opt (field c ''targetDigest'')) \<or> text_of (field c ''severity'') \<notin> {''normal'', ''security''} then None
                  else case validateReleaseNotesUrl (field c ''releaseNotes'') version of
                         Inl _ \<Rightarrow> None
                       | Inr notes \<Rightarrow> Some \<lparr>cd_version = text_of (Some version), cd_targetDigest = the (field c ''targetDigest''),
                           cd_severity = text_of (field c ''severity''), cd_releaseNotes = notes\<rparr>)"

definition emptyState :: "string option \<Rightarrow> update_state" where
  "emptyState installedVersion = \<lparr>us_installedVersion = installedVersion, us_nextCheckAt = None, us_failures = 0,
     us_offered = [], us_acknowledged = [], us_candidate = None\<rparr>"

subsection \<open>The encoding\<close>

definition json_or_null :: "string option \<Rightarrow> json" where
  "json_or_null x = (case x of None \<Rightarrow> JNull | Some s \<Rightarrow> JStr s)"

definition candidate_json :: "candidate \<Rightarrow> json" where
  "candidate_json c = JObj [(''version'', JStr (cd_version c)), (''targetDigest'', cd_targetDigest c),
     (''severity'', JStr (cd_severity c)), (''releaseNotes'', JStr (cd_releaseNotes c))]"

definition check_json :: "string option \<Rightarrow> int \<Rightarrow> json" where
  "check_json nextCheckAt failures = JObj [(''nextCheckAt'', json_or_null nextCheckAt), (''consecutiveFailures'', JNum (of_int failures))]"

definition notification_json :: "string list \<Rightarrow> string list \<Rightarrow> json" where
  "notification_json offered acknowledged =
     JObj [(''offeredDigests'', JArr (map JStr offered)), (''acknowledgedDigests'', JArr (map JStr acknowledged))]"

definition state_json :: "update_state \<Rightarrow> json" where
  "state_json st = JObj ([(''schemaVersion'', JNum 1), (''skillId'', JStr SKILL_ID), (''installedVersion'', json_or_null (us_installedVersion st)),
     (''check'', check_json (us_nextCheckAt st) (us_failures st)),
     (''notification'', notification_json (us_offered st) (us_acknowledged st))] @
     (case us_candidate st of None \<Rightarrow> [] | Some c \<Rightarrow> [(''candidate'', candidate_json c)]))"

text \<open>The bytes of a string in UTF-8; code units below 256 take one or two.\<close>

definition utf8_length :: "string \<Rightarrow> int" where
  "utf8_length s = sum_list (map (\<lambda>c. if (of_char c :: nat) < 128 then 1 else 2) s)"

definition encodeBoundedState :: "update_state \<Rightarrow> string option" where
  "encodeBoundedState st =
     (let encoded = stringify (state_json st) @ [CHR 0x0A] in if utf8_length encoded \<le> MAX_CACHE_STATE_BYTES then Some encoded else None)"

definition stateAfterAcknowledgement :: "update_state \<Rightarrow> string \<Rightarrow> update_state" where
  "stateAfterAcknowledgement st targetDigest =
     st\<lparr>us_offered := filter (\<lambda>d. d \<noteq> targetDigest) (us_offered st),
        us_acknowledged := (if targetDigest \<in> set (us_acknowledged st) then us_acknowledged st else us_acknowledged st @ [targetDigest])\<rparr>"

definition stateWithFailureCheck :: "update_state \<Rightarrow> string \<Rightarrow> int \<Rightarrow> bool \<Rightarrow> update_state" where
  "stateWithFailureCheck st nextCheckAt consecutiveFailures withdrawCandidate =
     st\<lparr>us_nextCheckAt := Some nextCheckAt, us_failures := consecutiveFailures,
        us_candidate := (if withdrawCandidate then None else us_candidate st)\<rparr>"

fun acknowledgements_fit :: "update_state \<Rightarrow> string list \<Rightarrow> bool" where
  "acknowledgements_fit st [] = True"
| "acknowledgements_fit st (d # ds) =
     (let next = stateAfterAcknowledgement st d
      in encodeBoundedState next \<noteq> None \<and> encodeBoundedState (stateWithFailureCheck next LONGEST_ISO_TIMESTAMP 2 False) \<noteq> None \<and>
         acknowledgements_fit next ds)"

definition encodeRecoverableState :: "update_state \<Rightarrow> string option" where
  "encodeRecoverableState st =
     (case encodeBoundedState st of
        None \<Rightarrow> None
      | Some encoded \<Rightarrow>
          if encodeBoundedState (stateWithFailureCheck st LONGEST_ISO_TIMESTAMP 2 False) = None then None
          else if acknowledgements_fit st (us_offered st) then Some encoded else None)"

subsection \<open>Validation of a cached state\<close>

definition safe_integer :: "json option \<Rightarrow> int option" where
  "safe_integer v = (case v of Some (JNum x) \<Rightarrow> if x = of_int \<lfloor>x\<rfloor> \<and> \<bar>\<lfloor>x\<rfloor>\<bar> \<le> 9007199254740991 then Some \<lfloor>x\<rfloor> else None | _ \<Rightarrow> None)"

text \<open>\<open>null\<close> or a string, on the right.\<close>

definition text_or_null :: "json option \<Rightarrow> string option option" where
  "text_or_null v = (case v of Some JNull \<Rightarrow> Some None | Some (JStr s) \<Rightarrow> Some (Some s) | _ \<Rightarrow> None)"

definition digest_list :: "json option \<Rightarrow> string list option" where
  "digest_list v = (case v of
     Some (JArr vs) \<Rightarrow> if list_all (\<lambda>x. case x of JStr s \<Rightarrow> DIGEST_PATTERN s | _ \<Rightarrow> False) vs
       then Some (unique (map (\<lambda>x. text_of (Some x)) vs)) else None
   | _ \<Rightarrow> None)"

definition version_ok :: "string option \<Rightarrow> bool" where
  "version_ok v = (case v of None \<Rightarrow> True | Some s \<Rightarrow> (case parseSemver (JStr s) of Inl _ \<Rightarrow> False | Inr _ \<Rightarrow> True))"

definition newer :: "string \<Rightarrow> string \<Rightarrow> bool" where
  "newer v installed = (case compareSemver (JStr v) (JStr installed) of Inl _ \<Rightarrow> False | Inr c \<Rightarrow> c > 0)"

definition digest_in :: "json \<Rightarrow> string list \<Rightarrow> bool" where
  "digest_in v ds = (case v of JStr s \<Rightarrow> s \<in> set ds | _ \<Rightarrow> False)"

text \<open>A candidate that is newer than the installed version has been offered or acknowledged.\<close>

definition candidate_accounted :: "update_state \<Rightarrow> bool" where
  "candidate_accounted st =
     (case (us_candidate st, us_installedVersion st) of
        (Some c, Some installed) \<Rightarrow> newer (cd_version c) installed \<longrightarrow>
          digest_in (cd_targetDigest c) (us_offered st) \<or> digest_in (cd_targetDigest c) (us_acknowledged st)
      | _ \<Rightarrow> True)"

definition state_header :: "json \<Rightarrow> string option \<Rightarrow> bool" where
  "state_header v installedVersion \<longleftrightarrow>
     isPlainObject v \<and> field v ''schemaVersion'' = Some (JNum 1) \<and> is_text (field v ''skillId'') SKILL_ID \<and>
     (installedVersion \<noteq> None \<longrightarrow> field v ''installedVersion'' = Some (JStr (the installedVersion))) \<and>
     text_or_null (field v ''installedVersion'') \<noteq> None \<and>
     (case field v ''check'' of Some c \<Rightarrow> isPlainObject c | None \<Rightarrow> False) \<and>
     text_or_null (nested v ''check'' ''nextCheckAt'') \<noteq> None \<and>
     (case safe_integer (nested v ''check'' ''consecutiveFailures'') of Some n \<Rightarrow> 0 \<le> n | None \<Rightarrow> False) \<and>
     (case field v ''notification'' of Some c \<Rightarrow> isPlainObject c | None \<Rightarrow> False)"

definition normalizeState :: "json \<Rightarrow> string option \<Rightarrow> update_state option" where
  "normalizeState v installedVersion =
     (if \<not> state_header v installedVersion then None
      else let effective = (case installedVersion of Some s \<Rightarrow> Some s | None \<Rightarrow> the (text_or_null (field v ''installedVersion'')))
      in if \<not> version_ok effective then None
      else case digest_list (nested v ''notification'' ''offeredDigests'') of None \<Rightarrow> None
      | Some offered \<Rightarrow> (case digest_list (nested v ''notification'' ''acknowledgedDigests'') of None \<Rightarrow> None
      | Some acknowledged \<Rightarrow>
          let candidate = validateCachedCandidate (field v ''candidate'');
              st = \<lparr>us_installedVersion = effective, us_nextCheckAt = the (text_or_null (nested v ''check'' ''nextCheckAt'')),
                us_failures = the (safe_integer (nested v ''check'' ''consecutiveFailures'')),
                us_offered = offered, us_acknowledged = acknowledged, us_candidate = candidate\<rparr>
          in if field v ''candidate'' \<noteq> None \<and> candidate = None then None
             else if \<not> candidate_accounted st then None
             else if encodeRecoverableState st \<noteq> None then Some st else None))"

subsection \<open>Operations of the cache directory\<close>

definition MAX_OPERATION_GENERATION :: int where "MAX_OPERATION_GENERATION = 10 ^ 20 - 1"

definition operationName :: "string \<Rightarrow> nat \<Rightarrow> string" where
  "operationName kind generation = kind @ ''-'' @ padded 20 generation"

definition operation_kinds :: "string list" where
  "operation_kinds = [''reserved'', ''pending'', ''committed'', ''fenced'', ''cancelled'']"

text \<open>\<open>/^(reserved|pending|committed|fenced|cancelled)-(\d{1,20})$/\<close>\<close>

definition parseOperationName :: "string \<Rightarrow> (string \<times> nat) option" where
  "parseOperationName name =
     (let kind = takeWhile (\<lambda>c. c \<noteq> CHR ''-'') name; digits = drop 1 (dropWhile (\<lambda>c. c \<noteq> CHR ''-'') name)
      in if kind \<in> set operation_kinds \<and> 1 \<le> length digits \<and> length digits \<le> 20 \<and> list_all is_decimal digits
         then Some (kind, decimal digits) else None)"

text \<open>The first generation that no operation occupies. Without another process at work no \<open>mkdir\<close> finds its directory, so the
  first free generation is the one reserved; the list of occupied ones is longer than the search.\<close>

primrec first_free :: "nat \<Rightarrow> nat \<Rightarrow> nat list \<Rightarrow> nat" where
  "first_free 0 generation occupied = generation"
| "first_free (Suc n) generation occupied =
     (if generation \<in> set occupied then first_free n (generation + 1) occupied else generation)"

definition reserve_generation :: "nat list \<Rightarrow> nat option" where
  "reserve_generation occupied =
     (let generation = first_free (length occupied) 1 occupied
      in if int generation > MAX_OPERATION_GENERATION then None else Some generation)"

text \<open>A cache directory: the generations that are occupied, and the contents of \<open>state.json\<close> of the committed ones.\<close>

record update_cache =
  uc_occupied :: "nat list"
  uc_committed :: "(nat \<times> json) list"

definition readState :: "update_cache \<Rightarrow> string option \<Rightarrow> update_state" where
  "readState cache installedVersion =
     (case List.map_filter (\<lambda>x. normalizeState (snd x) installedVersion) (rev (sort_key fst (uc_committed cache))) of
        [] \<Rightarrow> emptyState installedVersion
      | st # _ \<Rightarrow> st)"

subsection \<open>Decisions\<close>

datatype update_result =
    Silent string
  | Update_available string string string string string string string
  | Acknowledged string

record decision =
  de_state :: "update_state option"
  de_result :: update_result
  de_fallback :: "(update_state \<times> update_result) option"

text \<open>\<open>new Date(t).toISOString()\<close>, which throws outside the range of time values.\<close>

definition date_iso :: "timestamp \<Rightarrow> string option" where
  "date_iso t = (if time_value t then Some (toISOString t) else None)"

text \<open>\<open>random\<close> is the value of \<open>Number(random()) || 0\<close>.\<close>

definition nextSuccessfulCheck :: "timestamp \<Rightarrow> rat \<Rightarrow> string option" where
  "nextSuccessfulCheck nowMs random =
     (let boundedRandom = min 1 (max 0 random); multiplier = 8 / 10 + boundedRandom * (4 / 10)
      in date_iso (nowMs + js_round (of_int CHECK_TTL_MS * multiplier)))"

definition nextFailedCheck :: "timestamp \<Rightarrow> int \<Rightarrow> string option" where
  "nextFailedCheck nowMs failures = date_iso (nowMs + (if failures \<le> 1 then FIRST_FAILURE_DELAY_MS else LATER_FAILURE_DELAY_MS))"

definition stateAfterFailedCheck :: "update_state \<Rightarrow> timestamp \<Rightarrow> bool \<Rightarrow> update_state option" where
  "stateAfterFailedCheck st nowMs withdrawCandidate =
     (let failures = min (us_failures st + 1) 2
      in map_option (\<lambda>time. stateWithFailureCheck st time failures withdrawCandidate) (nextFailedCheck nowMs failures))"

definition eventKeyForDigest :: "string \<Rightarrow> string" where
  "eventKeyForDigest targetDigest = SKILL_ID @ ''@'' @ targetDigest"

definition digestForEventKey :: "string \<Rightarrow> string option" where
  "digestForEventKey eventKey =
     (let prefix = SKILL_ID @ ''@''; digest = drop (length prefix) eventKey
      in if take (length prefix) eventKey = prefix \<and> DIGEST_PATTERN digest then Some digest else None)"

definition notification :: "local_release \<Rightarrow> candidate \<Rightarrow> update_result" where
  "notification localRelease c =
     (let digest = js_string (cd_targetDigest c)
      in Update_available (eventKeyForDigest digest) (lr_version localRelease) (cd_version c) digest (cd_severity c)
           (''Archify '' @ cd_version c @ '' is available; see the official release notes for details.'') (cd_releaseNotes c))"

definition resultForCandidate :: "local_release \<Rightarrow> update_state \<Rightarrow> update_result" where
  "resultForCandidate localRelease st =
     (case us_candidate st of
        None \<Rightarrow> Silent ''cache-valid''
      | Some c \<Rightarrow>
          if \<not> newer (cd_version c) (lr_version localRelease) then Silent ''current''
          else if digest_in (cd_targetDigest c) (us_acknowledged st) then Silent ''already-notified''
          else notification localRelease c)"

definition freshStateResult :: "(string \<Rightarrow> timestamp option) \<Rightarrow> local_release \<Rightarrow> update_state \<Rightarrow> timestamp \<Rightarrow> update_result option" where
  "freshStateResult other localRelease st nowMs =
     (case date_parse other (nullish (us_nextCheckAt st) []) of
        None \<Rightarrow> None
      | Some nextCheckAt \<Rightarrow>
          if nextCheckAt > nowMs \<and> nextCheckAt \<le> nowMs + MAX_CACHE_HORIZON_MS then Some (resultForCandidate localRelease st) else None)"

text \<open>The callbacks of \<open>commitOperation\<close>: a failed check, a check that fetched a candidate, an acknowledgement; \<open>None\<close> when a date is out of
  range and the callback throws.\<close>

definition failed_decision :: "string \<Rightarrow> timestamp \<Rightarrow> update_state \<Rightarrow> decision option" where
  "failed_decision reason nowMs current =
     map_option (\<lambda>st. \<lparr>de_state = Some st, de_result = Silent reason, de_fallback = None\<rparr>) (stateAfterFailedCheck current nowMs False)"

definition is_available :: "update_result \<Rightarrow> bool" where
  "is_available r = (case r of Update_available _ _ _ _ _ _ _ \<Rightarrow> True | _ \<Rightarrow> False)"

definition checked_decision :: "local_release \<Rightarrow> candidate \<Rightarrow> timestamp \<Rightarrow> rat \<Rightarrow> update_state \<Rightarrow> decision option" where
  "checked_decision localRelease c nowMs random current =
     (case nextSuccessfulCheck nowMs random of
        None \<Rightarrow> None
      | Some time \<Rightarrow>
          let next = current\<lparr>us_candidate := Some c, us_nextCheckAt := Some time, us_failures := 0\<rparr>;
              result = resultForCandidate localRelease next;
              next' = (if is_available result \<and> \<not> digest_in (cd_targetDigest c) (us_offered next)
                       then next\<lparr>us_offered := us_offered next @ [js_string (cd_targetDigest c)]\<rparr> else next)
          in map_option (\<lambda>fb. \<lparr>de_state = Some next', de_result = result, de_fallback = Some (fb, Silent ''cache-unavailable'')\<rparr>)
               (stateAfterFailedCheck current nowMs True))"

definition acknowledged_decision :: "string \<Rightarrow> string \<Rightarrow> update_state \<Rightarrow> decision option" where
  "acknowledged_decision eventKey targetDigest st =
     Some (if targetDigest \<notin> set (us_offered st) \<and> targetDigest \<notin> set (us_acknowledged st)
           then \<lparr>de_state = None, de_result = Silent ''invalid-acknowledgement'', de_fallback = None\<rparr>
           else \<lparr>de_state = Some (stateAfterAcknowledgement st targetDigest), de_result = Acknowledged eventKey, de_fallback = None\<rparr>)"

subsection \<open>Committing\<close>

text \<open>The choice of \<open>commitOperation\<close> between the state, its fallback and giving up.\<close>

definition committed_choice :: "decision \<Rightarrow> update_state option \<times> update_result" where
  "committed_choice d =
     (case de_state d of
        None \<Rightarrow> (None, de_result d)
      | Some st \<Rightarrow>
          if encodeRecoverableState st \<noteq> None then (Some st, de_result d)
          else (case de_fallback d of
                  None \<Rightarrow> (None, Silent ''cache-unavailable'')
                | Some (st', r) \<Rightarrow> if encodeRecoverableState st' \<noteq> None then (Some st', r) else (None, Silent ''cache-unavailable'')))"

text \<open>\<open>commitOperation\<close> of an operation that owns the active claim; the operation occupies its generation whether it is committed or
  cancelled.\<close>

definition commitOperation ::
    "update_cache \<Rightarrow> nat \<Rightarrow> string \<Rightarrow> (update_state \<Rightarrow> decision option) \<Rightarrow> update_cache \<times> update_result" where
  "commitOperation cache generation installedVersion mutate =
     (let cancelled = cache\<lparr>uc_occupied := generation # uc_occupied cache\<rparr>
      in case mutate (readState cache (Some installedVersion)) of
           None \<Rightarrow> (cancelled, Silent ''cache-unavailable'')
         | Some d \<Rightarrow> (case committed_choice d of
               (None, r) \<Rightarrow> (cancelled, r)
             | (Some st, r) \<Rightarrow> (cancelled\<lparr>uc_committed := (generation, state_json st) # uc_committed cache\<rparr>, r)))"

definition transaction :: "update_cache \<Rightarrow> string \<Rightarrow> (update_state \<Rightarrow> decision option) \<Rightarrow> update_cache \<times> update_result" where
  "transaction cache installedVersion mutate =
     (case reserve_generation (uc_occupied cache) of
        None \<Rightarrow> (cache, Silent ''cache-unavailable'')
      | Some generation \<Rightarrow> commitOperation cache generation installedVersion mutate)"

subsection \<open>The manifest\<close>

record response =
  rs_status :: int
  rs_contentType :: "string option"
  rs_contentLength :: "rat option"
  rs_chunks :: "string list option"

text \<open>An answer, or a request that failed or timed out.\<close>

datatype fetch_error = Contract_error string | Other_error string

primrec bounded_chunks :: "int \<Rightarrow> string list \<Rightarrow> fetch_error + string" where
  "bounded_chunks n [] = Inr []"
| "bounded_chunks n (c # cs) =
     (if n + int (length c) > MAX_RESPONSE_BYTES then Inl (Contract_error ''manifest response is too large'')
      else map_sum id (\<lambda>s. c @ s) (bounded_chunks (n + int (length c)) cs))"

text \<open>\<open>decode\<close> is the strict UTF-8 decoder, \<open>parse_json\<close> is \<open>JSON.parse\<close>; both fail with \<open>None\<close>.\<close>

definition readBoundedBody :: "(string \<Rightarrow> string option) \<Rightarrow> response \<Rightarrow> fetch_error + string" where
  "readBoundedBody decode response =
     (if (case rs_contentLength response of Some n \<Rightarrow> n > of_int MAX_RESPONSE_BYTES | None \<Rightarrow> False)
      then Inl (Contract_error ''manifest response is too large'')
      else case rs_chunks response of
        None \<Rightarrow> Inl (Contract_error ''manifest response has no bounded stream'')
      | Some chunks \<Rightarrow> (case bounded_chunks 0 chunks of
            Inl e \<Rightarrow> Inl e
          | Inr joined \<Rightarrow> (case decode joined of
                None \<Rightarrow> Inl (Contract_error ''manifest is not valid UTF-8'')
              | Some source \<Rightarrow> Inr source)))"

definition media_type :: "string \<Rightarrow> string" where
  "media_type header = map to_lower (trim (takeWhile (\<lambda>c. c \<noteq> CHR '';'') header))"

definition fetchCandidate ::
    "(string \<Rightarrow> timestamp option) \<Rightarrow> (string \<Rightarrow> string option) \<Rightarrow> (string \<Rightarrow> json option) \<Rightarrow> string \<Rightarrow> response option \<Rightarrow> fetch_error + candidate" where
  "fetchCandidate other decode parse_json manifestUrl answer =
     (if manifestUrl \<noteq> DEFAULT_MANIFEST_URL then Inl (Contract_error ''unexpected manifest URL'')
      else case answer of
        None \<Rightarrow> Inl (Other_error ''update check timed out'')
      | Some response \<Rightarrow>
          if rs_status response \<noteq> 200 then Inl (Other_error (''manifest returned HTTP '' @ show_int (rs_status response)))
          else if map_option media_type (rs_contentType response) \<noteq> Some ''application/json'' then Inl (Contract_error ''manifest is not JSON'')
          else (case readBoundedBody decode response of
                  Inl e \<Rightarrow> Inl e
                | Inr source \<Rightarrow> (case parse_json source of
                      None \<Rightarrow> Inl (Contract_error ''manifest is not valid bounded JSON'')
                    | Some decoded \<Rightarrow> (case validateManifest other decoded of Inl e \<Rightarrow> Inl (Contract_error e) | Inr c \<Rightarrow> Inr c))))"

subsection \<open>The entry points\<close>

definition check_decision :: "local_release \<Rightarrow> (fetch_error + candidate) \<Rightarrow> timestamp \<Rightarrow> rat \<Rightarrow> update_state \<Rightarrow> decision option" where
  "check_decision localRelease fetched nowMs random =
     (case fetched of
        Inl (Contract_error _) \<Rightarrow> failed_decision ''invalid-manifest'' nowMs
      | Inl (Other_error _) \<Rightarrow> failed_decision ''check-failed'' nowMs
      | Inr c \<Rightarrow> checked_decision localRelease c nowMs random)"

text \<open>A check once the installed release and the clock have been read: a fresh cache answers, otherwise the outcome of the fetch is
  committed.\<close>

definition check_release ::
    "(string \<Rightarrow> timestamp option) \<Rightarrow> local_release \<Rightarrow> (fetch_error + candidate) \<Rightarrow> timestamp \<Rightarrow> rat \<Rightarrow> update_cache \<Rightarrow> update_cache \<times> update_result" where
  "check_release other localRelease fetched nowMs random cache =
     (case freshStateResult other localRelease (readState cache (Some (lr_version localRelease))) nowMs of
        Some cachedResult \<Rightarrow> (cache, cachedResult)
      | None \<Rightarrow> transaction cache (lr_version localRelease)
          (check_decision localRelease fetched nowMs random))"

text \<open>The release file, \<open>None\<close> when it cannot be read or parsed.\<close>

definition installed_release :: "json option \<Rightarrow> local_release option" where
  "installed_release releaseFile = (case releaseFile of None \<Rightarrow> None | Some v \<Rightarrow> (case validateLocalRelease v of Inl _ \<Rightarrow> None | Inr rel \<Rightarrow> Some rel))"

text \<open>\<open>fetchImpl\<close> is \<open>None\<close> when the runtime has no such function, and otherwise what the request gives; \<open>now\<close> is \<open>None\<close> when the clock
  gives no finite number.\<close>

definition checkForUpdate ::
    "(string \<Rightarrow> timestamp option) \<Rightarrow> (string \<Rightarrow> string option) \<Rightarrow> (string \<Rightarrow> json option) \<Rightarrow> json option \<Rightarrow> response option option \<Rightarrow>
     timestamp option \<Rightarrow> rat \<Rightarrow> update_cache \<Rightarrow> update_cache \<times> update_result" where
  "checkForUpdate other decode parse_json releaseFile fetchImpl now random cache =
     (case fetchImpl of
        None \<Rightarrow> (cache, Silent ''runtime-unavailable'')
      | Some answer \<Rightarrow> (case installed_release releaseFile of
            None \<Rightarrow> (cache, Silent ''invalid-local-release'')
          | Some localRelease \<Rightarrow> (case now of
                None \<Rightarrow> (cache, Silent ''invalid-clock'')
              | Some nowMs \<Rightarrow> check_release other localRelease
                  (fetchCandidate other decode parse_json (lr_updateManifestUrl localRelease) answer) nowMs random cache)))"

text \<open>\<open>deadline\<close> says whether the monotonic clock gives a finite number.\<close>

definition acknowledgeUpdate :: "json option \<Rightarrow> bool \<Rightarrow> string \<Rightarrow> update_cache \<Rightarrow> update_cache \<times> update_result" where
  "acknowledgeUpdate releaseFile deadline eventKey cache =
     (case digestForEventKey eventKey of
        None \<Rightarrow> (cache, Silent ''invalid-acknowledgement'')
      | Some targetDigest \<Rightarrow> (case installed_release releaseFile of
            None \<Rightarrow> (cache, Silent ''invalid-local-release'')
          | Some localRelease \<Rightarrow>
              if \<not> deadline then (cache, Silent ''invalid-acknowledgement'')
              else transaction cache (lr_version localRelease) (acknowledged_decision eventKey targetDigest)))"

end
