(* ===== verification/Update_Cache.thy ===== *)
theory Update_Cache
  imports Update_State
begin

text \<open>
  The guarantees of the update check of archify over its cache: the bounded encoding leaves room for every acknowledgement and for every failed
  check, a committed state is read back, and what follows for the user and for the network.
\<close>

subsection \<open>The size of an encoded state\<close>

lemma utf8_append [simp]: "utf8_length (s @ t) = utf8_length s + utf8_length t"
  by (simp add: utf8_length_def)

lemma utf8_Nil [simp]: "utf8_length [] = 0"
  by (simp add: utf8_length_def)

lemma utf8_Cons [simp]: "utf8_length (c # s) = (if (of_char c :: nat) < 128 then 1 else 2) + utf8_length s"
  by (simp add: utf8_length_def)

lemma utf8_nonneg [simp]: "0 \<le> utf8_length s"
  by (induction s) simp_all

text \<open>Characters that JSON does not escape and UTF-8 stores in one byte.\<close>

definition plain_char :: "char \<Rightarrow> bool" where
  "plain_char c \<longleftrightarrow> 32 \<le> (of_char c :: nat) \<and> (of_char c :: nat) < 128 \<and> c \<noteq> CHR 0x22 \<and> c \<noteq> CHR 0x5C"

lemma escape_plain: "plain_char c \<Longrightarrow> escape_char c = [c]"
proof -
  assume p: "plain_char c"
  have "c \<noteq> CHR 0x08" "c \<noteq> CHR 0x09" "c \<noteq> CHR 0x0A" "c \<noteq> CHR 0x0C" "c \<noteq> CHR 0x0D" using p by (auto simp: plain_char_def)
  with p show ?thesis by (simp add: escape_char_def plain_char_def)
qed

lemma utf8_quote_plain: "list_all plain_char s \<Longrightarrow> utf8_length (json_quote s) = int (length s) + 2"
proof -
  assume "list_all plain_char s"
  then have "utf8_length (concat (map escape_char s)) = int (length s)"
    by (induction s) (auto simp: escape_plain plain_char_def)
  then show ?thesis by (simp add: json_quote_def)
qed

lemma decimal_plain: "is_decimal c \<Longrightarrow> plain_char c"
  by (auto simp: is_decimal_def plain_char_def)

lemma hex_plain: "is_hex c \<Longrightarrow> plain_char c"
  by (auto simp: is_hex_def is_decimal_def plain_char_def)

lemma digest_plain: "DIGEST_PATTERN d \<Longrightarrow> list_all plain_char d \<and> length d = 71"
proof -
  assume d: "DIGEST_PATTERN d"
  have "list_all plain_char (take 7 d)" using d by (simp add: DIGEST_PATTERN_def plain_char_def)
  moreover have hex: "list_all plain_char (drop 7 d)" "length (drop 7 d) = 64"
    using d hex_plain by (auto simp: DIGEST_PATTERN_def HEX_64_def list_all_iff)
  ultimately have "list_all plain_char (take 7 d @ drop 7 d)" by (simp only: list_all_append)
  then show ?thesis using hex(2) by simp
qed

text \<open>A list of \<open>n\<close> digests in JSON.\<close>

definition digests_size :: "nat \<Rightarrow> int" where
  "digests_size n = (if n = 0 then 2 else 74 * int n + 1)"

lemma digests_size: "list_all DIGEST_PATTERN ds \<Longrightarrow> utf8_length (stringify (JArr (map JStr ds))) = digests_size (length ds)"
proof (cases ds)
  case (Cons d ds')
  assume "list_all DIGEST_PATTERN ds"
  then have "list_all DIGEST_PATTERN ds \<and> ds \<noteq> []" using Cons by simp
  then have "utf8_length (join '','' (map (\<lambda>d. json_quote d) ds)) = 74 * int (length ds) - 1"
    by (induction ds) (auto simp: join_Cons utf8_quote_plain digest_plain)
  then show ?thesis using Cons by (simp add: digests_size_def comp_def)
qed (simp add: digests_size_def)

text \<open>The size of everything but the two lists of digests.\<close>

definition candidate_size :: "candidate option \<Rightarrow> int" where
  "candidate_size x = (case x of None \<Rightarrow> 0 | Some c \<Rightarrow> utf8_length ('','' @ json_quote ''candidate'' @ '':'') + utf8_length (stringify (candidate_json c)))"

definition base_size :: "update_state \<Rightarrow> int" where
  "base_size st = utf8_length (stringify (state_json (st\<lparr>us_offered := [], us_acknowledged := [], us_candidate := None\<rparr>))) - 3 +
     candidate_size (us_candidate st)"

lemma state_size:
  assumes "list_all DIGEST_PATTERN (us_offered st)" "list_all DIGEST_PATTERN (us_acknowledged st)"
  shows "utf8_length (stringify (state_json st) @ [CHR 0x0A]) =
    base_size st + digests_size (length (us_offered st)) + digests_size (length (us_acknowledged st))"
proof -
  note lists = digests_size [OF assms(1)] digests_size [OF assms(2)]
  show ?thesis
    using lists by (cases "us_candidate st")
      (simp_all add: base_size_def candidate_size_def state_json_def notification_json_def render_entry_def)
qed

subsection \<open>Room for acknowledgements and failures\<close>

definition failure_size :: "update_state \<Rightarrow> int" where
  "failure_size st = base_size (stateWithFailureCheck st LONGEST_ISO_TIMESTAMP 2 False)"

definition digests_ok :: "update_state \<Rightarrow> bool" where
  "digests_ok st \<longleftrightarrow> list_all DIGEST_PATTERN (us_offered st) \<and> list_all DIGEST_PATTERN (us_acknowledged st) \<and>
     distinct (us_offered st) \<and> distinct (us_acknowledged st) \<and> set (us_offered st) \<inter> set (us_acknowledged st) = {}"

definition fits_with :: "update_state \<Rightarrow> nat \<Rightarrow> nat \<Rightarrow> bool" where
  "fits_with st n k \<longleftrightarrow> max (base_size st) (failure_size st) + digests_size n + digests_size k \<le> MAX_CACHE_STATE_BYTES"

lemma failure_lists [simp]:
  "us_offered (stateWithFailureCheck st x f b) = us_offered st" "us_acknowledged (stateWithFailureCheck st x f b) = us_acknowledged st"
  "us_installedVersion (stateWithFailureCheck st x f b) = us_installedVersion st"
  by (simp_all add: stateWithFailureCheck_def)

lemma encodes_iff:
  assumes "digests_ok st"
  shows "encodeBoundedState st \<noteq> None \<and> encodeBoundedState (stateWithFailureCheck st LONGEST_ISO_TIMESTAMP 2 False) \<noteq> None \<longleftrightarrow>
    fits_with st (length (us_offered st)) (length (us_acknowledged st))"
proof -
  let ?f = "stateWithFailureCheck st LONGEST_ISO_TIMESTAMP 2 False"
  have d: "list_all DIGEST_PATTERN (us_offered st)" "list_all DIGEST_PATTERN (us_acknowledged st)"
    using assms by (simp_all add: digests_ok_def)
  have "encodeBoundedState x \<noteq> None \<longleftrightarrow> utf8_length (stringify (state_json x) @ [CHR 0x0A]) \<le> MAX_CACHE_STATE_BYTES" for x
    by (simp add: encodeBoundedState_def)
  then show ?thesis using state_size [OF d] state_size [of ?f] d
    by (auto simp: fits_with_def failure_size_def simp del: utf8_append)
qed

lemma acknowledged_sel [simp]:
  "us_installedVersion (stateAfterAcknowledgement st d) = us_installedVersion st" "us_candidate (stateAfterAcknowledgement st d) = us_candidate st"
  "us_nextCheckAt (stateAfterAcknowledgement st d) = us_nextCheckAt st" "us_failures (stateAfterAcknowledgement st d) = us_failures st"
  by (simp_all add: stateAfterAcknowledgement_def)

lemma fits_with_acknowledged [simp]: "fits_with (stateAfterAcknowledgement st d) n k = fits_with st n k"
  by (simp add: fits_with_def failure_size_def base_size_def stateAfterAcknowledgement_def stateWithFailureCheck_def)

lemma acknowledge_offered:
  assumes "digests_ok st" "d \<in> set (us_offered st)"
  shows "digests_ok (stateAfterAcknowledgement st d)" "length (us_offered (stateAfterAcknowledgement st d)) = length (us_offered st) - 1"
    "length (us_acknowledged (stateAfterAcknowledgement st d)) = length (us_acknowledged st) + 1"
proof -
  have off: "filter (\<lambda>x. x \<noteq> d) (us_offered st) = remove1 d (us_offered st)"
    using assms by (simp add: digests_ok_def distinct_remove1_removeAll removeAll_filter_not_eq neq_commute cong: filter_cong)
  have ack: "d \<notin> set (us_acknowledged st)" "DIGEST_PATTERN d" using assms by (auto simp: digests_ok_def list_all_iff)
  show "digests_ok (stateAfterAcknowledgement st d)"
    using assms ack by (auto simp: digests_ok_def stateAfterAcknowledgement_def list_all_iff)
  show "length (us_offered (stateAfterAcknowledgement st d)) = length (us_offered st) - 1"
    using assms(2) by (simp add: stateAfterAcknowledgement_def off length_remove1)
  show "length (us_acknowledged (stateAfterAcknowledgement st d)) = length (us_acknowledged st) + 1"
    using ack by (simp add: stateAfterAcknowledgement_def)
qed

lemma acknowledgements_fit_iff:
  assumes "digests_ok st" "distinct ds" "set ds \<subseteq> set (us_offered st)"
  shows "acknowledgements_fit st ds \<longleftrightarrow>
    (\<forall>i < length ds. fits_with st (length (us_offered st) - Suc i) (length (us_acknowledged st) + Suc i))"
  using assms
proof (induction ds arbitrary: st)
  case (Cons d ds)
  let ?st = "stateAfterAcknowledgement st d"
  have d: "d \<in> set (us_offered st)" using Cons.prems by simp
  note a = acknowledge_offered [OF Cons.prems(1) d]
  have "set ds \<subseteq> set (us_offered ?st)" using Cons.prems by (auto simp: stateAfterAcknowledgement_def)
  with Cons.IH [OF a(1)] Cons.prems(2) encodes_iff [OF a(1)]
  have "acknowledgements_fit st (d # ds) \<longleftrightarrow> fits_with st (length (us_offered st) - 1) (length (us_acknowledged st) + 1) \<and>
    (\<forall>i < length ds. fits_with st (length (us_offered st) - 1 - Suc i) (length (us_acknowledged st) + 1 + Suc i))"
    by (simp add: Let_def a(2,3)) blast
  then show ?case by (simp add: All_less_Suc2)
qed simp

text \<open>A state can be committed exactly when it fits with any number of its offers acknowledged, also after a failed check.\<close>

lemma recoverable_iff:
  assumes "digests_ok st"
  shows "encodeRecoverableState st \<noteq> None \<longleftrightarrow>
    (\<forall>i \<le> length (us_offered st). fits_with st (length (us_offered st) - i) (length (us_acknowledged st) + i))"
proof -
  have "distinct (us_offered st)" using assms by (simp add: digests_ok_def)
  note fit = acknowledgements_fit_iff [OF assms this subset_refl]
  have "encodeRecoverableState st \<noteq> None \<longleftrightarrow>
    (encodeBoundedState st \<noteq> None \<and> encodeBoundedState (stateWithFailureCheck st LONGEST_ISO_TIMESTAMP 2 False) \<noteq> None) \<and> acknowledgements_fit st (us_offered st)"
    by (auto simp: encodeRecoverableState_def split: option.splits)
  also have "\<dots> \<longleftrightarrow> (\<forall>i < Suc (length (us_offered st)). fits_with st (length (us_offered st) - i) (length (us_acknowledged st) + i))"
    unfolding encodes_iff [OF assms] fit All_less_Suc2 by simp
  finally show ?thesis by (simp add: less_Suc_eq_le)
qed

lemma recoverable_acknowledged:
  assumes "digests_ok st" "encodeRecoverableState st \<noteq> None" "d \<in> set (us_offered st)"
  shows "encodeRecoverableState (stateAfterAcknowledgement st d) \<noteq> None"
proof -
  note a = acknowledge_offered [OF assms(1,3)]
  have n: "0 < length (us_offered st)" using assms(3) by (auto simp: length_pos_if_in_set)
  have "fits_with st (length (us_offered st) - 1 - i) (length (us_acknowledged st) + 1 + i)" if "i \<le> length (us_offered st) - 1" for i
    using assms(2) [unfolded recoverable_iff [OF assms(1)], rule_format, of "Suc i"] that n by (simp add: Suc_leI)
  then show ?thesis unfolding recoverable_iff [OF a(1)] a(2,3) by simp
qed

lemma iso_plain: "list_all plain_char (toISOString t)"
proof -
  have "list_all plain_char (padded n k)" for n k using padded_decimal [of n k] decimal_plain by (auto simp: list_all_iff)
  moreover have "plain_char (CHR ''-'')" "plain_char (CHR ''+'')" "plain_char (CHR ''T'')" "plain_char (CHR '':'')" "plain_char (CHR ''.'')" "plain_char (CHR ''Z'')"
    by (simp_all add: plain_char_def)
  ultimately show ?thesis by (simp add: toISOString_def iso_year_def iso_rest_def clock_text_def Let_def split: prod.split)
qed

lemma show_count: "f \<in> {0, 1, 2} \<Longrightarrow> utf8_length (show_num (of_int f)) = 1"
proof -
  have "show_num 0 = ''0''" "show_num 1 = ''1''" "show_num 2 = ''2''" by code_simp+
  moreover assume "f \<in> {0, 1, 2}"
  ultimately show ?thesis by auto
qed

lemma failure_base:
  assumes "list_all plain_char x" "length x \<le> 27" "f \<in> {0, 1, 2}"
  shows "base_size (stateWithFailureCheck st x f b) \<le> failure_size st" "failure_size (stateWithFailureCheck st x f b) \<le> failure_size st"
proof -
  have longest: "list_all plain_char LONGEST_ISO_TIMESTAMP" "length LONGEST_ISO_TIMESTAMP = 27"
    by (simp_all add: LONGEST_ISO_TIMESTAMP_def plain_char_def)
  have c: "0 \<le> candidate_size y" for y by (cases y) (simp_all add: candidate_size_def)
  have "candidate_size (if b then None else us_candidate st) \<le> candidate_size (us_candidate st)"
    using c [of "us_candidate st"] by (simp add: candidate_size_def)
  moreover have "utf8_length (json_quote x) \<le> utf8_length (json_quote LONGEST_ISO_TIMESTAMP)"
    using assms(2) by (simp only: utf8_quote_plain [OF assms(1)] utf8_quote_plain [OF longest(1)] longest(2))
  moreover have "utf8_length (show_num (of_int f)) = utf8_length (show_num 2)" using show_count [OF assms(3)] show_count [of 2] by simp
  ultimately show "base_size (stateWithFailureCheck st x f b) \<le> failure_size st" "failure_size (stateWithFailureCheck st x f b) \<le> failure_size st"
    by (cases b; simp add: failure_size_def base_size_def stateWithFailureCheck_def state_json_def check_json_def json_or_null_def render_entry_def)+
qed

lemma recoverable_failure:
  assumes "digests_ok st" "encodeRecoverableState st \<noteq> None" "list_all plain_char x" "length x \<le> 27" "f \<in> {0, 1, 2}"
  shows "encodeRecoverableState (stateWithFailureCheck st x f b) \<noteq> None"
proof -
  let ?st = "stateWithFailureCheck st x f b"
  have ok: "digests_ok ?st" using assms(1) by (simp add: digests_ok_def)
  have "fits_with st n k \<Longrightarrow> fits_with ?st n k" for n k
    using failure_base [OF assms(3-5), of st b] by (simp add: fits_with_def)
  with assms(2) show ?thesis unfolding recoverable_iff [OF assms(1)] recoverable_iff [OF ok] by simp
qed

subsection \<open>Well-formed states\<close>

definition candidate_ok :: "candidate \<Rightarrow> bool" where
  "candidate_ok c \<longleftrightarrow> isStableCoreVersion (JStr (cd_version c)) \<and> (\<exists>d. cd_targetDigest c = JStr d \<and> DIGEST_PATTERN d) \<and>
     cd_severity c \<in> {''normal'', ''security''} \<and> cd_releaseNotes c = release_notes_url (cd_version c)"

definition state_ok :: "string \<Rightarrow> update_state \<Rightarrow> bool" where
  "state_ok v st \<longleftrightarrow> us_installedVersion st = Some v \<and> us_failures st \<in> {0, 1, 2} \<and> digests_ok st \<and>
     (\<forall>c. us_candidate st = Some c \<longrightarrow> candidate_ok c) \<and> candidate_accounted st \<and> encodeRecoverableState st \<noteq> None"

lemma unique_distinct: "distinct xs \<Longrightarrow> unique xs = xs"
  by (simp add: unique_def distinct_remdups_id)

lemma digest_list_read: "list_all DIGEST_PATTERN ds \<Longrightarrow> distinct ds \<Longrightarrow> digest_list (Some (JArr (map JStr ds))) = Some ds"
  by (simp add: digest_list_def list_all_iff text_of_def unique_distinct comp_def)

lemma candidate_read: "candidate_ok c \<Longrightarrow> validateCachedCandidate (Some (candidate_json c)) = Some c"
  by (auto simp: candidate_ok_def validateCachedCandidate_def candidate_json_def isPlainObject_def hasOnlyKeys_def object_keys_def field_def
      text_of_def validateReleaseNotesUrl_def is_text_def js_string_opt_def Let_def)

lemma state_fields:
  "field (state_json st) ''schemaVersion'' = Some (JNum 1)" "field (state_json st) ''skillId'' = Some (JStr SKILL_ID)"
  "field (state_json st) ''installedVersion'' = Some (json_or_null (us_installedVersion st))"
  "field (state_json st) ''check'' = Some (check_json (us_nextCheckAt st) (us_failures st))"
  "field (state_json st) ''notification'' = Some (notification_json (us_offered st) (us_acknowledged st))"
  "field (state_json st) ''candidate'' = map_option candidate_json (us_candidate st)" "isPlainObject (state_json st)"
  by (auto simp: state_json_def field_def isPlainObject_def split: option.split)

lemma nested_fields:
  "field (check_json x f) ''nextCheckAt'' = Some (json_or_null x)" "field (check_json x f) ''consecutiveFailures'' = Some (JNum (of_int f))"
  "field (notification_json a b) ''offeredDigests'' = Some (JArr (map JStr a))"
  "field (notification_json a b) ''acknowledgedDigests'' = Some (JArr (map JStr b))"
  "isPlainObject (check_json x f)" "isPlainObject (notification_json a b)"
  by (simp_all add: check_json_def notification_json_def field_def isPlainObject_def)

lemma text_or_null_json: "text_or_null (Some (json_or_null x)) = Some x"
  by (simp add: text_or_null_def json_or_null_def split: option.split)

lemma safe_integer_small: "f \<in> {0, 1, 2} \<Longrightarrow> safe_integer (Some (JNum (of_int f))) = Some f"
  by (auto simp: safe_integer_def)

lemma state_json_inj: "state_json a = state_json b \<Longrightarrow> a = b"
proof -
  assume eq: "state_json a = state_json b"
  have same: "field (state_json a) k = field (state_json b) k" for k by (simp only: eq)
  have "us_installedVersion a = us_installedVersion b" using same [of "''installedVersion''"]
    by (auto simp: state_fields json_or_null_def split: option.splits)
  moreover have "us_nextCheckAt a = us_nextCheckAt b" "us_failures a = us_failures b" using same [of "''check''"]
    by (auto simp: state_fields check_json_def json_or_null_def split: option.splits)
  moreover have "us_offered a = us_offered b" "us_acknowledged a = us_acknowledged b" using same [of "''notification''"]
    by (simp_all add: state_fields notification_json_def inj_map_eq_map inj_def)
  moreover have "us_candidate a = us_candidate b" using same [of "''candidate''"]
    by (cases "us_candidate a"; cases "us_candidate b") (auto simp: state_fields candidate_json_def)
  ultimately show ?thesis by simp
qed

lemma state_reads_back:
  assumes "state_ok v st" "version_ok (Some v)"
  shows "normalizeState (state_json st) (Some v) = Some st"
proof -
  have st: "us_installedVersion st = Some v" "us_failures st \<in> {0, 1, 2}" "digests_ok st" "candidate_accounted st" "encodeRecoverableState st \<noteq> None"
    "\<And>c. us_candidate st = Some c \<Longrightarrow> candidate_ok c" using assms(1) by (simp_all add: state_ok_def)
  note nested = nested_def state_fields nested_fields
  have header: "state_header (state_json st) (Some v)"
    unfolding state_header_def nested Option.bind.simps text_or_null_json safe_integer_small [OF st(2)]
    using st(1,2) by (auto simp: is_text_def json_or_null_def text_or_null_def nested_fields state_fields)
  have lists: "digest_list (nested (state_json st) ''notification'' ''offeredDigests'') = Some (us_offered st)"
    "digest_list (nested (state_json st) ''notification'' ''acknowledgedDigests'') = Some (us_acknowledged st)"
    unfolding nested Option.bind.simps using st(3) by (simp_all add: digests_ok_def digest_list_read)
  have candidate: "validateCachedCandidate (field (state_json st) ''candidate'') = us_candidate st"
    unfolding nested using st(6) by (cases "us_candidate st") (simp_all add: candidate_read, simp add: validateCachedCandidate_def)
  have check: "text_or_null (nested (state_json st) ''check'' ''nextCheckAt'') = Some (us_nextCheckAt st)"
    "safe_integer (nested (state_json st) ''check'' ''consecutiveFailures'') = Some (us_failures st)"
    unfolding nested Option.bind.simps text_or_null_json using safe_integer_small [OF st(2)] by simp_all
  have rebuilt: "\<lparr>us_installedVersion = Some v, us_nextCheckAt = us_nextCheckAt st, us_failures = us_failures st, us_offered = us_offered st,
      us_acknowledged = us_acknowledged st, us_candidate = us_candidate st\<rparr> = st" using st(1) by simp
  show ?thesis
    unfolding normalizeState_def lists candidate check option.case Let_def option.sel unfolding rebuilt unfolding state_fields
    using header assms(2) st(4,5) by (cases "us_candidate st") simp_all
qed

subsection \<open>Decisions keep states well-formed\<close>

lemma version_plain:
  assumes "version_ok (Some v)"
  shows "list_all plain_char v" "length v \<le> 128"
proof -
  obtain x where x: "wf_semver x" "show_semver x = v" "length v \<le> 128"
    using assms parseSemver_iff [of v] by (auto simp: version_ok_def split: sum.splits)
  have seps: "plain_char (CHR ''.'')" "plain_char (CHR ''-'')" "plain_char (CHR ''+'')" by (simp_all add: plain_char_def)
  have ids: "list_all plain_char (join ''.'' ds)" if "\<And>d. d \<in> set ds \<Longrightarrow> list_all plain_char d" for ds
    using that seps set_join [of "CHR ''.''" ds] by (fastforce simp: list_all_iff)
  have "identifier_char c \<Longrightarrow> plain_char c" for c by (auto simp: identifier_char_def is_decimal_def plain_char_def Let_def)
  then have d: "identifier_text d \<Longrightarrow> list_all plain_char d" "numeric_identifier d \<Longrightarrow> list_all plain_char d" for d
    using decimal_plain by (auto simp: identifier_text_def numeric_identifier_def all_digits_def list_all_iff)
  have "list_all plain_char (show_semver x)"
    using x(1) seps d by (auto simp: show_semver_def wf_semver_def identifiers_ok_def list_all_iff [of identifier_text]
        list_all_iff [of numeric_identifier] intro!: ids split: option.splits)
  with x show "list_all plain_char v" "length v \<le> 128" by simp_all
qed

lemma empty_state_ok:
  assumes "version_ok (Some v)"
  shows "state_ok v (emptyState (Some v))"
proof -
  have q: "utf8_length (json_quote v) \<le> 130" using version_plain [OF assms] by (simp add: utf8_quote_plain)
  have literal: "list_all plain_char (c # s) \<longleftrightarrow> plain_char c \<and> list_all plain_char s" "plain_char c \<longleftrightarrow> 32 \<le> (of_char c :: nat) \<and> (of_char c :: nat) < 128 \<and> c \<noteq> CHR 0x22 \<and> c \<noteq> CHR 0x5C"
    for c s by (simp_all add: plain_char_def)
  have n: "utf8_length (show_num 0) = 1" "utf8_length (show_num 1) = 1" "utf8_length (show_num 2) = 1"
    using show_count [of 0] show_count [of 1] show_count [of 2] by simp_all
  have "base_size (emptyState (Some v)) \<le> 1000" "failure_size (emptyState (Some v)) \<le> 1000"
    using q n by (simp_all add: base_size_def failure_size_def candidate_size_def emptyState_def stateWithFailureCheck_def state_json_def check_json_def
        notification_json_def json_or_null_def render_entry_def SKILL_ID_def LONGEST_ISO_TIMESTAMP_def utf8_quote_plain literal)
  then have "fits_with (emptyState (Some v)) 0 0" by (simp add: fits_with_def digests_size_def MAX_CACHE_STATE_BYTES_def)
  moreover have "digests_ok (emptyState (Some v))" by (simp add: digests_ok_def emptyState_def)
  ultimately show ?thesis
    using recoverable_iff [of "emptyState (Some v)"] by (simp add: state_ok_def candidate_accounted_def) (simp add: emptyState_def)
qed

lemma state_ok_acknowledged:
  assumes "state_ok v st" "d \<in> set (us_offered st) \<or> d \<in> set (us_acknowledged st)"
  shows "state_ok v (stateAfterAcknowledgement st d) \<and> d \<in> set (us_acknowledged (stateAfterAcknowledgement st d))"
proof (cases "d \<in> set (us_offered st)")
  case True
  have st: "digests_ok st" "encodeRecoverableState st \<noteq> None" using assms(1) by (simp_all add: state_ok_def)
  have "digest_in x (us_offered st) \<or> digest_in x (us_acknowledged st) \<Longrightarrow>
      digest_in x (us_offered (stateAfterAcknowledgement st d)) \<or> digest_in x (us_acknowledged (stateAfterAcknowledgement st d))" for x
    by (auto simp: digest_in_def stateAfterAcknowledgement_def split: json.splits)
  then have "candidate_accounted (stateAfterAcknowledgement st d)"
    using assms(1) by (auto simp: state_ok_def candidate_accounted_def split: option.splits)
  with assms(1) acknowledge_offered [OF st(1) True] recoverable_acknowledged [OF st True] show ?thesis
    by (simp add: state_ok_def) (simp add: stateAfterAcknowledgement_def)
next
  case False
  then have "filter (\<lambda>x. x \<noteq> d) (us_offered st) = us_offered st" by (auto simp: filter_id_conv)
  with False assms show ?thesis by (simp add: stateAfterAcknowledgement_def)
qed

lemma state_ok_failed:
  assumes "state_ok v st" "stateAfterFailedCheck st now b = Some st'"
  shows "state_ok v st' \<and> us_acknowledged st' = us_acknowledged st \<and>
    (\<exists>t. us_nextCheckAt st' = Some (toISOString t) \<and> time_value t \<and> now + FIRST_FAILURE_DELAY_MS \<le> t \<and> t \<le> now + LATER_FAILURE_DELAY_MS)"
proof -
  define f where "f = min (us_failures st + 1) 2"
  have f: "f \<in> {0, 1, 2}" using assms(1) by (auto simp: f_def state_ok_def)
  obtain t where t: "time_value t" "st' = stateWithFailureCheck st (toISOString t) f b" "now + FIRST_FAILURE_DELAY_MS \<le> t" "t \<le> now + LATER_FAILURE_DELAY_MS"
    using assms(2) by (auto simp: stateAfterFailedCheck_def nextFailedCheck_def date_iso_def f_def FIRST_FAILURE_DELAY_MS_def LATER_FAILURE_DELAY_MS_def Let_def split: if_splits)
  have st: "digests_ok st" "encodeRecoverableState st \<noteq> None" using assms(1) by (simp_all add: state_ok_def)
  from recoverable_failure [OF st iso_plain length_toISOString [OF t(1)] f, of b] assms(1) f t show ?thesis
    by (auto simp: state_ok_def digests_ok_def candidate_accounted_def t(2)) (auto simp: stateWithFailureCheck_def split: if_splits option.splits)
qed

lemma check_interval:
  fixes random :: rat
  defines "y \<equiv> of_int CHECK_TTL_MS * (8 / 10 + min 1 (max 0 random) * (4 / 10))"
  shows "FIRST_FAILURE_DELAY_MS \<le> js_round y" "js_round y \<le> MAX_CACHE_HORIZON_MS"
proof -
  define r where "r = min 1 (max 0 random)"
  have r: "0 \<le> r" "r \<le> 1" by (simp_all add: r_def)
  then have y: "207360000 \<le> y" "y \<le> 311040000" by (simp_all add: y_def r_def [symmetric] CHECK_TTL_MS_def)
  have "\<lfloor>(207360000 :: rat) + 1 / 2\<rfloor> \<le> js_round y" "js_round y \<le> \<lfloor>(311040000 :: rat) + 1 / 2\<rfloor>"
    unfolding js_round_def by (rule floor_mono, use y in simp)+
  moreover have "\<lfloor>(207360000 :: rat) + 1 / 2\<rfloor> = 207360000" "\<lfloor>(311040000 :: rat) + 1 / 2\<rfloor> = 311040000" by (rule floor_unique; simp)+
  moreover have "MAX_CACHE_HORIZON_MS = 311040000" by (simp add: MAX_CACHE_HORIZON_MS_def CHECK_TTL_MS_def)
  ultimately show "FIRST_FAILURE_DELAY_MS \<le> js_round y" "js_round y \<le> MAX_CACHE_HORIZON_MS" by (simp_all add: FIRST_FAILURE_DELAY_MS_def)
qed

lemma next_check_time:
  assumes "nextSuccessfulCheck now random = Some x"
  shows "\<exists>t. x = toISOString t \<and> time_value t \<and> now + FIRST_FAILURE_DELAY_MS \<le> t \<and> t \<le> now + MAX_CACHE_HORIZON_MS"
  using assms check_interval [of random] by (fastforce simp: nextSuccessfulCheck_def date_iso_def Let_def split: if_splits)

lemma next_check_defined:
  assumes "0 \<le> now" "time_value (now + MAX_CACHE_HORIZON_MS)"
  shows "\<exists>x. nextSuccessfulCheck now random = Some x"
  using assms check_interval [of random] by (simp add: nextSuccessfulCheck_def date_iso_def time_value_def FIRST_FAILURE_DELAY_MS_def Let_def)

lemma state_ok_checked:
  assumes "state_ok v st" "candidate_ok c" "checked_decision rel c now random st = Some d" "lr_version rel = v"
  shows "(\<forall>st'. de_state d = Some st' \<and> encodeRecoverableState st' \<noteq> None \<longrightarrow> state_ok v st') \<and>
    (\<exists>next fb. de_state d = Some next \<and> de_fallback d = Some (fb, Silent ''cache-unavailable'') \<and> stateAfterFailedCheck st now True = Some fb \<and>
      us_acknowledged next = us_acknowledged st \<and> de_result d = resultForCandidate rel next \<and>
      (is_available (de_result d) \<longrightarrow> digest_in (cd_targetDigest c) (us_offered next)) \<and> us_candidate next = Some c \<and>
      (\<exists>t. us_nextCheckAt next = Some (toISOString t) \<and> time_value t \<and> now + FIRST_FAILURE_DELAY_MS \<le> t \<and> t \<le> now + MAX_CACHE_HORIZON_MS))"
proof -
  obtain x where x: "cd_targetDigest c = JStr x" "DIGEST_PATTERN x" using assms(2) by (auto simp: candidate_ok_def)
  obtain at1 where at1: "nextSuccessfulCheck now random = Some at1"
    using assms(3) by (auto simp: checked_decision_def split: option.splits)
  define n0 where "n0 = st\<lparr>us_candidate := Some c, us_nextCheckAt := Some at1, us_failures := 0\<rparr>"
  define n1 where "n1 = (if is_available (resultForCandidate rel n0) \<and> x \<notin> set (us_offered st) then n0\<lparr>us_offered := us_offered st @ [x]\<rparr> else n0)"
  obtain fb where d: "d = \<lparr>de_state = Some n1, de_result = resultForCandidate rel n0, de_fallback = Some (fb, Silent ''cache-unavailable'')\<rparr>"
    and fb: "stateAfterFailedCheck st now True = Some fb"
    using assms(3) by (auto simp: checked_decision_def at1 n0_def n1_def x(1) digest_in_def Let_def)
  have avail: "is_available (resultForCandidate rel n0) \<longleftrightarrow> newer (cd_version c) v \<and> x \<notin> set (us_acknowledged st)"
    using assms(4) by (auto simp: resultForCandidate_def n0_def x(1) digest_in_def notification_def is_available_def Let_def)
  have same: "resultForCandidate rel n1 = resultForCandidate rel n0" by (simp add: resultForCandidate_def n1_def n0_def)
  have sel: "us_candidate n1 = Some c" "us_acknowledged n1 = us_acknowledged st" "us_nextCheckAt n1 = Some at1"
    "is_available (resultForCandidate rel n0) \<Longrightarrow> x \<in> set (us_offered n1)" by (simp_all add: n1_def n0_def)
  have "digests_ok n1" using assms(1) x(2) avail by (auto simp: state_ok_def digests_ok_def n1_def n0_def)
  moreover have "candidate_accounted n1"
    using assms(1) avail by (auto simp: candidate_accounted_def n1_def n0_def x(1) digest_in_def state_ok_def)
  ultimately have "encodeRecoverableState n1 \<noteq> None \<Longrightarrow> state_ok v n1"
    using assms(1,2) by (auto simp: state_ok_def n1_def n0_def)
  with fb sel next_check_time [OF at1] show ?thesis unfolding d
    by (simp add: same x(1) digest_in_def)
qed

subsection \<open>The cache directory\<close>

definition cache_ok :: "string \<Rightarrow> update_cache \<Rightarrow> bool" where
  "cache_ok v cache \<longleftrightarrow> set (uc_occupied cache) = {1..length (uc_occupied cache)} \<and>
     sorted_wrt (\<lambda>a b. fst b < fst a) (uc_committed cache) \<and>
     (\<forall>x \<in> set (uc_committed cache). fst x \<le> length (uc_occupied cache) \<and> (\<exists>st. state_ok v st \<and> snd x = state_json st))"

lemma first_free_full: "(\<And>k. g \<le> k \<Longrightarrow> k < g + n \<Longrightarrow> k \<in> set occ) \<Longrightarrow> first_free n g occ = g + n"
  by (induction n arbitrary: g) simp_all

lemma reserve_next:
  assumes "cache_ok v cache" "int (length (uc_occupied cache)) < MAX_OPERATION_GENERATION"
  shows "reserve_generation (uc_occupied cache) = Some (Suc (length (uc_occupied cache)))"
proof -
  have "first_free (length (uc_occupied cache)) 1 (uc_occupied cache) = 1 + length (uc_occupied cache)"
    using assms(1) by (intro first_free_full) (auto simp: cache_ok_def)
  with assms(2) show ?thesis by (simp add: reserve_generation_def)
qed

lemma insort_last: "(\<And>y. y \<in> set ys \<Longrightarrow> f y < f x) \<Longrightarrow> insort_key f x ys = ys @ [x]"
proof (induction ys)
  case (Cons y ys)
  then have "f y < f x" by simp
  then have "\<not> f x \<le> f y" by simp
  with Cons show ?case by simp
qed simp

lemma sort_descending: "sorted_wrt (\<lambda>a b. f b < f a) xs \<Longrightarrow> sort_key f xs = rev xs"
proof (induction xs)
  case (Cons x xs)
  then have "insort_key f x (rev xs) = rev xs @ [x]" by (intro insort_last) simp
  with Cons show ?case by simp
qed simp

lemma read_newest:
  assumes "cache_ok v cache" "version_ok (Some v)"
  shows "state_ok v (readState cache (Some v))"
    "uc_committed cache = [] \<Longrightarrow> readState cache (Some v) = emptyState (Some v)"
    "uc_committed cache = (g, j) # rest \<Longrightarrow> j = state_json (readState cache (Some v))"
proof -
  have sorted: "rev (sort_key fst (uc_committed cache)) = uc_committed cache"
    using assms(1) by (simp add: cache_ok_def sort_descending)
  show empty: "uc_committed cache = [] \<Longrightarrow> readState cache (Some v) = emptyState (Some v)"
    by (simp add: readState_def List.map_filter_def)
  have newest: "\<exists>st. state_ok v st \<and> j = state_json st \<and> readState cache (Some v) = st" if c: "uc_committed cache = (g, j) # rest" for g j rest
  proof -
    obtain st where st: "state_ok v st" "j = state_json st" using assms(1) c by (auto simp: cache_ok_def)
    from state_reads_back [OF st(1) assms(2)] have "readState cache (Some v) = st"
      unfolding readState_def sorted unfolding c by (simp add: List.map_filter_def st(2))
    with st show ?thesis by blast
  qed
  then show "uc_committed cache = (g, j) # rest \<Longrightarrow> j = state_json (readState cache (Some v))" by blast
  show "state_ok v (readState cache (Some v))"
    using newest empty empty_state_ok [OF assms(2)] by (cases "uc_committed cache") (auto simp: prod_eq_iff)
qed

text \<open>A transaction leaves the newest state, or commits a new one.\<close>

lemma transaction_cases:
  assumes c: "cache_ok v cache" and v: "version_ok (Some v)"
    and decision: "\<And>d st r. mutate (readState cache (Some v)) = Some d \<Longrightarrow> committed_choice d = (Some st, r) \<Longrightarrow> state_ok v st"
  obtains (kept) cache' r where "transaction cache v mutate = (cache', r)" "cache_ok v cache'" "readState cache' (Some v) = readState cache (Some v)"
      "\<And>d. mutate (readState cache (Some v)) = Some d \<Longrightarrow> int (length (uc_occupied cache)) < MAX_OPERATION_GENERATION \<Longrightarrow> committed_choice d = (None, r)"
      "mutate (readState cache (Some v)) = None \<or> \<not> int (length (uc_occupied cache)) < MAX_OPERATION_GENERATION \<Longrightarrow> r = Silent ''cache-unavailable''"
  | (committed) cache' d st r where "transaction cache v mutate = (cache', r)" "cache_ok v cache'" "readState cache' (Some v) = st"
      "mutate (readState cache (Some v)) = Some d" "committed_choice d = (Some st, r)"
proof (cases "int (length (uc_occupied cache)) < MAX_OPERATION_GENERATION")
  case False
  have "first_free (length (uc_occupied cache)) 1 (uc_occupied cache) = 1 + length (uc_occupied cache)"
    using c by (intro first_free_full) (auto simp: cache_ok_def)
  with False have "transaction cache v mutate = (cache, Silent ''cache-unavailable'')" by (simp add: transaction_def reserve_generation_def)
  with c False show thesis by (intro kept [of cache "Silent ''cache-unavailable''"]) simp_all
next
  case True
  let ?g = "Suc (length (uc_occupied cache))"
  define cancelled where "cancelled = cache\<lparr>uc_occupied := ?g # uc_occupied cache\<rparr>"
  have ok: "cache_ok v cancelled" "readState cancelled (Some v) = readState cache (Some v)"
    using c by (auto simp: cache_ok_def cancelled_def readState_def le_SucI)
  have t: "transaction cache v mutate = commitOperation cache ?g v mutate" by (simp add: transaction_def reserve_next [OF c True])
  show thesis
  proof (cases "mutate (readState cache (Some v))")
    case None
    then have "transaction cache v mutate = (cancelled, Silent ''cache-unavailable'')" by (simp add: t commitOperation_def cancelled_def)
    with ok None show thesis by (intro kept [of cancelled "Silent ''cache-unavailable''"]) simp_all
  next
    case (Some d)
    obtain x r where x: "committed_choice d = (x, r)" by fastforce
    show thesis
    proof (cases x)
      case None
      then have "transaction cache v mutate = (cancelled, r)" by (simp add: t commitOperation_def cancelled_def Some x)
      with ok None Some x True show thesis by (intro kept [of cancelled r]) simp_all
    next
      case (Some st)
      define cache' where "cache' = cancelled\<lparr>uc_committed := (?g, state_json st) # uc_committed cache\<rparr>"
      have "transaction cache v mutate = (cache', r)"
        using \<open>mutate _ = Some d\<close> by (simp add: t commitOperation_def cache'_def cancelled_def Some x)
      moreover have st: "state_ok v st" using decision \<open>mutate _ = Some d\<close> x Some by blast
      then have "cache_ok v cache'" using c by (auto simp: cache_ok_def cache'_def cancelled_def le_SucI less_Suc_eq_le)
      moreover have "readState cache' (Some v) = st"
      proof -
        have "rev (sort_key fst (uc_committed cache')) = uc_committed cache'"
          using \<open>cache_ok v cache'\<close> by (simp add: cache_ok_def sort_descending)
        then show ?thesis unfolding readState_def using state_reads_back [OF st v] by (simp add: cache'_def List.map_filter_def)
      qed
      ultimately show thesis using committed \<open>mutate _ = Some d\<close> x Some by blast
    qed
  qed
qed


subsection \<open>The store behind the entry points\<close>

text \<open>
  What the entry points rely on: a transaction on a good store yields a good store whose state is the one before it or the one that was chosen
  from the callback's decision, and a transaction that keeps the state returns no offer and no acknowledgement of its own.
\<close>

definition is_silent :: "update_result \<Rightarrow> bool" where
  "is_silent r = (case r of Silent _ \<Rightarrow> True | _ \<Rightarrow> False)"

definition decides_good :: "(update_state \<Rightarrow> bool) \<Rightarrow> (update_state \<Rightarrow> decision option) \<Rightarrow> update_state \<Rightarrow> bool" where
  "decides_good good_state mutate st \<longleftrightarrow>
     (\<forall>d st' r. mutate st = Some d \<and> committed_choice d = (Some st', r) \<longrightarrow> good_state st' \<and> set (us_acknowledged st) \<subseteq> set (us_acknowledged st')) \<and>
     (\<forall>d r. mutate st = Some d \<and> committed_choice d = (None, r) \<longrightarrow> is_silent r)"

locale update_store =
  fixes good_state :: "update_state \<Rightarrow> bool" and good :: "'c \<Rightarrow> bool" and room :: "'c \<Rightarrow> bool" and read :: "'c \<Rightarrow> update_state"
    and transact :: "'c \<Rightarrow> (update_state \<Rightarrow> decision option) \<Rightarrow> 'c \<times> update_result"
  assumes read_good: "good c \<Longrightarrow> good_state (read c)"
    and transact_law: "good c \<Longrightarrow> decides_good good_state mutate (read c) \<Longrightarrow> transact c mutate = (c', r) \<Longrightarrow>
      good c' \<and> (read c' = read c \<and> is_silent r \<or> (\<exists>d. mutate (read c) = Some d \<and> committed_choice d = (Some (read c'), r)))"
    and transact_room: "good c \<Longrightarrow> decides_good good_state mutate (read c) \<Longrightarrow> room c \<Longrightarrow> mutate (read c) = Some d \<Longrightarrow> committed_choice d = (Some st, r) \<Longrightarrow>
      \<exists>c'. transact c mutate = (c', r) \<and> read c' = st"
begin

lemma transact_good: "good c \<Longrightarrow> decides_good good_state mutate (read c) \<Longrightarrow> transact c mutate = (c', r) \<Longrightarrow> good c'"
  using transact_law by blast

lemma acknowledged_kept:
  "good c \<Longrightarrow> decides_good good_state mutate (read c) \<Longrightarrow> transact c mutate = (c', r) \<Longrightarrow> set (us_acknowledged (read c)) \<subseteq> set (us_acknowledged (read c'))"
proof -
  assume a: "good c" "decides_good good_state mutate (read c)" "transact c mutate = (c', r)"
  from transact_law [OF a] a(2) show ?thesis unfolding decides_good_def by auto
qed

text \<open>A result that is not silent belongs to the state that is read afterwards.\<close>

lemma result_of_state:
  assumes "good c" "decides_good good_state mutate (read c)" "transact c mutate = (c', r)"
    and "\<And>d st. mutate (read c) = Some d \<Longrightarrow> committed_choice d = (Some st, r) \<Longrightarrow> good_state st \<Longrightarrow> is_silent r \<or> P st r"
  shows "is_silent r \<or> P (read c') r"
  using transact_law [OF assms(1-3)] assms(4) read_good by blast

end

interpretation cache_store: update_store "state_ok v" "\<lambda>cache. version_ok (Some v) \<and> cache_ok v cache"
  "\<lambda>cache. int (length (uc_occupied cache)) < MAX_OPERATION_GENERATION" "\<lambda>cache. readState cache (Some v)" "\<lambda>cache. transaction cache v" for v
proof
  fix cache assume "version_ok (Some v) \<and> cache_ok v cache"
  then show "state_ok v (readState cache (Some v))" by (simp add: read_newest)
next
  fix cache mutate cache' r
  assume good: "version_ok (Some v) \<and> cache_ok v cache" and d: "decides_good (state_ok v) mutate (readState cache (Some v))"
    and t: "transaction cache v mutate = (cache', r)"
  show "(version_ok (Some v) \<and> cache_ok v cache') \<and> (readState cache' (Some v) = readState cache (Some v) \<and> is_silent r \<or>
    (\<exists>d. mutate (readState cache (Some v)) = Some d \<and> committed_choice d = (Some (readState cache' (Some v)), r)))"
  proof (rule transaction_cases [of v cache mutate])
    show "cache_ok v cache" "version_ok (Some v)" using good by simp_all
    show "state_ok v st" if "mutate (readState cache (Some v)) = Some d" "committed_choice d = (Some st, r)" for d st r
      using d that unfolding decides_good_def by blast
  next
    fix cache'' r'
    assume k: "transaction cache v mutate = (cache'', r')" "cache_ok v cache''" "readState cache'' (Some v) = readState cache (Some v)"
      and some: "\<And>d. mutate (readState cache (Some v)) = Some d \<Longrightarrow> int (length (uc_occupied cache)) < MAX_OPERATION_GENERATION \<Longrightarrow> committed_choice d = (None, r')"
      and none: "mutate (readState cache (Some v)) = None \<or> \<not> int (length (uc_occupied cache)) < MAX_OPERATION_GENERATION \<Longrightarrow> r' = Silent ''cache-unavailable''"
    have "is_silent r'" using d some none unfolding decides_good_def 
      by (cases "mutate (readState cache (Some v))"; cases "int (length (uc_occupied cache)) < MAX_OPERATION_GENERATION") (auto simp: is_silent_def)
    with k t good show ?thesis by simp
  next
    fix cache'' d' st r'
    assume "transaction cache v mutate = (cache'', r')" "cache_ok v cache''" "readState cache'' (Some v) = st"
      "mutate (readState cache (Some v)) = Some d'" "committed_choice d' = (Some st, r')"
    with t good show ?thesis by auto
  qed
next
  fix cache mutate d st r
  assume good: "version_ok (Some v) \<and> cache_ok v cache" and good_d: "decides_good (state_ok v) mutate (readState cache (Some v))"
    and room: "int (length (uc_occupied cache)) < MAX_OPERATION_GENERATION"
    and m: "mutate (readState cache (Some v)) = Some d" "committed_choice d = (Some st, r)"
  show "\<exists>cache'. transaction cache v mutate = (cache', r) \<and> readState cache' (Some v) = st"
  proof (rule transaction_cases [of v cache mutate])
    show "cache_ok v cache" "version_ok (Some v)" using good by simp_all
    show "state_ok v st" if "mutate (readState cache (Some v)) = Some d" "committed_choice d = (Some st, r)" for d st r
      using good_d that unfolding decides_good_def by blast
  qed (use m room in auto)
qed

subsection \<open>The decisions on a good store\<close>

lemma choice_some:
  "committed_choice d = (Some st, r) \<Longrightarrow> encodeRecoverableState st \<noteq> None \<and> (de_state d = Some st \<and> r = de_result d \<or> de_fallback d = Some (st, r))"
  by (auto simp: committed_choice_def split: option.splits if_splits)

lemma choice_none: "committed_choice d = (None, r) \<Longrightarrow> de_state d = None \<and> r = de_result d \<or> is_silent r"
  by (auto simp: committed_choice_def is_silent_def split: option.splits if_splits)

lemma failed_good:
  assumes "state_ok v st"
  shows "decides_good (state_ok v) (failed_decision reason now) st"
proof -
  have "state_ok v st' \<and> set (us_acknowledged st) \<subseteq> set (us_acknowledged st')" if "failed_decision reason now st = Some d" "committed_choice d = (Some st', r)" for d st' r
    using choice_some [OF that(2)] that(1) state_ok_failed [OF assms] by (fastforce simp: failed_decision_def)
  moreover have "is_silent r" if "failed_decision reason now st = Some d" "committed_choice d = (None, r)" for d r
    using choice_none [OF that(2)] that(1) by (auto simp: failed_decision_def)
  ultimately show ?thesis unfolding decides_good_def by blast
qed

lemma checked_good:
  assumes "state_ok (lr_version rel) st" "candidate_ok c"
  shows "decides_good (state_ok (lr_version rel)) (checked_decision rel c now random) st"
proof -
  have "state_ok (lr_version rel) st' \<and> set (us_acknowledged st) \<subseteq> set (us_acknowledged st')"
    if d: "checked_decision rel c now random st = Some d" and ch: "committed_choice d = (Some st', r)" for d st' r
  proof -
    from state_ok_checked [OF assms d refl] obtain fb nx where c: "de_state d = Some nx" "de_fallback d = Some (fb, Silent ''cache-unavailable'')"
      "stateAfterFailedCheck st now True = Some fb" "us_acknowledged nx = us_acknowledged st"
      and ok: "encodeRecoverableState nx \<noteq> None \<Longrightarrow> state_ok (lr_version rel) nx" by blast
    from choice_some [OF ch] consider "st' = nx" "encodeRecoverableState nx \<noteq> None" | "st' = fb" using c by auto
    then show ?thesis using ok c(4) state_ok_failed [OF assms(1) c(3)] by cases auto
  qed
  moreover have "is_silent r" if "checked_decision rel c now random st = Some d" "committed_choice d = (None, r)" for d r
    using choice_none [OF that(2)] state_ok_checked [OF assms that(1) refl] by auto
  ultimately show ?thesis unfolding decides_good_def by blast
qed

lemma acknowledged_good:
  assumes "state_ok v st"
  shows "decides_good (state_ok v) (acknowledged_decision key digest) st"
proof -
  have grows: "set (us_acknowledged st) \<subseteq> set (us_acknowledged (stateAfterAcknowledgement st digest))" by (auto simp: stateAfterAcknowledgement_def)
  have "state_ok v st' \<and> set (us_acknowledged st) \<subseteq> set (us_acknowledged st')"
    if "acknowledged_decision key digest st = Some d" "committed_choice d = (Some st', r)" for d st' r
    using choice_some [OF that(2)] that(1) state_ok_acknowledged [OF assms, of digest] grows by (auto simp: acknowledged_decision_def split: if_splits)
  moreover have "is_silent r" if "acknowledged_decision key digest st = Some d" "committed_choice d = (None, r)" for d r
    using choice_none [OF that(2)] that(1) by (auto simp: acknowledged_decision_def is_silent_def split: if_splits)
  ultimately show ?thesis unfolding decides_good_def by blast
qed

lemma local_version: "validateLocalRelease v = Inr rel \<Longrightarrow> version_ok (Some (lr_version rel)) \<and> lr_updateManifestUrl rel = DEFAULT_MANIFEST_URL"
  by (auto simp: validateLocalRelease_def releaseChannelForVersion_def version_ok_def text_of_def parseSemver_def split: if_splits sum.splits option.splits json.splits)

lemma stable_text: "isStableCoreVersion (nullish x JNull) \<Longrightarrow> \<exists>s. x = Some (JStr s)"
  by (cases x) (auto simp: isStableCoreVersion_def parseSemver_def nullish_def split: json.splits)

lemma manifest_candidate: "validateManifest other v = Inr c \<Longrightarrow> candidate_ok c"
proof -
  assume a: "validateManifest other v = Inr c"
  then obtain s where v: "field v ''version'' = Some (JStr s)" "isStableCoreVersion (JStr s)"
    using stable_text [of "field v ''version''"]
    by (auto simp: validateManifest_def validateStableUpdateManifest_def manifest_identity_def split: sum.splits if_splits)
  with a show ?thesis
    by (auto simp: validateManifest_def validateStableUpdateManifest_def manifest_identity_def candidate_ok_def DIGEST_PATTERN_def
        validateReleaseNotesUrl_def text_of_def Let_def split: sum.splits if_splits)
qed

lemma fetched_candidate: "fetchCandidate other decode parse_json url answer = Inr c \<Longrightarrow> candidate_ok c"
  using manifest_candidate by (auto simp: fetchCandidate_def split: if_splits option.splits sum.splits)

subsection \<open>The entry points on a good store\<close>

lemma check_decides:
  assumes "state_ok (lr_version rel) st" "\<And>c. fetched = Inr c \<Longrightarrow> candidate_ok c"
  shows "decides_good (state_ok (lr_version rel)) (check_decision rel fetched now random) st"
  using assms by (auto simp: check_decision_def intro: failed_good checked_good split: sum.split fetch_error.split)

lemma failed_choice:
  assumes "state_ok v st" "failed_decision reason now st = Some d" "committed_choice d = (x, r)"
  shows "is_silent r \<and> (\<exists>st'. x = Some st' \<and> stateAfterFailedCheck st now False = Some st')"
proof -
  obtain st' where st': "stateAfterFailedCheck st now False = Some st'" "d = \<lparr>de_state = Some st', de_result = Silent reason, de_fallback = None\<rparr>"
    using assms(2) by (auto simp: failed_decision_def)
  have "encodeRecoverableState st' \<noteq> None" using state_ok_failed [OF assms(1) st'(1)] by (simp add: state_ok_def)
  with assms(3) st'(2) have "x = Some st'" "r = Silent reason" by (auto simp: committed_choice_def)
  with st'(1) show ?thesis by (simp add: is_silent_def)
qed

lemma checked_choice:
  assumes "state_ok (lr_version rel) st" "candidate_ok c" "checked_decision rel c now random st = Some d" "committed_choice d = (x, r)"
  shows "\<exists>st'. x = Some st' \<and> (is_silent r \<or> r = resultForCandidate rel st') \<and>
    (\<exists>t. us_nextCheckAt st' = Some (toISOString t) \<and> time_value t \<and> now + FIRST_FAILURE_DELAY_MS \<le> t \<and> t \<le> now + MAX_CACHE_HORIZON_MS)"
proof -
  obtain nx fb t where n: "de_state d = Some nx" "de_fallback d = Some (fb, Silent ''cache-unavailable'')" "de_result d = resultForCandidate rel nx"
    and fb: "stateAfterFailedCheck st now True = Some fb"
    and t: "us_nextCheckAt nx = Some (toISOString t)" "time_value t" "now + FIRST_FAILURE_DELAY_MS \<le> t" "t \<le> now + MAX_CACHE_HORIZON_MS"
    using state_ok_checked [OF assms(1,2,3) refl] by auto
  have later: "LATER_FAILURE_DELAY_MS \<le> MAX_CACHE_HORIZON_MS" by (simp add: LATER_FAILURE_DELAY_MS_def MAX_CACHE_HORIZON_MS_def CHECK_TTL_MS_def)
  obtain t' where f: "state_ok (lr_version rel) fb"
    "us_nextCheckAt fb = Some (toISOString t')" "time_value t'" "now + FIRST_FAILURE_DELAY_MS \<le> t'" "t' \<le> now + LATER_FAILURE_DELAY_MS"
    using state_ok_failed [OF assms(1) fb] by blast
  have enc: "encodeRecoverableState fb \<noteq> None" using f(1) by (simp add: state_ok_def)
  show ?thesis
  proof (cases "encodeRecoverableState nx = None")
    case True
    then have "x = Some fb" "is_silent r" using assms(4) enc by (auto simp: committed_choice_def n is_silent_def)
    with f later show ?thesis by (intro exI [of _ fb]) auto
  next
    case False
    then have "x = Some nx" "r = resultForCandidate rel nx" using assms(4) by (auto simp: committed_choice_def n)
    with t show ?thesis by blast
  qed
qed

lemma check_outcome:
  assumes rel: "version_ok (Some (lr_version rel))" and c: "cache_ok (lr_version rel) cache" and f: "\<And>c. fetched = Inr c \<Longrightarrow> candidate_ok c"
    and check: "check_release other rel fetched now random cache = (cache', r)"
  shows "cache_ok (lr_version rel) cache'"
    "set (us_acknowledged (readState cache (Some (lr_version rel)))) \<subseteq> set (us_acknowledged (readState cache' (Some (lr_version rel))))"
    "is_silent r \<or> r = resultForCandidate rel (readState cache' (Some (lr_version rel)))"
proof -
  let ?v = "lr_version rel" and ?st = "readState cache (Some (lr_version rel))"
  define m where "m = check_decision rel fetched now random"
  have good: "version_ok (Some ?v) \<and> cache_ok ?v cache" using rel c by simp
  note st = cache_store.read_good [OF good]
  have d: "decides_good (state_ok ?v) m ?st" unfolding m_def by (rule check_decides [OF st f])
  consider (fresh) "cache' = cache" "r = resultForCandidate rel ?st" | (tr) "transaction cache ?v m = (cache', r)"
    using check by (auto simp: check_release_def freshStateResult_def m_def split: option.splits if_splits)
  then have "cache_ok ?v cache' \<and> set (us_acknowledged ?st) \<subseteq> set (us_acknowledged (readState cache' (Some ?v))) \<and>
    (is_silent r \<or> r = resultForCandidate rel (readState cache' (Some ?v)))"
  proof cases
    case tr
    have "is_silent r \<or> r = resultForCandidate rel st'" if "m ?st = Some d" "committed_choice d = (Some st', r)" for d st'
      using that(1) failed_choice [OF st _ that(2)] checked_choice [OF st f _ that(2)] by (auto simp: m_def check_decision_def split: sum.splits fetch_error.splits)
    then have "is_silent r \<or> r = resultForCandidate rel (readState cache' (Some ?v))"
      using cache_store.result_of_state [OF good d tr, of "\<lambda>st r. r = resultForCandidate rel st"] by blast
    with cache_store.transact_good [OF good d tr] cache_store.acknowledged_kept [OF good d tr] show ?thesis by simp
  qed (use c in auto)
  then show "cache_ok ?v cache'" "set (us_acknowledged ?st) \<subseteq> set (us_acknowledged (readState cache' (Some ?v)))"
    "is_silent r \<or> r = resultForCandidate rel (readState cache' (Some ?v))" by simp_all
qed

lemma acknowledge_outcome:
  assumes rel: "version_ok (Some (lr_version rel))" and c: "cache_ok (lr_version rel) cache"
    and releaseFile: "installed_release releaseFile = Some rel" and ack: "acknowledgeUpdate releaseFile deadline key cache = (cache', r)"
  shows "cache_ok (lr_version rel) cache'"
    "set (us_acknowledged (readState cache (Some (lr_version rel)))) \<subseteq> set (us_acknowledged (readState cache' (Some (lr_version rel))))"
    "is_silent r \<or> r = Acknowledged key \<and> the (digestForEventKey key) \<in> set (us_acknowledged (readState cache' (Some (lr_version rel))))"
proof -
  let ?v = "lr_version rel" and ?st = "readState cache (Some (lr_version rel))"
  have good: "version_ok (Some ?v) \<and> cache_ok ?v cache" using rel c by simp
  note st = cache_store.read_good [OF good]
  have "cache_ok ?v cache' \<and> set (us_acknowledged ?st) \<subseteq> set (us_acknowledged (readState cache' (Some ?v))) \<and>
    (is_silent r \<or> r = Acknowledged key \<and> the (digestForEventKey key) \<in> set (us_acknowledged (readState cache' (Some ?v))))"
  proof (cases "digestForEventKey key")
    case None
    with ack c show ?thesis by (auto simp: acknowledgeUpdate_def is_silent_def)
  next
    case (Some x)
    show ?thesis
    proof (cases deadline)
      case False
      with ack c Some releaseFile show ?thesis by (auto simp: acknowledgeUpdate_def is_silent_def)
    next
      case True
      let ?m = "acknowledged_decision key x"
      have tr: "transaction cache ?v ?m = (cache', r)" using ack Some True releaseFile by (simp add: acknowledgeUpdate_def)
      note d = acknowledged_good [OF st, of key x]
      have "is_silent r \<or> r = Acknowledged key \<and> x \<in> set (us_acknowledged st')" if "?m ?st = Some d" "committed_choice d = (Some st', r)" for d st'
        using that(1) choice_some [OF that(2)] by (auto simp: acknowledged_decision_def stateAfterAcknowledgement_def split: if_splits)
      then have "is_silent r \<or> r = Acknowledged key \<and> x \<in> set (us_acknowledged (readState cache' (Some ?v)))"
        using cache_store.result_of_state [OF good d tr, of "\<lambda>st r. r = Acknowledged key \<and> x \<in> set (us_acknowledged st)"] by blast
      with cache_store.transact_good [OF good d tr] cache_store.acknowledged_kept [OF good d tr] Some show ?thesis by simp
    qed
  qed
  then show "cache_ok ?v cache'" "set (us_acknowledged ?st) \<subseteq> set (us_acknowledged (readState cache' (Some ?v)))"
    "is_silent r \<or> r = Acknowledged key \<and> the (digestForEventKey key) \<in> set (us_acknowledged (readState cache' (Some ?v)))" by simp_all
qed

subsection \<open>Histories of a cache directory\<close>

text \<open>Checks with any answer, at any time, and acknowledgements of any key, by one installed release.\<close>

inductive update_step ::
    "(string \<Rightarrow> timestamp option) \<Rightarrow> (string \<Rightarrow> string option) \<Rightarrow> (string \<Rightarrow> json option) \<Rightarrow> json option \<Rightarrow> update_cache \<Rightarrow> update_cache \<Rightarrow> bool"
    for other decode parse_json releaseFile where
  check: "checkForUpdate other decode parse_json releaseFile answer now random cache = (cache', r) \<Longrightarrow> update_step other decode parse_json releaseFile cache cache'"
| acknowledge: "acknowledgeUpdate releaseFile deadline key cache = (cache', r) \<Longrightarrow> update_step other decode parse_json releaseFile cache cache'"

definition empty_cache :: update_cache where
  "empty_cache = \<lparr>uc_occupied = [], uc_committed = []\<rparr>"

abbreviation update_history where
  "update_history other decode parse_json releaseFile \<equiv> (update_step other decode parse_json releaseFile)\<^sup>*\<^sup>*"

lemma check_entry:
  assumes rel: "version_ok (Some (lr_version rel))" and c: "cache_ok (lr_version rel) cache" and releaseFile: "installed_release releaseFile = Some rel"
    and check: "checkForUpdate other decode parse_json releaseFile answer now random cache = (cache', r)"
  shows "cache_ok (lr_version rel) cache'"
    "set (us_acknowledged (readState cache (Some (lr_version rel)))) \<subseteq> set (us_acknowledged (readState cache' (Some (lr_version rel))))"
    "is_silent r \<or> r = resultForCandidate rel (readState cache' (Some (lr_version rel)))"
proof -
  let ?v = "lr_version rel"
  consider "cache' = cache" "is_silent r" | x t where
    "check_release other rel (fetchCandidate other decode parse_json (lr_updateManifestUrl rel) x) t random cache = (cache', r)"
    using check releaseFile by (auto simp: checkForUpdate_def is_silent_def split: option.splits)
  then have "cache_ok ?v cache' \<and> set (us_acknowledged (readState cache (Some ?v))) \<subseteq> set (us_acknowledged (readState cache' (Some ?v))) \<and>
    (is_silent r \<or> r = resultForCandidate rel (readState cache' (Some ?v)))"
  proof cases
    case 2
    have "candidate_ok y" if "fetchCandidate other decode parse_json (lr_updateManifestUrl rel) x = Inr y" for y using that by (rule fetched_candidate)
    from check_outcome [OF rel c this 2] show ?thesis by simp
  qed (use c in simp)
  then show "cache_ok ?v cache'" "set (us_acknowledged (readState cache (Some ?v))) \<subseteq> set (us_acknowledged (readState cache' (Some ?v)))"
    "is_silent r \<or> r = resultForCandidate rel (readState cache' (Some ?v))" by simp_all
qed

lemma step_outcome:
  assumes "update_step other decode parse_json releaseFile cache cache'" "version_ok (Some (lr_version rel))" "cache_ok (lr_version rel) cache"
    "installed_release releaseFile = Some rel"
  shows "cache_ok (lr_version rel) cache' \<and>
    set (us_acknowledged (readState cache (Some (lr_version rel)))) \<subseteq> set (us_acknowledged (readState cache' (Some (lr_version rel))))"
  using assms(1)
proof cases
  case (check answer now random r)
  from check_entry(1,2) [OF assms(2-4) check] show ?thesis by simp
next
  case (acknowledge deadline key r)
  from acknowledge_outcome(1,2) [OF assms(2-4) acknowledge] show ?thesis by simp
qed

lemma history_outcome:
  assumes "update_history other decode parse_json releaseFile cache cache'" "version_ok (Some (lr_version rel))" "cache_ok (lr_version rel) cache"
    "installed_release releaseFile = Some rel"
  shows "cache_ok (lr_version rel) cache' \<and>
    set (us_acknowledged (readState cache (Some (lr_version rel)))) \<subseteq> set (us_acknowledged (readState cache' (Some (lr_version rel))))"
  using assms(1)
proof (induction rule: rtranclp_induct)
  case (step y z)
  with step_outcome [OF step(2) assms(2) _ assms(4)] show ?case by blast
qed (use assms(3) in simp)

lemma empty_cache_ok: "cache_ok v empty_cache"
  by (simp add: cache_ok_def empty_cache_def)

lemma reachable_ok:
  assumes "installed_release releaseFile = Some rel" "update_history other decode parse_json releaseFile empty_cache cache"
  shows "version_ok (Some (lr_version rel))" "cache_ok (lr_version rel) cache"
proof -
  show "version_ok (Some (lr_version rel))"
    using assms(1) local_version by (auto simp: installed_release_def split: option.splits sum.splits)
  then show "cache_ok (lr_version rel) cache" using history_outcome [OF assms(2) _ empty_cache_ok assms(1)] by simp
qed

lemma shown_offer:
  assumes "state_ok (lr_version rel) st" "resultForCandidate rel st = Update_available key a b c d e f"
  shows "\<exists>x. digestForEventKey key = Some x \<and> x \<in> set (us_offered st) \<and> x \<notin> set (us_acknowledged st)"
proof -
  obtain c where c: "us_candidate st = Some c" "newer (cd_version c) (lr_version rel)" "\<not> digest_in (cd_targetDigest c) (us_acknowledged st)"
    "key = eventKeyForDigest (js_string (cd_targetDigest c))"
    using assms(2) by (auto simp: resultForCandidate_def notification_def Let_def split: option.splits if_splits)
  obtain x where x: "cd_targetDigest c = JStr x" "DIGEST_PATTERN x" using assms(1) c(1) by (auto simp: state_ok_def candidate_ok_def)
  have "x \<in> set (us_offered st)" using assms(1) c(1-3) x(1) by (auto simp: state_ok_def candidate_accounted_def digest_in_def)
  with c(3,4) x show ?thesis by (simp add: eventKeyForDigest_def digestForEventKey_def digest_in_def SKILL_ID_def Let_def)
qed

lemma scheduled:
  assumes st: "state_ok (lr_version rel) st" and f: "\<And>c. fetched = Inr c \<Longrightarrow> candidate_ok c"
    and now: "0 \<le> now" "time_value (now + MAX_CACHE_HORIZON_MS)"
  shows "\<exists>d st' r t. check_decision rel fetched now random st = Some d \<and>
    committed_choice d = (Some st', r) \<and>
    us_nextCheckAt st' = Some (toISOString t) \<and> time_value t \<and> now + FIRST_FAILURE_DELAY_MS \<le> t \<and> t \<le> now + MAX_CACHE_HORIZON_MS"
proof -
  have horizon: "LATER_FAILURE_DELAY_MS \<le> MAX_CACHE_HORIZON_MS" "FIRST_FAILURE_DELAY_MS \<le> MAX_CACHE_HORIZON_MS" "0 \<le> FIRST_FAILURE_DELAY_MS" "0 \<le> LATER_FAILURE_DELAY_MS"
    by (simp_all add: FIRST_FAILURE_DELAY_MS_def LATER_FAILURE_DELAY_MS_def MAX_CACHE_HORIZON_MS_def CHECK_TTL_MS_def)
  have tv: "time_value (now + x)" if "0 \<le> x" "x \<le> MAX_CACHE_HORIZON_MS" for x using now that by (simp add: time_value_def)
  have failed: "\<exists>st'. stateAfterFailedCheck st now b = Some st'" for b
    using tv [of FIRST_FAILURE_DELAY_MS] tv [of LATER_FAILURE_DELAY_MS] horizon
    by (simp add: stateAfterFailedCheck_def nextFailedCheck_def date_iso_def Let_def)
  have fail: "\<exists>d st' r t. failed_decision reason now st = Some d \<and> committed_choice d = (Some st', r) \<and>
      us_nextCheckAt st' = Some (toISOString t) \<and> time_value t \<and> now + FIRST_FAILURE_DELAY_MS \<le> t \<and> t \<le> now + MAX_CACHE_HORIZON_MS" for reason
  proof -
    obtain d where d: "failed_decision reason now st = Some d" using failed [of False] by (auto simp: failed_decision_def)
    obtain x r where x: "committed_choice d = (x, r)" by fastforce
    from failed_choice [OF st d x] state_ok_failed [OF st] d x horizon show ?thesis by fastforce
  qed
  have "\<exists>d st' r t. checked_decision rel c now random st = Some d \<and> committed_choice d = (Some st', r) \<and>
      us_nextCheckAt st' = Some (toISOString t) \<and> time_value t \<and> now + FIRST_FAILURE_DELAY_MS \<le> t \<and> t \<le> now + MAX_CACHE_HORIZON_MS" if "candidate_ok c" for c
  proof -
    have "\<exists>x. nextSuccessfulCheck now random = Some x"
      by (rule next_check_defined [OF now])
    then obtain d where d: "checked_decision rel c now random st = Some d" using failed [of True] by (auto simp: checked_decision_def Let_def)
    obtain x r where x: "committed_choice d = (x, r)" by fastforce
    from checked_choice [OF st that d x] d x show ?thesis by blast
  qed
  with fail f show ?thesis by (auto simp: check_decision_def split: sum.split fetch_error.split)
qed

lemma newer_one: "newer a b \<Longrightarrow> compareSemver (JStr a) (JStr b) = Inr 1"
proof -
  assume n: "newer a b"
  obtain x y where p: "parseSemver (JStr a) = Inr x" "parseSemver (JStr b) = Inr y"
    using n by (auto simp: newer_def compareSemver_def split: sum.splits)
  then have "wf_semver x" "wf_semver y" by (simp_all add: parseSemver_iff)
  with p have c: "compareSemver (JStr a) (JStr b) = Inr (sign_of (semver_rank x) (semver_rank y))"
    by (simp add: compareSemver_def compare_semver_sign [symmetric] Let_def)
  with n show ?thesis by (auto simp: newer_def sign_of_def split: if_splits)
qed

text \<open>A check that shows an update was made by a valid release and leaves a good cache whose state has that result.\<close>

lemma shown_release:
  "checkForUpdate other decode parse_json releaseFile answer now random cache = (cache', Update_available key installed latest digest severity summary notes) \<Longrightarrow>
    \<exists>rel. installed_release releaseFile = Some rel"
  by (auto simp: checkForUpdate_def split: option.splits)

lemma shown_state:
  assumes "version_ok (Some (lr_version rel))" "cache_ok (lr_version rel) cache" "installed_release releaseFile = Some rel"
    and "checkForUpdate other decode parse_json releaseFile answer now random cache = (cache', Update_available key installed latest digest severity summary notes)"
  shows "cache_ok (lr_version rel) cache'" "state_ok (lr_version rel) (readState cache' (Some (lr_version rel)))"
    "resultForCandidate rel (readState cache' (Some (lr_version rel))) = Update_available key installed latest digest severity summary notes"
proof -
  note out = check_entry [OF assms]
  show "cache_ok (lr_version rel) cache'" by (rule out(1))
  show "state_ok (lr_version rel) (readState cache' (Some (lr_version rel)))" by (rule read_newest(1) [OF out(1) assms(1)])
  show "resultForCandidate rel (readState cache' (Some (lr_version rel))) = Update_available key installed latest digest severity summary notes"
    using out(3) by (simp add: is_silent_def)
qed

subsection \<open>Properties\<close>

text \<open>
  C30. Whatever checks and acknowledgements an installed release has made, with whatever answers of the network: every committed state is at most
  64 KiB long in UTF-8 and passes the validation of the reader, so that no commit is ever skipped as corrupt, the state that is read is the
  one of the highest committed generation, and before the first commit it is the empty one.
\<close>

theorem newest_commit_read:
  assumes "installed_release releaseFile = Some rel" "update_history other decode parse_json releaseFile empty_cache cache"
  shows "(\<forall>x \<in> set (uc_committed cache). utf8_length (stringify (snd x) @ [CHR 0x0A]) \<le> MAX_CACHE_STATE_BYTES \<and>
      normalizeState (snd x) (Some (lr_version rel)) \<noteq> None) \<and>
    (case uc_committed cache of
       [] \<Rightarrow> readState cache (Some (lr_version rel)) = emptyState (Some (lr_version rel))
     | (g, j) # older \<Rightarrow> normalizeState j (Some (lr_version rel)) = Some (readState cache (Some (lr_version rel))) \<and> (\<forall>x \<in> set older. fst x < g))"
proof -
  note ok = reachable_ok [OF assms]
  have "utf8_length (stringify (snd x) @ [CHR 0x0A]) \<le> MAX_CACHE_STATE_BYTES \<and> normalizeState (snd x) (Some (lr_version rel)) \<noteq> None"
    if x: "x \<in> set (uc_committed cache)" for x
  proof -
    obtain st where st: "state_ok (lr_version rel) st" "snd x = state_json st"  using ok(2) x by (auto simp: cache_ok_def)
    then have "encodeBoundedState st \<noteq> None" by (auto simp: state_ok_def encodeRecoverableState_def split: option.splits)
    with state_reads_back [OF st(1) ok(1)] show ?thesis unfolding st(2) by (simp add: encodeBoundedState_def Let_def split: if_splits)
  qed
  moreover have "normalizeState j (Some (lr_version rel)) = Some (readState cache (Some (lr_version rel))) \<and> (\<forall>x \<in> set older. fst x < g)"
    if "uc_committed cache = (g, j) # older" for g j older
  proof
    show "normalizeState j (Some (lr_version rel)) = Some (readState cache (Some (lr_version rel)))"
      by (subst read_newest(3) [OF ok(2,1) that]) (rule state_reads_back [OF read_newest(1) [OF ok(2,1)] ok(1)])
    show "\<forall>x \<in> set older. fst x < g" using ok(2) that by (simp add: cache_ok_def)
  qed
  ultimately show ?thesis using read_newest(2) [OF ok(2,1)] by (auto split: list.split)
qed

text \<open>
  C32. Whatever the network answered before, an update that a check shows names the installed version, a stable version that is newer in SemVer
  precedence, a well-formed digest with its event key, one of the two severities, and the page of the official release of that version.
\<close>

theorem offers_trusted:
  assumes "update_history other decode parse_json releaseFile empty_cache cache"
    and "checkForUpdate other decode parse_json releaseFile answer now random cache =
      (cache', Update_available key installed latest digest severity summary notes)"
  shows "map_option lr_version (installed_release releaseFile) = Some installed \<and> isStableCoreVersion (JStr latest) \<and> compareSemver (JStr latest) (JStr installed) = Inr 1 \<and>
    DIGEST_PATTERN digest \<and> key = eventKeyForDigest digest \<and> severity \<in> {''normal'', ''security''} \<and> notes = release_notes_url latest"
proof -
  obtain rel where rel: "installed_release releaseFile = Some rel" using shown_release [OF assms(2)] ..
  note ok = reachable_ok [OF rel assms(1)]
  note shown = shown_state [OF ok rel assms(2)]
  from shown(3) obtain c where c: "us_candidate (readState cache' (Some (lr_version rel))) = Some c" "newer (cd_version c) (lr_version rel)"
    and n: "notification rel c = Update_available key installed latest digest severity summary notes"
    by (auto simp: resultForCandidate_def split: option.splits if_splits)
  from shown(2) c(1) have cand: "candidate_ok c" by (simp add: state_ok_def)
  from c(2) have "compareSemver (JStr (cd_version c)) (JStr (lr_version rel)) = Inr 1"
    by (rule newer_one)
  with n cand rel show ?thesis by (auto simp: notification_def candidate_ok_def Let_def)
qed



text \<open>
  C31. A check that is not answered from the cache records when the next one is due, whether it succeeded, failed, or met a full
  cache: every check within the following six hours is answered from the cache, which it leaves unchanged.
\<close>

theorem checks_back_off:
  assumes "installed_release releaseFile = Some rel" "update_history other decode parse_json releaseFile empty_cache cache"
    and stale: "freshStateResult other rel (readState cache (Some (lr_version rel))) now = None"
    and room: "int (length (uc_occupied cache)) < MAX_OPERATION_GENERATION"
    and now: "0 \<le> now" "time_value (now + MAX_CACHE_HORIZON_MS)" "now \<le> now'" "now' < now + FIRST_FAILURE_DELAY_MS"
    and check: "checkForUpdate other decode parse_json releaseFile (Some answer) (Some now) random cache = (cache', r)"
  shows "checkForUpdate other decode parse_json releaseFile (Some answer') (Some now') random' cache' = (cache', resultForCandidate rel (readState cache' (Some (lr_version rel))))"
proof -
  note ok = reachable_ok [OF assms(1,2)]
  have good: "version_ok (Some (lr_version rel)) \<and> cache_ok (lr_version rel) cache" using ok by simp
  note st = cache_store.read_good [OF good]
  let ?fetched = "fetchCandidate other decode parse_json (lr_updateManifestUrl rel) answer"
  have cand: "?fetched = Inr c \<Longrightarrow> candidate_ok c" for c by (rule fetched_candidate)
  from scheduled [OF st cand now(1,2)] obtain d st' r' t where
    d: "check_decision rel ?fetched now random (readState cache (Some (lr_version rel))) = Some d"
      "committed_choice d = (Some st', r')"
    and t: "us_nextCheckAt st' = Some (toISOString t)" "time_value t" "now + FIRST_FAILURE_DELAY_MS \<le> t" "t \<le> now + MAX_CACHE_HORIZON_MS" by blast
  from cache_store.transact_room [OF good check_decides [OF st cand] room d] check stale
  have "readState cache' (Some (lr_version rel)) = st'" by (auto simp: checkForUpdate_def check_release_def assms(1))
  with t now(3,4) show ?thesis by (simp add: checkForUpdate_def check_release_def assms(1) freshStateResult_def date_parse_iso)
qed


subsection \<open>A concrete run\<close>

definition example_digest :: string where
  "example_digest = ''sha256:'' @ replicate 64 (CHR ''a'')"

definition example_installed :: json where
  "example_installed = JObj [(''schemaVersion'', JNum 1), (''skillId'', JStr SKILL_ID), (''channel'', JStr ''stable''), (''version'', JStr ''1.2.3''),
     (''source'', JObj [(''repository'', JStr EXPECTED_REPOSITORY)]), (''updateManifestUrl'', JStr DEFAULT_MANIFEST_URL)]"

definition example_local :: local_release where
  "example_local = \<lparr>lr_channel = ''stable'', lr_version = ''1.2.3'', lr_updateManifestUrl = DEFAULT_MANIFEST_URL\<rparr>"

definition example_manifest :: json where
  "example_manifest = JObj [(''schemaVersion'', JNum 1), (''skillId'', JStr SKILL_ID), (''channel'', JStr ''stable''), (''version'', JStr ''1.10.0''),
     (''publishedAt'', JStr ''2024-02-29T12:30:00Z''),
     (''source'', JObj [(''repository'', JStr EXPECTED_REPOSITORY), (''ref'', JStr ''v1.10.0''), (''treeSha'', JStr (replicate 40 (CHR ''b'')))]),
     (''artifact'', JObj [(''sha256'', JStr (replicate 64 (CHR ''a'')))]), (''summary'', JStr ''Faster layout''),
     (''releaseNotes'', JStr (release_notes_url ''1.10.0'')), (''severity'', JStr ''normal'')]"

definition example_response :: response where
  "example_response = \<lparr>rs_status = 200, rs_contentType = Some ''application/json; charset=utf-8'', rs_contentLength = None, rs_chunks = Some [''{'', ''}'']\<rparr>"

definition example_candidate :: candidate where
  "example_candidate = \<lparr>cd_version = ''1.10.0'', cd_targetDigest = JStr example_digest, cd_severity = ''normal'',
     cd_releaseNotes = release_notes_url ''1.10.0''\<rparr>"

definition example_state :: "string list \<Rightarrow> string list \<Rightarrow> update_state" where
  "example_state offered acknowledged = \<lparr>us_installedVersion = Some ''1.2.3'', us_nextCheckAt = Some ''1970-01-03T09:36:00.000Z'', us_failures = 0,
     us_offered = offered, us_acknowledged = acknowledged, us_candidate = Some example_candidate\<rparr>"

definition example_cache :: update_cache where
  "example_cache = \<lparr>uc_occupied = [1], uc_committed = [(1, state_json (example_state [example_digest] []))]\<rparr>"

definition example_acknowledged :: update_cache where
  "example_acknowledged = \<lparr>uc_occupied = [2, 1],
     uc_committed = [(2, state_json (example_state [] [example_digest])), (1, state_json (example_state [example_digest] []))]\<rparr>"

lemma example_release: "installed_release (Some example_installed) = Some example_local"
  by code_simp

lemma example_fetch: "fetchCandidate (\<lambda>_. None) Some (\<lambda>_. Some example_manifest) (lr_updateManifestUrl example_local) (Some example_response) = Inr example_candidate"
  by code_simp

abbreviation example_checks where
  "example_checks \<equiv> checkForUpdate (\<lambda>_. None) Some (\<lambda>_. Some example_manifest) (Some example_installed)"

lemma example_digest_ok: "DIGEST_PATTERN example_digest" "list_all plain_char example_digest" "length example_digest = 71"
proof -
  show "DIGEST_PATTERN example_digest" by code_simp
  from digest_plain [OF this] show "list_all plain_char example_digest" "length example_digest = 71" by simp_all
qed

lemma example_recoverable: "encodeRecoverableState (example_state [example_digest] []) \<noteq> None"
proof -
  let ?st = "example_state [example_digest] []"
  have literal: "list_all plain_char (c # s) \<longleftrightarrow> plain_char c \<and> list_all plain_char s" "plain_char c \<longleftrightarrow> 32 \<le> (of_char c :: nat) \<and> (of_char c :: nat) < 128 \<and> c \<noteq> CHR 0x22 \<and> c \<noteq> CHR 0x5C"
    for c s by (simp_all add: plain_char_def)
  have n: "utf8_length (show_num 0) = 1" "utf8_length (show_num 1) = 1" "utf8_length (show_num 2) = 1"
    using show_count [of 0] show_count [of 1] show_count [of 2] by simp_all
  have "base_size ?st \<le> 2000" "failure_size ?st \<le> 2000"
    using n by (simp_all add: base_size_def failure_size_def candidate_size_def example_state_def example_candidate_def release_notes_url_def
        stateWithFailureCheck_def state_json_def check_json_def notification_json_def candidate_json_def json_or_null_def render_entry_def
        SKILL_ID_def LONGEST_ISO_TIMESTAMP_def utf8_quote_plain example_digest_ok literal)
  then have "fits_with ?st 1 0" "fits_with ?st 0 1" by (simp_all add: fits_with_def digests_size_def MAX_CACHE_STATE_BYTES_def)
  moreover have "digests_ok ?st" by (simp add: digests_ok_def example_state_def example_digest_ok)
  moreover have "length (us_offered ?st) = 1" "length (us_acknowledged ?st) = 0" by (simp_all add: example_state_def)
  ultimately show ?thesis using recoverable_iff [of ?st] by (auto simp: le_Suc_eq)
qed

lemma example_decision: "map_option (\<lambda>d. (de_state d, de_result d)) (checked_decision example_local example_candidate 0 0 (emptyState (Some ''1.2.3''))) =
    Some (Some (example_state [example_digest] []), notification example_local example_candidate)"
  by code_simp

lemma example_check_release: "check_release (\<lambda>_. None) example_local (Inr example_candidate) 0 0 empty_cache =
    (example_cache, notification example_local example_candidate)"
proof -
  have v: "lr_version example_local = ''1.2.3''" by (simp add: example_local_def)
  have read: "readState empty_cache (Some ''1.2.3'') = emptyState (Some ''1.2.3'')" by (simp add: readState_def empty_cache_def List.map_filter_def)
  have "freshStateResult (\<lambda>_. None) example_local (emptyState (Some ''1.2.3'')) 0 = None" "reserve_generation (uc_occupied empty_cache) = Some 1" by code_simp+
  moreover obtain d where "checked_decision example_local example_candidate 0 0 (emptyState (Some ''1.2.3'')) = Some d"
    "de_state d = Some (example_state [example_digest] [])" "de_result d = notification example_local example_candidate"
    using example_decision by auto
  ultimately show ?thesis using example_recoverable
    by (simp add: check_release_def check_decision_def v read transaction_def commitOperation_def committed_choice_def)
      (simp add: empty_cache_def example_cache_def)
qed

lemma example_check: "example_checks (Some (Some example_response)) (Some 0) 0 empty_cache = (example_cache, notification example_local example_candidate)"
  by (simp add: checkForUpdate_def example_release example_fetch example_check_release)

lemma example_notification:
  "notification example_local example_candidate = Update_available (eventKeyForDigest example_digest) ''1.2.3'' ''1.10.0'' example_digest ''normal''
    ''Archify 1.10.0 is available; see the official release notes for details.'' (release_notes_url ''1.10.0'')"
  by code_simp

lemma example_history: "update_history (\<lambda>_. None) Some (\<lambda>_. Some example_manifest) (Some example_installed) empty_cache example_cache"
  by (rule r_into_rtranclp, rule update_step.check [OF example_check])

lemma example_read: "readState example_cache (Some ''1.2.3'') = example_state [example_digest] []"
  using read_newest(3) [OF reachable_ok(2,1) [OF example_release example_history]]
  by (intro state_json_inj) (simp add: example_cache_def example_local_def)

lemma example_acknowledge: "acknowledgeUpdate (Some example_installed) True (eventKeyForDigest example_digest) example_cache =
    (example_acknowledged, Acknowledged (eventKeyForDigest example_digest))"
proof -
  have v: "lr_version example_local = ''1.2.3''" by (simp add: example_local_def)
  have "state_ok ''1.2.3'' (example_state [example_digest] [])"
    using read_newest(1) [OF reachable_ok(2,1) [OF example_release example_history]] by (simp add: v example_read)
  from state_ok_acknowledged [OF this, of example_digest]
  have "encodeRecoverableState (stateAfterAcknowledgement (example_state [example_digest] []) example_digest) \<noteq> None"
    by (simp add: state_ok_def) (simp add: example_state_def)
  moreover have "digestForEventKey (eventKeyForDigest example_digest) = Some example_digest" "reserve_generation (uc_occupied example_cache) = Some 2" by code_simp+
  ultimately show ?thesis
    by (simp add: acknowledgeUpdate_def example_release v transaction_def commitOperation_def example_read acknowledged_decision_def committed_choice_def)
      (simp add: example_state_def stateAfterAcknowledgement_def example_acknowledged_def example_cache_def)
qed

theorem newest_commit_read_witness:
  "normalizeState (state_json (example_state [example_digest] [])) (Some ''1.2.3'') = Some (readState example_cache (Some ''1.2.3''))"
proof -
  have "lr_version example_local = ''1.2.3''" "uc_committed example_cache = [(1, state_json (example_state [example_digest] []))]"
    by (simp_all add: example_local_def example_cache_def)
  with newest_commit_read [OF example_release example_history] show ?thesis by (simp only: list.case prod.case)
qed

theorem offers_trusted_witness:
  "compareSemver (JStr ''1.10.0'') (JStr ''1.2.3'') = Inr 1 \<and> DIGEST_PATTERN example_digest"
  using offers_trusted [OF rtranclp.rtrancl_refl example_check [unfolded example_notification]] by blast



theorem checks_back_off_witness:
  "example_checks (Some None) (Some 21599999) 1 example_cache =
    (example_cache, resultForCandidate example_local (readState example_cache (Some ''1.2.3'')))"
proof -
  have v: "lr_version example_local = ''1.2.3''" by (simp add: example_local_def)
  have "freshStateResult (\<lambda>_. None) example_local (readState empty_cache (Some (lr_version example_local))) 0 = None"
    "int (length (uc_occupied empty_cache)) < MAX_OPERATION_GENERATION" "(0 :: int) \<le> 0" "time_value (0 + MAX_CACHE_HORIZON_MS)"
    "(0 :: int) \<le> 21599999" "(21599999 :: int) < 0 + FIRST_FAILURE_DELAY_MS" by code_simp+
  from checks_back_off [OF example_release rtranclp.rtrancl_refl this example_check] show ?thesis unfolding v .
qed

text \<open>The test of a hash by a pattern converts its argument, so an array that holds the hash is accepted as well.\<close>

definition example_array_manifest :: json where
  "example_array_manifest = (case example_manifest of
     JObj kvs \<Rightarrow> JObj (map (\<lambda>(k, v). (k, if k = ''artifact'' then JObj [(''sha256'', JArr [JStr (replicate 64 (CHR ''a''))])] else v)) kvs)
   | v \<Rightarrow> v)"

theorem array_hash_accepted: "validateManifest (\<lambda>_. None) example_array_manifest = Inr example_candidate"
  by code_simp

end
