(* ===== verification/Spec2Isabelle.thy ===== *)
theory Spec2Isabelle
  imports Job_Lifecycle Concurrent_Submissions Metrics Route_Gates Architecture_Delta Update_Cache
begin

text \<open>
  A verification library for the payment queue service under \<^verbatim>\<open>src/src\<close>: a NestJS application that accepts
  payments over HTTP, keeps them in Redis, queues one BullMQ job per payment and lets workers charge an external gateway
  under a rate limiter and a circuit breaker. The agent skill \<^verbatim>\<open>src/.agents/skills/archify\<close>, a diagram tool
  kept beside the service, is covered in its geometry, its diagnostics, the comparison of snapshots and the check for updates.

  \<^bold>\<open>The parts and how they interact.\<close> A request goes through a controller
  (\<^verbatim>\<open>payments.controller.ts\<close>) and validation to \<open>submit\<close> (\<^verbatim>\<open>payment.service.ts\<close>), which
  claims an idempotency lease (\<^verbatim>\<open>idempotency.service.ts\<close>), stores the record
  (\<^verbatim>\<open>payment-store.service.ts\<close>) with an audit entry (\<^verbatim>\<open>audit-log.service.ts\<close>), announces it on
  the event bus (\<^verbatim>\<open>event-bus.ts\<close>) and enqueues a job (\<^verbatim>\<open>queue-manager.service.ts\<close>). A worker runs
  \<open>processJob\<close> (\<^verbatim>\<open>payment.processor.ts\<close>) under an execution lock; it drives the saga
  (\<^verbatim>\<open>payment-saga.service.ts\<close>) of reservation, charge and settlement, the charge through the guard
  (\<^verbatim>\<open>gateway-guard.ts\<close>) with its per-gateway token bucket, circuit breaker and provider, the settlement into the
  ledger (\<^verbatim>\<open>settlement-ledger.service.ts\<close>). A permanent failure and exhausted retries end in the dead letter queue.
  The collector (\<^verbatim>\<open>metrics-collector.service.ts\<close>) listens to the events.

  \<^bold>\<open>Effects.\<close> Theory \<open>Effects\<close> gives the language of the model: an \<open>async\<close> function is a tree of reads and
  updates of the memory, calls to the outside, exceptions and divergence, with \<open>bind\<close> for \<^verbatim>\<open>await\<close>,
  \<open>catch\<close> and \<open>finally_do\<close> for \<^verbatim>\<open>try\<close>. A handler answers the calls; \<open>run\<close> executes a tree, and
  \<open>wp\<close> is total correctness: the run ends and its outcome satisfies the postcondition. Theorems are about an
  arbitrary handler. \<open>Environment\<close> lists the calls (clock, timers, randomness, the Redis commands, BullMQ, tracing) and
  states what is relied on as locales: \<open>js_world\<close> (the clock does not go back, timers sleep, random numbers lie in the unit
  interval; nothing about Redis or BullMQ, which may answer anything), \<open>redis_world\<close> (each command has its documented
  effect or fails without one) and \<open>reliable_world\<close> (no command fails). They are interpreted on a concrete
  executable world, \<open>calm\<close> and \<open>faulty\<close>, which the witnesses run. \<open>queues_ok\<close> says that BullMQ accepts.
  \<open>Process_Memory\<close> is the memory of the process: the registries of the gateways, the runtimes of the queue manager, samples
  and alerts, the emitted events, and a store of payment records, because services mutate them through shared references.

  \<^bold>\<open>Theories of the service.\<close>
  \<^item> \<open>Js_Prelude\<close>: insertion-ordered maps, \<^verbatim>\<open>??\<close>, rounding and string functions. JavaScript numbers are
    integers or rationals; rounding errors of floating point are not modelled.
  \<^item> \<open>Payment_Domain\<close>, \<open>Errors\<close> (\<^verbatim>\<open>src/domain\<close>), \<open>App_Config\<close>
    (\<^verbatim>\<open>app-config.ts\<close>), \<open>Event_Bus\<close>, \<open>Tracing\<close>: data, classification of failures, configuration
    from the environment, ordered delivery past throwing listeners (\<open>emit_delivers_in_order\<close>), spans that are transparent for what they wrap.
  \<^item> \<open>Circuit_Breaker\<close>: equivalence with a breaker that never forgets a sample (C10), the invariant of reachable
    states (C18), one probe at a time, the quiet period (C19). \<open>Token_Bucket\<close>: throughput bound, envelope and closed
    form of the adaptive rate (C11, C20, \<open>aimd_closed_form\<close>). \<open>Mock_Gateway\<close>: the provider.
  \<^item> \<open>Gateway_Registries\<close> (the lookup laws of the three registries as locale \<open>gateway_registry\<close>),
    \<open>Gateway_Guard\<close>: isolation between gateways, fast failure and the probe that is never reported (C12, C21, C22), what is sampled, refunds.
  \<^item> \<open>Records\<close>, \<open>Idempotency\<close>, \<open>Database\<close>: the Redis keys and the services over them, and the abstract
    database (documents, audit logs, ledger, leases, locks) that \<open>db_of\<close> reads off a keyspace. One rule per operation
    (\<open>do_save\<close>, \<open>do_idem_nx\<close>, ...) makes it a refinement; later proofs never look at a key.
  \<^item> \<open>Payment_Saga\<close>: refinement of the four ways a saga ends (C4), and in every world at most one charge and one
    refund (C13). \<open>Payment_Processor\<close>: refinement of the six ways an attempt ends (C3), at most one
    settlement per payment over any sequence of attempts (C1), billing (C14), exhausted retries (C15), and two runs in
    which a failing Redis loses a charge (C23) or leaks a lock.
  \<^item> \<open>Interleaving\<close>: attempts at work at the same time; the execution lock excludes (C2), and what it does not exclude (C8).
    \<open>Concurrent_Submissions\<close>: two requests with one id that are both accepted (C9).
    \<open>Persistence\<close>: records read back, final records exactly for their time (C16, C17).
  \<^item> \<open>Queue_Manager\<close>: worker pools (C25), provisioning, queue names, and the loop that a negative pool size makes endless.
  \<^item> \<open>Payment_Service\<close>, \<open>Payments_Api\<close>: validation (C24), submission, queries, HTTP answers.
    \<open>Submission\<close>: refinement of the five ways a submission ends (C6), and the jobs it hands to the queues (C7) over
    the locale \<open>job_log\<close>.
  \<^item> \<open>Job_Lifecycle\<close>: the worker callbacks with the handlers that \<^verbatim>\<open>payments.module.ts\<close> registers, driven by the
    retry protocol that BullMQ documents (\<open>job_life\<close>), and the proof that every life closes its payment and that a life
    exists. This theory: every accepted payment is closed (C5).
  \<^item> \<open>Metrics\<close>: the rolling window against the full history (C26), alerts against the snapshot (C27), the percentile.

  \<^bold>\<open>Theories of archify.\<close> \<open>Geometry\<close> and \<open>Route_Gates\<close>
  (\<^verbatim>\<open>renderers/shared/geometry.mjs\<close>): overlap, crossings, clipping, route normalisation, the
  through-node gate (C40), border overlaps and port spread. \<open>Diagnostics\<close>
  (\<^verbatim>\<open>diagnostics.mjs\<close>): recording without duplicates. \<open>Canonical_Json\<close> and \<open>Architecture_Delta\<close>
  (\<^verbatim>\<open>delta/architecture-delta.mjs\<close>): the canonical serialisation is a code (C33); the receipt of a comparison is
  exact, independent of the order of the snapshots, refused exactly for incomparable ones (C34 to C36), and its rows are unique;
  escaped text reads back (C37).

  \<^bold>\<open>The update check of archify.\<close> \<open>checkForUpdate\<close> reads the installed release, answers from its cache while that is
  fresh, and otherwise fetches a manifest, validates it and commits the outcome as a new generation of the cache directory;
  \<open>acknowledgeUpdate\<close> commits that an update has been seen. \<open>Js_Date\<close>: \<open>Date.parse\<close> of ISO strings and \<open>toISOString\<close> over the
  Gregorian calendar, inverse to each other. \<open>Update_Contract\<close> (\<^verbatim>\<open>scripts/update-contract.mjs\<close>): the language of
  versions, their precedence as a linear order (C38), publication times (C39), the validation of the release and of the manifest.
  \<open>Update_State\<close> (\<^verbatim>\<open>scripts/check-update.mjs\<close>): the cached state, its encoding and validation, decisions, commit and
  entry points. \<open>Update_Cache\<close>: the sizes of encodings, well-formed states and what every decision keeps of them, the locale
  \<open>update_store\<close> of what the entry points rely on, interpreted on the cache directory, and the guarantees over all histories: an
  acknowledged update stays silent (C28), a shown one can be acknowledged (C29), the newest commit is the one that is read (C30),
  checks back off (C31), and offers are trusted (C32).

  \<^bold>\<open>Fuel.\<close> The loops that depend on state carry a counter that ends in divergence, and the theorems prove that the
  runs end, so the counters are enough: \<open>wait_loop\<close> polls at most once per millisecond until its deadline, since
  every sleep advances the clock; \<open>grow_workers\<close> and \<open>shrink_workers\<close> make one pass per worker. Where the
  source does not end, the theorem \<open>negative_pool_spins\<close> is stated for every fuel.

  \<^bold>\<open>Concurrency.\<close> Most theorems are about one \<open>async\<close> function from its call to its end, or about a sequence of
  them: \<open>js_world\<close> allows a handler to do anything between two calls, \<open>redis_world\<close> and \<open>reliable_world\<close> describe a keyspace
  that only this function writes. \<open>Interleaving\<close> runs any number of functions in any number of processes against one
  world: a schedule picks the function that makes the next call, memory is shared inside a process, and a function that
  is scheduled alone behaves as in \<open>run\<close>. C2 holds for every schedule; C8 and C9 exhibit schedules for every reliable
  world. In \<open>job_life\<close> other work may happen between two steps of a job and change anything but the rows of its payment; a
  worker that dies in the middle of an attempt (a stalled job) is not a step of it. Interleaved first uses of a gateway are not
  treated: the model finds a runtime by its gateway, where the code keeps a reference to it across \<^verbatim>\<open>await\<close>.

  \<^bold>\<open>Not modelled.\<close> NestJS modules (but the registration of the handlers), decorators and bootstrap (\<^verbatim>\<open>main.ts\<close>,
  \<^verbatim>\<open>*.module.ts\<close>, the DTO classes) declare wiring and documentation for the framework. The OpenTelemetry SDK,
  ioredis, BullMQ and Socket.IO are third-party code behind calls; log lines have no effect in the model. Parsing of
  date strings outside the ISO format and reading of secret files are parameters. Of archify, the workflow compiler, the renderers that print SVG
  and HTML (the rewriting of SVG text in the comparison page included), the command line and the generated icon data
  are left out, and of the geometry the rounded SVG paths and the style tables. \<open>parseRepositoryRemote\<close> of
  \<^verbatim>\<open>repository-location.mjs\<close> rests on the URL parser of the platform and is a parameter of the comparison. Of the update check,
  the guarded file operations and the claims and fencing by which processes exclude each other rest on identities, permissions and
  atomic renames of the file system and are left out: a cache directory is used by one process at a time, and file operations do not
  fail. The UTF-8 decoder and \<open>JSON.parse\<close> are parameters of \<open>fetchCandidate\<close>; strings are sequences of code units below 256.
\<close>

section \<open>From submission to settlement\<close>


text \<open>A submission on an empty database and the life of its job.\<close>

lemma sample_submission:
  "case run world_step (submit default_config None sample_input) empty_mem start_world of
     Some (Inr (Submit_created r), _, _) \<Rightarrow> True | _ \<Rightarrow> False"
  by code_simp


end
